(* ===== verification/Prelude.thy ===== *)
theory Prelude
  imports Main "HOL-Library.Word"
begin

unbundle bit_operations_syntax

text \<open>
  Shared vocabulary of the development: the fixed-width integer types of the C++ code, the
  result type of code that can throw or run into undefined behaviour, the source of the
  values returned by \<open>rand()\<close> and \<open>random()\<close>, and generic lemmas on words and lists.
\<close>

section \<open>Integers of the C++ code\<close>

type_synonym u8 = "8 word"
type_synonym u16 = "16 word"
type_synonym u32 = "32 word"
type_synonym u64 = "64 word"

section \<open>Faults and results\<close>

text \<open>
  \<open>Throw\<close> carries the message of a C++ \<open>throw "..."\<close>; \<open>Out_of_range\<close> is the exception of
  \<open>std::vector::at\<close>; \<open>Undefined\<close> marks a point where the C++ standard gives the program no
  meaning (a pop of an empty container, a null dereference, a signed overflow); \<open>Spins\<close> is the
  result of code that never leaves a loop.
\<close>

datatype fault = Throw string | Out_of_range | Undefined string | Spins

type_synonym 'a res = "fault + 'a"

fun res_bind :: "'a res \<Rightarrow> ('a \<Rightarrow> 'b res) \<Rightarrow> 'b res" where
  "res_bind (Inl e) f = Inl e"
| "res_bind (Inr x) f = f x"

fun res_map :: "('a \<Rightarrow> 'b) \<Rightarrow> 'a res \<Rightarrow> 'b res" where
  "res_map f (Inl e) = Inl e"
| "res_map f (Inr x) = Inr (f x)"

text \<open>The value of a C++ \<open>bool\<close> in integer arithmetic.\<close>

definition of_flag :: "bool \<Rightarrow> 'a::len word" where
  "of_flag b = (if b then 1 else 0)"

section \<open>Pseudo-random numbers\<close>

text \<open>
  \<open>rand()\<close> and \<open>random()\<close> return a non-negative 31-bit number. The sequence of the numbers
  they return is an argument of the model: an arbitrary function from call number to value.
\<close>

type_synonym rng = "nat \<Rightarrow> nat"

definition rand :: "rng \<Rightarrow> nat \<times> rng" where
  "rand r = (r 0 mod 2 ^ 31, \<lambda>n. r (Suc n))"

section \<open>Loops over lists\<close>

text \<open>\<open>for (it ...) { if (!p(*it)) continue; f(*it); break; }\<close>\<close>

fun update_first :: "('a \<Rightarrow> bool) \<Rightarrow> ('a \<Rightarrow> 'a) \<Rightarrow> 'a list \<Rightarrow> 'a list" where
  "update_first p f [] = []"
| "update_first p f (x # xs) = (if p x then f x # xs else x # update_first p f xs)"

text \<open>Every element is the successor under \<open>f\<close> of the one before it.\<close>

fun chained :: "('a \<Rightarrow> 'a) \<Rightarrow> 'a list \<Rightarrow> bool" where
  "chained f (x # y # zs) = (y = f x \<and> chained f (y # zs))"
| "chained f _ = True"

section \<open>Runs\<close>

text \<open>
  \<open>run_res step is s\<close> feeds the inputs \<open>is\<close> to a fallible step one by one and collects the
  states it goes through; the first fault ends the run.
\<close>

fun run_res :: "('i \<Rightarrow> 's \<Rightarrow> 's res) \<Rightarrow> 'i list \<Rightarrow> 's \<Rightarrow> 's list res" where
  "run_res step [] s = Inr []"
| "run_res step (i # is) s =
     res_bind (step i s) (\<lambda>s'. res_map (\<lambda>ss. s' # ss) (run_res step is s'))"

text \<open>What a component takes in along a run, each input paired with the state that meets it.\<close>

fun taken :: "('i \<Rightarrow> 's \<Rightarrow> 'k list) \<Rightarrow> 'i list \<Rightarrow> 's list \<Rightarrow> 'k list" where
  "taken acc (i # is) (s # ss) = acc i s @ taken acc is ss"
| "taken acc _ _ = []"

named_theorems step_simps \<open>equations that unfold one evaluation step of a component\<close>

section \<open>Generic lemmas\<close>

lemma res_bind_Inr_iff [simp]:
  "res_bind m f = Inr y \<longleftrightarrow> (\<exists>x. m = Inr x \<and> f x = Inr y)"
  by (cases m) auto

lemma res_bind_Inl_iff [simp]:
  "res_bind m f = Inl e \<longleftrightarrow> m = Inl e \<or> (\<exists>x. m = Inr x \<and> f x = Inl e)"
  by (cases m) auto

lemma res_map_Inr_iff [simp]: "res_map f m = Inr y \<longleftrightarrow> (\<exists>x. m = Inr x \<and> f x = y)"
  by (cases m) auto

lemma res_map_Inl_iff [simp]: "res_map f m = Inl e \<longleftrightarrow> m = Inl e"
  by (cases m) auto

lemma fst_rand_less: "fst (rand r) < 2 ^ 31"
  by (simp add: rand_def)

lemma map_update_first [simp]:
  "(\<And>x. g (f x) = g x) \<Longrightarrow> map g (update_first p f xs) = map g xs"
  by (induction xs) auto

lemma length_update_first [simp]: "length (update_first p f xs) = length xs"
  by (induction xs) auto

lemma update_first_eq_Nil [simp]: "update_first p f xs = [] \<longleftrightarrow> xs = []"
  by (cases xs) auto

lemma unat_u16_less: "unat (a::u16) < 65536"
proof -
  have "unat a < 2 ^ LENGTH(16)" by (rule unsigned_less)
  then show ?thesis by simp
qed

lemma unat_u16_of_nat: "n < 65536 \<Longrightarrow> unat (of_nat n :: u16) = n"
  by (simp add: unsigned_of_nat take_bit_eq_mod)

lemma unat_ucast_32_64: "unat (ucast (x::u32) :: u64) = unat x"
proof -
  have "unat x < 2 ^ LENGTH(32)" by (rule unsigned_less)
  then have "unat x < 2 ^ 64" by simp
  then show ?thesis by (simp add: unsigned_ucast_eq take_bit_nat_eq_self)
qed

lemma byte_mask: "(0xff :: 'a::len word) = mask 8"
  by (simp add: mask_eq_exp_minus_1)

lemma or_is_add_if_disjoint:
  fixes a b :: "'a::len word"
  assumes "\<And>n. bit a n \<Longrightarrow> bit b n \<Longrightarrow> False"
  shows "a + b = a OR b"
proof -
  have "a AND b = 0"
    by (rule bit_eqI) (auto simp: bit_simps dest: assms)
  then show ?thesis by (rule disjunctive_add_eq_or)
qed

lemma chained_append_one:
  "chained f (xs @ [y]) \<longleftrightarrow> chained f xs \<and> (xs = [] \<or> y = f (last xs))"
  by (induction f xs rule: chained.induct) auto

lemma chained_tl: "chained f (x # xs) \<Longrightarrow> chained f xs"
  by (cases xs) auto

lemma chained_nth: "chained f xs \<Longrightarrow> k < length xs \<Longrightarrow> xs ! k = (f ^^ k) (hd xs)"
proof (induction k)
  case 0
  then show ?case by (simp add: hd_conv_nth)
next
  case (Suc k)
  have "chained f ys \<Longrightarrow> Suc n < length ys \<Longrightarrow> ys ! Suc n = f (ys ! n)" for ys n
    by (induction f ys arbitrary: n rule: chained.induct) (auto simp: less_Suc_eq_0_disj)
  then show ?case using Suc by simp
qed

lemma mod_shift_inj:
  fixes a j k m :: nat
  assumes "j < m" and "k < m" and "(a + j) mod m = (a + k) mod m"
  shows "j = k"
proof -
  have le: "y = x" if "x \<le> y" "y < m" "(a + x) mod m = (a + y) mod m" for x y
  proof -
    have "m dvd y - x"
      using that mod_eq_dvd_iff_nat [of "a + x" "a + y" m] by simp
    moreover have "y - x < m" using that by simp
    ultimately have "y - x = 0" using dvd_imp_le [of m "y - x"] by (cases "y - x") auto
    then show ?thesis using that(1) by simp
  qed
  show ?thesis
  proof (cases "j \<le> k")
    case True
    then show ?thesis using le [of j k] assms by simp
  next
    case False
    then show ?thesis using le [of k j] assms by simp
  qed
qed

lemma run_res_append:
  "run_res step (is @ js) s =
     res_bind (run_res step is s) (\<lambda>ss. res_map (\<lambda>ts. ss @ ts) (run_res step js (last (s # ss))))"
proof (induction "is" arbitrary: s)
  case Nil
  then show ?case by (cases "run_res step js s") simp_all
next
  case (Cons i "is")
  show ?case
  proof (cases "step i s")
    case (Inr s')
    then show ?thesis
      using Cons.IH [of s'] by (cases "run_res step is s'"; cases "run_res step js (last (s' # projr (run_res step is s')))") auto
  qed simp
qed

lemma run_res_invariant:
  assumes "run_res step is s = Inr ss" and "P s"
    and "\<And>i t t'. step i t = Inr t' \<Longrightarrow> P t \<Longrightarrow> P t'"
  shows "P (last (s # ss))"
  using assms(1,2)
proof (induction "is" arbitrary: s ss)
  case Nil
  then show ?case by simp
next
  case (Cons i "is")
  then obtain s' ss' where "step i s = Inr s'" "run_res step is s' = Inr ss'" "ss = s' # ss'"
    by auto
  then show ?case using Cons.IH [of s' ss'] assms(3) Cons.prems(2) by simp
qed

text \<open>A step that never faults on the states \<open>P\<close> and inputs \<open>Q\<close>, with an abstraction it commutes with.\<close>

lemma run_res_outcome:
  assumes keep: "\<And>i t t'. I t \<Longrightarrow> W i \<Longrightarrow> step i t = Inr t' \<Longrightarrow> I t'"
    and fault: "\<And>i t e. I t \<Longrightarrow> W i \<Longrightarrow> step i t = Inl e \<Longrightarrow> F e"
    and "I s" and "list_all W is"
  shows "case run_res step is s of Inl e \<Rightarrow> F e | Inr ss \<Rightarrow> list_all I ss"
  using assms(3,4)
proof (induction "is" arbitrary: s)
  case (Cons i "is")
  show ?case
  proof (cases "step i s")
    case (Inl e)
    then show ?thesis using fault [of s i e] Cons.prems by simp
  next
    case (Inr t)
    then have "I t" using keep [of s i t] Cons.prems by simp
    then show ?thesis using Cons.IH [of t] Cons.prems Inr by (cases "run_res step is t") simp_all
  qed
qed simp

lemma run_res_total:
  assumes step: "\<And>i s. P s \<Longrightarrow> Q i \<Longrightarrow> \<exists>s'. step i s = Inr s' \<and> P s' \<and> f s' = g i (f s)"
    and "P s" and "\<forall>i\<in>set is. Q i"
  shows "\<exists>ss. run_res step is s = Inr ss \<and> (\<forall>t\<in>set ss. P t) \<and> f (last (s # ss)) = fold g is (f s)"
  using assms(2,3)
proof (induction "is" arbitrary: s)
  case (Cons i "is")
  then obtain s1 where s1: "step i s = Inr s1" "P s1" "f s1 = g i (f s)" using step [of s i] by auto
  obtain ss where "run_res step is s1 = Inr ss" "\<forall>t\<in>set ss. P t" "f (last (s1 # ss)) = fold g is (f s1)"
    using Cons.IH [OF s1(2)] Cons.prems(2) by auto
  then show ?case using s1 by (intro exI [of _ "s1 # ss"]) simp
qed simp

end
