(* ===== verification/Params.thy ===== *)
theory Params
  imports Prelude
begin

text \<open>
  The constants of \<open>sim/l1d/params.hpp\<close>, \<open>sim/lsu_ut/params.hpp\<close> and of the two
  \<open>util.hpp\<close> files that the bench components use, the geometry of the data cache, and the bit layout of a load/store queue
  entry. The two \<open>params.hpp\<close> files differ in \<open>LDU_OP_WIDTH\<close> only, so the layout takes that
  width as an argument.
\<close>

section \<open>Addresses and queue sizes\<close>

definition XLEN :: nat where "XLEN = 64"
definition VIRTUAL_ADDR_LEN :: nat where "VIRTUAL_ADDR_LEN = 32"
definition PHYSICAL_ADDR_LEN :: nat where "PHYSICAL_ADDR_LEN = 39"

definition L1D_BANK_LINE_DATA_SIZE :: nat where "L1D_BANK_LINE_DATA_SIZE = 512"
definition L1D_BANK_SET_NUM :: nat where "L1D_BANK_SET_NUM = 8"
definition L1D_BANK_WAY_NUM :: nat where "L1D_BANK_WAY_NUM = 4"
definition L1D_BANK_ID_NUM :: nat where "L1D_BANK_ID_NUM = 8"
definition L1D_STB_ENTRY_NUM :: nat where "L1D_STB_ENTRY_NUM = 8"

definition L1D_INDEX_WIDTH :: nat where "L1D_INDEX_WIDTH = 6"
definition L1D_OFFSET_WIDTH :: nat where "L1D_OFFSET_WIDTH = 6"
definition L1D_BIT_OFFSET_WIDTH :: nat where "L1D_BIT_OFFSET_WIDTH = 9"
definition L1D_TAG_WIDTH :: nat where
  "L1D_TAG_WIDTH = PHYSICAL_ADDR_LEN - L1D_INDEX_WIDTH - L1D_OFFSET_WIDTH"

definition ADDR_OFFSET_LEN :: nat where "ADDR_OFFSET_LEN = L1D_OFFSET_WIDTH"
definition ADDR_OFFSET_LOW :: nat where "ADDR_OFFSET_LOW = 0"
definition ADDR_OFFSET_UPP :: nat where "ADDR_OFFSET_UPP = ADDR_OFFSET_LOW + ADDR_OFFSET_LEN"

definition ADDR_INDEX_LEN :: nat where "ADDR_INDEX_LEN = L1D_INDEX_WIDTH"
definition ADDR_INDEX_LOW :: nat where "ADDR_INDEX_LOW = ADDR_OFFSET_UPP"
definition ADDR_INDEX_UPP :: nat where "ADDR_INDEX_UPP = ADDR_INDEX_LOW + ADDR_INDEX_LEN"

definition PHYSICAL_ADDR_TAG_LEN :: nat where
  "PHYSICAL_ADDR_TAG_LEN = PHYSICAL_ADDR_LEN - ADDR_INDEX_LEN - ADDR_OFFSET_LEN"

definition VIRTUAL_ADDR_TAG_LEN :: nat where
  "VIRTUAL_ADDR_TAG_LEN = VIRTUAL_ADDR_LEN - ADDR_INDEX_LEN - ADDR_OFFSET_LEN"

definition PHYSICAL_ADDR_TAG_LOW :: nat where "PHYSICAL_ADDR_TAG_LOW = ADDR_INDEX_UPP"
definition PHYSICAL_ADDR_TAG_UPP :: nat where "PHYSICAL_ADDR_TAG_UPP = PHYSICAL_ADDR_LEN"
definition VIRTUAL_ADDR_TAG_LOW :: nat where "VIRTUAL_ADDR_TAG_LOW = ADDR_INDEX_UPP"
definition VIRTUAL_ADDR_TAG_UPP :: nat where "VIRTUAL_ADDR_TAG_UPP = VIRTUAL_ADDR_LEN"

definition ROB_SIZE :: nat where "ROB_SIZE = 16"
definition ROB_SIZE_WIDTH :: nat where "ROB_SIZE_WIDTH = 4"
definition PHY_REG_ADDR_WIDTH :: nat where "PHY_REG_ADDR_WIDTH = 6"
definition LSQ_DEPTH :: nat where "LSQ_DEPTH = 8"
definition IO_ADDR_UPP :: u64 where "IO_ADDR_UPP = 0x1000"
definition IO_ADDR_LOW :: u64 where "IO_ADDR_LOW = 0x1004"

definition RCU_MAX_SIZE :: nat where "RCU_MAX_SIZE = ROB_SIZE"
definition MAX_CACHE_SIZE :: nat where "MAX_CACHE_SIZE = 16"
definition BUS_BASE_DELAY :: nat where "BUS_BASE_DELAY = 10"
definition BUS_MAX_DELAY :: nat where "BUS_MAX_DELAY = 30"
definition TLB_HIT_BASE_DELAY :: nat where "TLB_HIT_BASE_DELAY = 1"
definition TLB_MISS_BASE_DELAY :: nat where "TLB_MISS_BASE_DELAY = 30"
definition CACHE_HIT_BASE_DELAY :: nat where "CACHE_HIT_BASE_DELAY = 3"
definition CACHE_MISS_BASE_DELAY :: nat where "CACHE_MISS_BASE_DELAY = 5"
definition CACHE_MISS_MAX_DELAY :: nat where "CACHE_MISS_MAX_DELAY = 30"
definition RCU_MAX_DELAY :: nat where "RCU_MAX_DELAY = 10"
definition RCU_BASE_DELAY :: nat where "RCU_BASE_DELAY = 1"
definition MEM_CHEKCPOINT :: nat where "MEM_CHEKCPOINT = 100"
definition WAKEUP_BASE_DELAY :: nat where "WAKEUP_BASE_DELAY = 1"
definition WAKEUP_MAX_DELAY :: nat where "WAKEUP_MAX_DELAY = 5"

lemmas size_params =
  ROB_SIZE_def RCU_MAX_SIZE_def MAX_CACHE_SIZE_def LSQ_DEPTH_def

lemmas delay_params =
  BUS_BASE_DELAY_def BUS_MAX_DELAY_def TLB_MISS_BASE_DELAY_def CACHE_HIT_BASE_DELAY_def
  CACHE_MISS_BASE_DELAY_def CACHE_MISS_MAX_DELAY_def WAKEUP_BASE_DELAY_def WAKEUP_MAX_DELAY_def

section \<open>Operation codes\<close>

definition LDU_LB :: u8 where "LDU_LB = 0"
definition LDU_LH :: u8 where "LDU_LH = 1"
definition LDU_LW :: u8 where "LDU_LW = 2"
definition LDU_LD :: u8 where "LDU_LD = 3"
definition LDU_LBU :: u8 where "LDU_LBU = 4"
definition LDU_LHU :: u8 where "LDU_LHU = 5"
definition LDU_LWU :: u8 where "LDU_LWU = 6"

definition STU_SB :: u8 where "STU_SB = 0"
definition STU_SH :: u8 where "STU_SH = 1"
definition STU_SW :: u8 where "STU_SW = 2"
definition STU_SD :: u8 where "STU_SD = 3"

lemmas ldu_ops = LDU_LB_def LDU_LH_def LDU_LW_def LDU_LD_def LDU_LBU_def LDU_LHU_def LDU_LWU_def
lemmas stu_ops = STU_SB_def STU_SH_def STU_SW_def STU_SD_def

section \<open>The load/store queue entry\<close>

text \<open>
  A field is its name, its declared width, and the bounds of the half-open bit range
  \<open>[LOW, UPP)\<close> that the constants give it.
\<close>

record lsq_field =
  f_name :: string
  f_width :: nat
  f_low :: nat
  f_upp :: nat

definition STU_OP_WIDTH :: nat where "STU_OP_WIDTH = 5"

definition LS_OPCODE_WIDTH :: "nat \<Rightarrow> nat" where
  "LS_OPCODE_WIDTH ldu_op_width =
     (if ldu_op_width > STU_OP_WIDTH then ldu_op_width else STU_OP_WIDTH)"

definition LSQ_ENTRY_TAG_WIDTH :: nat where
  "LSQ_ENTRY_TAG_WIDTH =
     (if VIRTUAL_ADDR_TAG_LEN > PHYSICAL_ADDR_TAG_LEN then VIRTUAL_ADDR_TAG_LEN
      else PHYSICAL_ADDR_TAG_LEN)"

definition mk_field :: "string \<Rightarrow> nat \<Rightarrow> nat \<Rightarrow> lsq_field" where
  "mk_field n w low = \<lparr>f_name = n, f_width = w, f_low = low, f_upp = low + w\<rparr>"

definition lsq_layout :: "nat \<Rightarrow> lsq_field list" where
  "lsq_layout ldu_op_width =
    (let vld = mk_field ''VLD'' 1 0;
         ls = mk_field ''LS'' 1 (f_upp vld);
         opcode = \<lparr>f_name = ''OPCODE'', f_width = LS_OPCODE_WIDTH ldu_op_width,
                   f_low = f_upp ls, f_upp = f_upp vld + LS_OPCODE_WIDTH ldu_op_width\<rparr>;
         fenced = mk_field ''FENCED'' 1 (f_upp opcode);
         tag = mk_field ''TAG'' LSQ_ENTRY_TAG_WIDTH (f_upp fenced);
         idx = mk_field ''INDEX'' ADDR_INDEX_LEN (f_upp tag);
         offset = mk_field ''OFFSET'' ADDR_OFFSET_LEN (f_upp idx);
         rob = mk_field ''ROB_INDEX'' ROB_SIZE_WIDTH (f_upp offset);
         virt = mk_field ''VIRT'' 1 (f_upp rob);
         awake = mk_field ''AWAKE'' 1 (f_upp virt);
         exec = mk_field ''EXEC'' 1 (f_upp awake);
         succ = mk_field ''SUCC'' 1 (f_upp exec);
         rd = mk_field ''RD_ADDR'' PHY_REG_ADDR_WIDTH (f_upp succ);
         dat = mk_field ''DATA'' XLEN (f_upp rd)
     in [vld, ls, opcode, fenced, tag, idx, offset, rob, virt, awake, exec, succ, rd, dat])"

definition LSQ_ENTRY_WIDTH :: "nat \<Rightarrow> nat" where
  "LSQ_ENTRY_WIDTH ldu_op_width =
     1 + LS_OPCODE_WIDTH ldu_op_width + 1 + LSQ_ENTRY_TAG_WIDTH + ADDR_INDEX_LEN +
     ADDR_OFFSET_LEN + ROB_SIZE_WIDTH + 1 + 1 + 1 + 1 + PHY_REG_ADDR_WIDTH + XLEN"

definition l1d_lsq_layout :: "lsq_field list" where
  "l1d_lsq_layout = lsq_layout 3"

definition lsu_lsq_layout :: "lsq_field list" where
  "lsu_lsq_layout = lsq_layout 4"

text \<open>Adjacent fields meet: each field starts where the one before it ends.\<close>

fun contiguous :: "lsq_field list \<Rightarrow> bool" where
  "contiguous (x # y # zs) = (f_low y = f_upp x \<and> contiguous (y # zs))"
| "contiguous _ = True"

lemmas width_params =
  LS_OPCODE_WIDTH_def STU_OP_WIDTH_def LSQ_ENTRY_TAG_WIDTH_def
  VIRTUAL_ADDR_TAG_LEN_def PHYSICAL_ADDR_TAG_LEN_def VIRTUAL_ADDR_LEN_def PHYSICAL_ADDR_LEN_def
  ADDR_INDEX_LEN_def ADDR_OFFSET_LEN_def L1D_INDEX_WIDTH_def L1D_OFFSET_WIDTH_def ROB_SIZE_WIDTH_def PHY_REG_ADDR_WIDTH_def XLEN_def

lemma mk_field_simps [simp]:
  "f_width (mk_field n w low) = w" "f_low (mk_field n w low) = low"
  "f_upp (mk_field n w low) = low + w" "f_name (mk_field n w low) = n"
  by (simp_all add: mk_field_def)

lemma lsq_layout_same: "lsu_lsq_layout = l1d_lsq_layout"
proof -
  have "LS_OPCODE_WIDTH 4 = LS_OPCODE_WIDTH 3"
    by (simp add: LS_OPCODE_WIDTH_def STU_OP_WIDTH_def)
  then show ?thesis
    by (simp only: lsu_lsq_layout_def l1d_lsq_layout_def lsq_layout_def)
qed

section \<open>Properties\<close>

text \<open>
  The queue entry of either bench: its fields meet without gap or overlap and end at the
  declared entry width, every field but the opcode spans its declared width, and the opcode,
  declared five bits wide, gets the four bits \<open>[2, 6)\<close>, because its upper bound is computed from
  the end of the valid bit; the entry width leaves out the load/store bit as well.
\<close>

theorem lsq_entry_layout:
  "contiguous l1d_lsq_layout \<and> lsu_lsq_layout = l1d_lsq_layout \<and>
   f_upp (last l1d_lsq_layout) = LSQ_ENTRY_WIDTH 3 \<and>
   filter (\<lambda>f. f_upp f - f_low f \<noteq> f_width f) l1d_lsq_layout =
     [\<lparr>f_name = ''OPCODE'', f_width = 5, f_low = 2, f_upp = 6\<rparr>] \<and>
   sum_list (map f_width l1d_lsq_layout) = LSQ_ENTRY_WIDTH 3 + 1"
  by (intro conjI lsq_layout_same)
    (simp_all add: l1d_lsq_layout_def lsq_layout_def LSQ_ENTRY_WIDTH_def width_params Let_def)

end
