(* ===== verification/Fifo_Station.thy ===== *)
theory Fifo_Station
  imports Prelude
begin

text \<open>
  The contract of a component that holds requests in order: whatever it held and takes in, it
  either hands out, oldest first, or still holds. The laws speak of one step; the lemmas carry
  them to whole runs.
\<close>

locale fifo_station =
  fixes step :: "'i \<Rightarrow> 's \<Rightarrow> 's res"
    and held :: "'s \<Rightarrow> 'k list"
    and takes :: "'i \<Rightarrow> 's \<Rightarrow> 'k list"
    and gives :: "'s \<Rightarrow> 'k list"
  assumes step_order: "step i s = Inr s' \<Longrightarrow> held s @ takes i s = gives s' @ held s'"
begin

lemma run_order:
  "run_res step is s = Inr ss \<Longrightarrow>
   held s @ taken takes is (s # ss) = concat (map gives ss) @ held (last (s # ss))"
proof (induction "is" arbitrary: s ss)
  case Nil
  then show ?case by simp
next
  case (Cons i "is")
  then obtain s' ss' where s': "step i s = Inr s'" "run_res step is s' = Inr ss'" "ss = s' # ss'"
    by auto
  have "held s @ taken takes (i # is) (s # ss) = (held s @ takes i s) @ taken takes is (s' # ss')"
    using s' by simp
  also have "\<dots> = gives s' @ held s' @ taken takes is (s' # ss')"
    using step_order [OF s'(1)] by simp
  finally show ?case using Cons.IH [OF s'(2)] s'(3) by simp
qed

end

text \<open>A station with a bounded number of places.\<close>

locale bounded_station = fifo_station +
  fixes capacity :: nat
  assumes step_capacity: "step i s = Inr s' \<Longrightarrow> length (held s) \<le> capacity \<Longrightarrow>
      length (held s') \<le> capacity"
begin

lemma run_capacity:
  "run_res step is s = Inr ss \<Longrightarrow> length (held s) \<le> capacity \<Longrightarrow>
   length (held (last (s # ss))) \<le> capacity"
proof (induction "is" arbitrary: s ss)
  case Nil
  then show ?case by simp
next
  case (Cons i "is")
  then obtain s' ss' where s': "step i s = Inr s'" "run_res step is s' = Inr ss'" "ss = s' # ss'"
    by auto
  show ?case
    using Cons.IH [OF s'(2) step_capacity [OF s'(1) Cons.prems(2)]] s'(3) by simp
qed

text \<open>
  From an empty start, what is handed out is an initial part of what came in, and at most
  \<open>capacity\<close> requests are missing from it.
\<close>

lemma run_prefix:
  assumes "run_res step is s = Inr ss" and "held s = []"
  shows "\<exists>rest. taken takes is (s # ss) = concat (map gives ss) @ rest \<and> length rest \<le> capacity"
  using run_order [OF assms(1)] run_capacity [OF assms(1)] assms(2) by auto

end

end
