(* ===== verification/Rcu.thy ===== *)
theory Rcu
  imports Params Fifo_Station
begin

text \<open>
  The model of the reorder buffer, \<open>FakeRCU\<close>. The benches of the load/store unit
  (\<open>sim/lsu_ut/fake_rcu.cpp\<close>) and of the L1 data cache (\<open>sim/l1d/fake_rcu.cpp\<close>) hold the same
  class in two versions. They differ in how a new entry gets its reorder-buffer index and in
  whether the commit stage tests the queue for emptiness; the other stages are textually the
  same and are shared here. Log output is not modelled.
\<close>

section \<open>Requests\<close>

text \<open>
  \<open>CacheLine\<close> and \<open>BusEntry\<close> of \<open>sim/lsu_ut/util.hpp\<close> have the eight fields of
  \<open>cache_line\<close>; \<open>RCUEntry\<close> there and \<open>Req\<close> of \<open>sim/l1d/util.hpp\<close> add the three flags.
\<close>

record cache_line =
  paddr :: u64
  data :: u64
  rob_index :: u8
  rd_addr :: u8
  delay :: u16
  is_fenced :: bool
  load_or_store :: bool
  opcode :: u8

record req = cache_line +
  awake :: bool
  issued :: bool
  req_done :: bool

definition mk_line ::
    "u64 \<Rightarrow> u64 \<Rightarrow> u8 \<Rightarrow> u8 \<Rightarrow> u16 \<Rightarrow> bool \<Rightarrow> bool \<Rightarrow> u8 \<Rightarrow> cache_line" where
  "mk_line pa d ri rd de fence ls op =
     \<lparr>paddr = pa, data = d, rob_index = ri, rd_addr = rd, delay = de, is_fenced = fence,
      load_or_store = ls, opcode = op\<rparr>"

definition mk_req :: "u64 \<Rightarrow> u64 \<Rightarrow> u8 \<Rightarrow> u8 \<Rightarrow> u16 \<Rightarrow> bool \<Rightarrow> bool \<Rightarrow> u8 \<Rightarrow> req" where
  "mk_req pa d ri rd de fence ls op =
     \<lparr>paddr = pa, data = d, rob_index = ri, rd_addr = rd, delay = de, is_fenced = fence,
      load_or_store = ls, opcode = op, awake = False, issued = False, req_done = False\<rparr>"

abbreviation line0 :: cache_line where
  "line0 \<equiv> mk_line 0 0 0 0 0 False False 0"

abbreviation req0 :: req where
  "req0 \<equiv> mk_req 0 0 0 0 0 False False 0"

section \<open>State\<close>

record rcu =
  rcu_q :: "req list"
  lsu_req_vld :: bool
  lsu_req :: req
  lsu_resp_vld :: bool
  lsu_resp :: cache_line
  new_req_vld :: bool
  new_req :: req
  new_comm_vld :: bool
  new_comm :: req
  wake_up_vld :: bool
  wake_up_rob_index :: u16
  lsu_rdy :: bool

definition rcu_init :: rcu where
  "rcu_init =
     \<lparr>rcu_q = [], lsu_req_vld = False, lsu_req = req0, lsu_resp_vld = False, lsu_resp = line0,
      new_req_vld = False, new_req = req0, new_comm_vld = False, new_comm = req0,
      wake_up_vld = False, wake_up_rob_index = 0, lsu_rdy = False\<rparr>"

definition rcu_rdy :: "rcu \<Rightarrow> bool" where
  "rcu_rdy s = (length (rcu_q s) < RCU_MAX_SIZE)"

text \<open>The setters that a bench calls before an evaluation, as one input of a step.\<close>

record rcu_in =
  in_lsu_rdy :: bool
  in_resp_vld :: bool
  in_resp :: cache_line
  in_req_vld :: bool
  in_req :: req

definition rcu_set :: "rcu_in \<Rightarrow> rcu \<Rightarrow> rcu" where
  "rcu_set i s =
     s\<lparr>lsu_rdy := in_lsu_rdy i, lsu_resp_vld := in_resp_vld i, lsu_resp := in_resp i,
       new_req_vld := in_req_vld i, new_req := in_req i\<rparr>"

section \<open>The stages of an evaluation\<close>

definition rcu_handshake :: "rcu \<Rightarrow> rcu" where
  "rcu_handshake s =
     (if lsu_rdy s then
        (let s1 = s\<lparr>lsu_rdy := False\<rparr> in
         if lsu_req_vld s1 then
           s1\<lparr>lsu_req_vld := False,
              rcu_q := update_first (\<lambda>r. rob_index r = rob_index (lsu_req s1))
                                    (\<lambda>r. r\<lparr>issued := True\<rparr>) (rcu_q s1)\<rparr>
         else s1)
      else s)"

text \<open>The cache bench numbers entries \<open>0, 1, \<dots>, 15, 0, \<dots>\<close>, starting at 0 on an empty queue.\<close>

definition l1d_next_index :: "req list \<Rightarrow> u8" where
  "l1d_next_index q =
     (if q \<noteq> [] then of_nat ((unat (rob_index (last q)) + 1) mod RCU_MAX_SIZE) else 0)"

text \<open>The load/store unit bench skips index 0.\<close>

definition lsu_next_index :: "req list \<Rightarrow> u8" where
  "lsu_next_index q =
     (if q \<noteq> [] then
        (let i = of_nat ((unat (rob_index (last q)) + 1) mod RCU_MAX_SIZE) in
         if i = 0 then i + 1 else i)
      else 1)"

definition rcu_enque :: "(req list \<Rightarrow> u8) \<Rightarrow> rcu \<Rightarrow> rcu" where
  "rcu_enque next_index s =
     (if new_req_vld s \<and> length (rcu_q s) < RCU_MAX_SIZE then
        (let r = (new_req s)\<lparr>rob_index := next_index (rcu_q s)\<rparr> in
         s\<lparr>new_req_vld := False, new_req := r, rcu_q := rcu_q s @ [r]\<rparr>)
      else s)"

definition rcu_take_resp :: "rcu \<Rightarrow> rcu" where
  "rcu_take_resp s =
     (if lsu_resp_vld s then
        s\<lparr>lsu_resp_vld := False,
          rcu_q := update_first (\<lambda>r. rob_index r = rob_index (lsu_resp s))
            (\<lambda>r. r\<lparr>rd_addr := rd_addr (lsu_resp s),
                   data := (if rd_addr (lsu_resp s) \<noteq> 0 then data (lsu_resp s) else data r),
                   req_done := True\<rparr>) (rcu_q s)\<rparr>
      else s)"

fun wake_loop :: "bool \<Rightarrow> u16 \<Rightarrow> req list \<Rightarrow> bool \<times> u16 \<times> req list" where
  "wake_loop vld idx [] = (vld, idx, [])"
| "wake_loop vld idx (r # rs) =
     (if delay r = 0 then
        (if \<not> vld \<and> \<not> awake r then
           (let (v, i, rs') = wake_loop True (ucast (rob_index r)) rs in
            (v, i, r\<lparr>awake := True\<rparr> # rs'))
         else (let (v, i, rs') = wake_loop vld idx rs in (v, i, r # rs')))
      else (let (v, i, rs') = wake_loop vld idx rs in
            (v, i, (if issued r then r\<lparr>delay := delay r - 1\<rparr> else r) # rs')))"

definition rcu_wake_up :: "rcu \<Rightarrow> rcu" where
  "rcu_wake_up s =
     (let (v, i, q) = wake_loop False (wake_up_rob_index s) (rcu_q s) in
      s\<lparr>wake_up_vld := v, wake_up_rob_index := i, rcu_q := q\<rparr>)"

definition rcu_issue :: "rcu \<Rightarrow> rcu" where
  "rcu_issue s =
     (if \<not> lsu_req_vld s then
        (case find (\<lambda>r. \<not> issued r) (rcu_q s) of
           None \<Rightarrow> s
         | Some r \<Rightarrow> s\<lparr>lsu_req_vld := True, lsu_req := r\<rparr>)
      else s)"

definition retirable :: "req \<Rightarrow> bool" where
  "retirable r = (issued r \<and> req_done r \<and> awake r)"

definition l1d_commit :: "rcu \<Rightarrow> rcu" where
  "l1d_commit s =
     (case rcu_q s of
        [] \<Rightarrow> s\<lparr>new_comm_vld := False\<rparr>
      | r # rs \<Rightarrow>
          if retirable r then s\<lparr>new_comm_vld := True, new_comm := r, rcu_q := rs\<rparr>
          else s\<lparr>new_comm_vld := False\<rparr>)"

text \<open>
  The load/store unit bench reads \<open>_rcu->front()\<close> without testing for emptiness. What an
  empty \<open>std::list\<close> yields there is the argument \<open>stale\<close>; if it looks like a retirable entry,
  the code pops an empty list.
\<close>

definition lsu_commit :: "req \<Rightarrow> rcu \<Rightarrow> rcu res" where
  "lsu_commit stale s =
     (case rcu_q s of
        [] \<Rightarrow> if retirable stale then Inl (Undefined ''pop_front of an empty list'')
              else Inr (s\<lparr>new_comm_vld := False\<rparr>)
      | r # rs \<Rightarrow>
          if retirable r then Inr (s\<lparr>new_comm_vld := True, new_comm := r, rcu_q := rs\<rparr>)
          else Inr (s\<lparr>new_comm_vld := False\<rparr>))"

definition rcu_front_stages :: "(req list \<Rightarrow> u8) \<Rightarrow> rcu \<Rightarrow> rcu" where
  "rcu_front_stages next_index s =
     rcu_issue (rcu_wake_up (rcu_take_resp (rcu_enque next_index (rcu_handshake s))))"

definition l1d_rcu_eval :: "rcu \<Rightarrow> rcu" where
  "l1d_rcu_eval s = l1d_commit (rcu_front_stages l1d_next_index s)"

definition lsu_rcu_eval :: "req \<Rightarrow> rcu \<Rightarrow> rcu res" where
  "lsu_rcu_eval stale s = lsu_commit stale (rcu_front_stages lsu_next_index s)"

section \<open>First in, first out\<close>

text \<open>The part of an entry that no stage changes.\<close>

type_synonym req_key = "u64 \<times> bool \<times> u8 \<times> bool"

definition req_key :: "req \<Rightarrow> req_key" where
  "req_key r = (paddr r, load_or_store r, opcode r, is_fenced r)"

definition rcu_held :: "rcu \<Rightarrow> req_key list" where
  "rcu_held s = map req_key (rcu_q s)"

definition rcu_accepts :: "rcu_in \<Rightarrow> rcu \<Rightarrow> req_key list" where
  "rcu_accepts i s = (if in_req_vld i \<and> rcu_rdy s then [req_key (in_req i)] else [])"

definition rcu_committed :: "rcu \<Rightarrow> req_key list" where
  "rcu_committed s = (if new_comm_vld s then [req_key (new_comm s)] else [])"

definition l1d_rcu_step :: "rcu_in \<Rightarrow> rcu \<Rightarrow> rcu res" where
  "l1d_rcu_step i s = Inr (l1d_rcu_eval (rcu_set i s))"

definition lsu_rcu_step :: "req \<Rightarrow> rcu_in \<Rightarrow> rcu \<Rightarrow> rcu res" where
  "lsu_rcu_step stale i s = lsu_rcu_eval stale (rcu_set i s)"

lemma req_key_updates [simp]:
  "req_key (r\<lparr>issued := b\<rparr>) = req_key r" "req_key (r\<lparr>awake := b\<rparr>) = req_key r"
  "req_key (r\<lparr>delay := d\<rparr>) = req_key r" "req_key (r\<lparr>rob_index := i\<rparr>) = req_key r"
  "req_key (r\<lparr>rd_addr := a, data := x, req_done := b\<rparr>) = req_key r"
  by (simp_all add: req_key_def)

text \<open>The stages before the commit keep every key and every index; one of them appends.\<close>

lemma wake_loop_map:
  assumes "\<And>r b. g (r\<lparr>awake := b\<rparr>) = g r" and "\<And>r d. g (r\<lparr>delay := d\<rparr>) = g r"
  shows "wake_loop v i q = (v', i', q') \<Longrightarrow> map g q' = map g q"
  by (induction q arbitrary: v i v' i' q')
    (auto simp: assms Let_def split: if_splits prod.splits)

lemma map_front_stages:
  assumes "\<And>r b. g (r\<lparr>awake := b\<rparr>) = g r" and "\<And>r d. g (r\<lparr>delay := d\<rparr>) = g r"
    and "\<And>r b. g (r\<lparr>issued := b\<rparr>) = g r"
    and "\<And>r a x b. g (r\<lparr>rd_addr := a, data := x, req_done := b\<rparr>) = g r"
  shows "map g (rcu_q (rcu_front_stages nxt s)) =
     map g (rcu_q s) @
     (if new_req_vld s \<and> rcu_rdy s
      then [g ((new_req s)\<lparr>rob_index := nxt (rcu_q (rcu_handshake s))\<rparr>)] else [])"
proof -
  have wake: "map g (rcu_q (rcu_wake_up t)) = map g (rcu_q t)" for t
    using wake_loop_map [of g, OF assms(1,2)]
    by (simp add: rcu_wake_up_def split: prod.splits)
  have issue: "rcu_q (rcu_issue t) = rcu_q t" for t
    by (simp add: rcu_issue_def split: option.splits)
  have resp: "map g (rcu_q (rcu_take_resp t)) = map g (rcu_q t)" for t
    by (simp add: rcu_take_resp_def assms(4))
  have shake: "map g (rcu_q (rcu_handshake t)) = map g (rcu_q t)"
    "length (rcu_q (rcu_handshake t)) = length (rcu_q t)"
    "new_req_vld (rcu_handshake t) = new_req_vld t" "new_req (rcu_handshake t) = new_req t" for t
    by (simp_all add: rcu_handshake_def Let_def assms(3))
  have "map g (rcu_q (rcu_enque nxt t)) = map g (rcu_q t) @
     (if new_req_vld t \<and> rcu_rdy t then [g ((new_req t)\<lparr>rob_index := nxt (rcu_q t)\<rparr>)] else [])" for t
    by (simp add: rcu_enque_def rcu_rdy_def Let_def)
  then show ?thesis
    by (simp add: rcu_front_stages_def issue wake resp shake rcu_rdy_def)
qed

lemma front_stages_held:
  "rcu_held (rcu_front_stages nxt (rcu_set i s)) = rcu_held s @ rcu_accepts i s"
  by (simp add: rcu_held_def rcu_accepts_def map_front_stages [where g = req_key])
     (simp add: rcu_set_def rcu_rdy_def)

lemma l1d_commit_order:
  "rcu_held t = rcu_committed (l1d_commit t) @ rcu_held (l1d_commit t)"
  by (simp add: l1d_commit_def rcu_held_def rcu_committed_def split: list.splits)

lemma lsu_commit_order:
  "lsu_commit stale t = Inr s' \<Longrightarrow> rcu_held t = rcu_committed s' @ rcu_held s'"
  by (auto simp: lsu_commit_def rcu_held_def rcu_committed_def split: list.splits if_splits)

lemma accepts_capacity:
  "length (rcu_held s) \<le> RCU_MAX_SIZE \<Longrightarrow> length (rcu_held s @ rcu_accepts i s) \<le> RCU_MAX_SIZE"
  by (auto simp: rcu_accepts_def rcu_held_def rcu_rdy_def)

interpretation l1d_station:
  bounded_station l1d_rcu_step rcu_held rcu_accepts rcu_committed RCU_MAX_SIZE
proof
  show order: "l1d_rcu_step i s = Inr s' \<Longrightarrow> rcu_held s @ rcu_accepts i s = rcu_committed s' @ rcu_held s'"
    for i s s'
    using front_stages_held [of l1d_next_index i s]
      l1d_commit_order [of "rcu_front_stages l1d_next_index (rcu_set i s)"]
    by (auto simp: l1d_rcu_step_def l1d_rcu_eval_def)
  show "l1d_rcu_step i s = Inr s' \<Longrightarrow> length (rcu_held s) \<le> RCU_MAX_SIZE \<Longrightarrow>
     length (rcu_held s') \<le> RCU_MAX_SIZE" for i s s'
    using accepts_capacity [of s i] order [of i s s'] by simp
qed

interpretation lsu_station:
  bounded_station "lsu_rcu_step stale" rcu_held rcu_accepts rcu_committed RCU_MAX_SIZE
proof
  show order: "lsu_rcu_step stale i s = Inr s' \<Longrightarrow>
     rcu_held s @ rcu_accepts i s = rcu_committed s' @ rcu_held s'" for i s s'
    using front_stages_held [of lsu_next_index i s]
      lsu_commit_order [of stale "rcu_front_stages lsu_next_index (rcu_set i s)" s']
    by (simp add: lsu_rcu_step_def lsu_rcu_eval_def)
  show "lsu_rcu_step stale i s = Inr s' \<Longrightarrow> length (rcu_held s) \<le> RCU_MAX_SIZE \<Longrightarrow>
     length (rcu_held s') \<le> RCU_MAX_SIZE" for i s s'
    using accepts_capacity [of s i] order [of i s s'] by simp
qed

section \<open>Reorder-buffer indices\<close>

definition rob_indices :: "rcu \<Rightarrow> nat list" where
  "rob_indices s = map (\<lambda>r. unat (rob_index r)) (rcu_q s)"

definition ring_inv :: "(nat \<Rightarrow> nat) \<Rightarrow> nat set \<Rightarrow> rcu \<Rightarrow> bool" where
  "ring_inv nx R s \<longleftrightarrow>
     chained nx (rob_indices s) \<and> set (rob_indices s) \<subseteq> R \<and> length (rcu_q s) \<le> RCU_MAX_SIZE"

lemma ring_inv_tl:
  "ring_inv nx R s \<Longrightarrow> rcu_q s = r # rs \<Longrightarrow> rcu_q s' = rs \<Longrightarrow> ring_inv nx R s'"
  by (auto simp: ring_inv_def rob_indices_def dest: chained_tl)

lemma ring_inv_same: "ring_inv nx R s \<Longrightarrow> rcu_q s' = rcu_q s \<Longrightarrow> ring_inv nx R s'"
  by (simp add: ring_inv_def rob_indices_def)

lemma ring_inv_init: "ring_inv nx R rcu_init"
  by (simp add: ring_inv_def rob_indices_def rcu_init_def)

lemma indices_handshake: "rob_indices (rcu_handshake s) = rob_indices s"
  by (simp add: rob_indices_def rcu_handshake_def Let_def)

lemma indices_front_stages:
  "rob_indices (rcu_front_stages nxt s) =
     rob_indices s @ (if new_req_vld s \<and> rcu_rdy s then [unat (nxt (rcu_q (rcu_handshake s)))] else [])"
  by (simp add: rob_indices_def map_front_stages [where g = "\<lambda>r. unat (rob_index r)"])

text \<open>One evaluation up to the commit keeps the ring when the numbering function follows it.\<close>

lemma ring_inv_front:
  assumes nxt: "\<And>q. q \<noteq> [] \<Longrightarrow> unat (nxt q) = nx (unat (rob_index (last q)))"
    and start: "unat (nxt []) \<in> R" and ring: "\<And>x. x \<in> R \<Longrightarrow> nx x \<in> R"
    and inv: "ring_inv nx R s"
  shows "ring_inv nx R (rcu_front_stages nxt s)"
proof -
  let ?q = "rcu_q (rcu_handshake s)"
  have q: "rob_indices s = map (\<lambda>r. unat (rob_index r)) ?q"
    using indices_handshake [of s] by (simp add: rob_indices_def)
  have new: "unat (nxt ?q) = nx (last (rob_indices s)) \<and> nx (last (rob_indices s)) \<in> R"
    if "rob_indices s \<noteq> []"
  proof -
    have "last (rob_indices s) \<in> R"
      using that inv last_in_set [of "rob_indices s"] by (auto simp: ring_inv_def)
    then show ?thesis
      using that nxt [of ?q] ring [of "last (rob_indices s)"] by (auto simp: q last_map)
  qed
  have "length (rcu_q (rcu_front_stages nxt s)) = length (rob_indices (rcu_front_stages nxt s))"
    by (simp add: rob_indices_def)
  also have "\<dots> = length (rob_indices s) + (if new_req_vld s \<and> rcu_rdy s then 1 else 0)"
    by (simp add: indices_front_stages)
  also have "\<dots> \<le> RCU_MAX_SIZE"
    using inv by (auto simp: ring_inv_def rob_indices_def rcu_rdy_def)
  finally have len: "length (rcu_q (rcu_front_stages nxt s)) \<le> RCU_MAX_SIZE" .
  have "unat (nxt ?q) \<in> R"
    using new start q by (cases "?q = []") simp_all
  then show ?thesis
    using inv new len by (auto simp: ring_inv_def indices_front_stages chained_append_one)
qed

lemma ring_inv_set: "ring_inv nx R s \<Longrightarrow> ring_inv nx R (rcu_set i s)"
  by (rule ring_inv_same) (simp_all add: rcu_set_def)

lemma ring_inv_l1d_commit: "ring_inv nx R t \<Longrightarrow> ring_inv nx R (l1d_commit t)"
  by (auto simp: l1d_commit_def split: list.splits intro: ring_inv_tl ring_inv_same)

lemma ring_inv_lsu_commit:
  "lsu_commit stale t = Inr s' \<Longrightarrow> ring_inv nx R t \<Longrightarrow> ring_inv nx R s'"
  by (auto simp: lsu_commit_def split: list.splits if_splits intro: ring_inv_tl ring_inv_same)

subsection \<open>The cache bench: 16 indices\<close>

definition l1d_ring :: "nat \<Rightarrow> nat" where "l1d_ring i = (i + 1) mod 16"

lemma l1d_ring_pow: "i < 16 \<Longrightarrow> (l1d_ring ^^ k) i = (i + k) mod 16"
  by (induction k) (auto simp: l1d_ring_def mod_Suc_eq)

lemma l1d_ring_step: "l1d_rcu_step i s = Inr s' \<Longrightarrow> ring_inv l1d_ring {..<16} s \<Longrightarrow>
  ring_inv l1d_ring {..<16} s'"
proof -
  assume s': "l1d_rcu_step i s = Inr s'" and inv: "ring_inv l1d_ring {..<16} s"
  have "ring_inv l1d_ring {..<16} (rcu_front_stages l1d_next_index (rcu_set i s))"
  proof (rule ring_inv_front)
    show "unat (l1d_next_index q) = l1d_ring (unat (rob_index (last q)))" if "q \<noteq> []" for q
      using that by (simp add: l1d_next_index_def l1d_ring_def size_params unsigned_of_nat take_bit_eq_mod)
  qed (use inv in \<open>auto simp: l1d_next_index_def l1d_ring_def ring_inv_set\<close>)
  then show ?thesis
    using s' by (auto simp: l1d_rcu_step_def l1d_rcu_eval_def intro: ring_inv_l1d_commit)
qed

lemma l1d_ring_distinct: "ring_inv l1d_ring {..<16} s \<Longrightarrow> distinct (rob_indices s)"
proof -
  assume inv: "ring_inv l1d_ring {..<16} s"
  have nth: "rob_indices s ! k = (hd (rob_indices s) + k) mod 16" if "k < length (rob_indices s)" for k
  proof -
    have "hd (rob_indices s) < 16"
      using inv that by (cases "rob_indices s") (auto simp: ring_inv_def)
    then show ?thesis
      using inv that chained_nth [of l1d_ring "rob_indices s" k] l1d_ring_pow
      by (simp add: ring_inv_def)
  qed
  have len: "length (rob_indices s) \<le> 16"
    using inv by (simp add: ring_inv_def rob_indices_def size_params)
  show ?thesis
    unfolding distinct_conv_nth using nth len mod_shift_inj [of _ 16]
    by (metis order_less_le_trans)
qed

subsection \<open>The load/store unit bench: 15 indices\<close>

definition lsu_ring :: "nat \<Rightarrow> nat" where
  "lsu_ring i = (if (i + 1) mod 16 = 0 then 1 else (i + 1) mod 16)"

lemma lsu_ring_pow: "1 \<le> i \<Longrightarrow> i < 16 \<Longrightarrow> (lsu_ring ^^ k) i = 1 + (i - 1 + k) mod 15"
proof (induction k)
  case 0
  then show ?case by simp
next
  case (Suc k)
  have "lsu_ring (1 + n mod 15) = 1 + Suc n mod 15" for n
    by (simp add: lsu_ring_def mod_Suc)
  then show ?case using Suc by (metis add_Suc_right funpow.simps(2) o_apply)
qed

lemma lsu_ring_step: "lsu_rcu_step stale i s = Inr s' \<Longrightarrow> ring_inv lsu_ring {1..<16} s \<Longrightarrow>
  ring_inv lsu_ring {1..<16} s'"
proof -
  assume s': "lsu_rcu_step stale i s = Inr s'" and inv: "ring_inv lsu_ring {1..<16} s"
  have "ring_inv lsu_ring {1..<16} (rcu_front_stages lsu_next_index (rcu_set i s))"
  proof (rule ring_inv_front)
    show "unat (lsu_next_index q) = lsu_ring (unat (rob_index (last q)))" if "q \<noteq> []" for q
      using that
      by (auto simp: lsu_next_index_def lsu_ring_def size_params Let_def unsigned_of_nat
          take_bit_eq_mod word_unat_eq_iff)
  qed (use inv in \<open>auto simp: lsu_next_index_def lsu_ring_def ring_inv_set\<close>)
  then show ?thesis
    using s' ring_inv_lsu_commit by (simp add: lsu_rcu_step_def lsu_rcu_eval_def)
qed

lemma lsu_ring_nth:
  assumes "ring_inv lsu_ring {1..<16} s" and "k < length (rob_indices s)"
  shows "rob_indices s ! k = 1 + (hd (rob_indices s) - 1 + k) mod 15"
proof -
  have "1 \<le> hd (rob_indices s) \<and> hd (rob_indices s) < 16"
    using assms by (cases "rob_indices s") (auto simp: ring_inv_def)
  then show ?thesis
    using assms chained_nth [of lsu_ring "rob_indices s" k] lsu_ring_pow
    by (simp add: ring_inv_def)
qed

lemma lsu_ring_distinct:
  assumes "ring_inv lsu_ring {1..<16} s" and "length (rcu_q s) < 16"
  shows "distinct (rob_indices s)"
proof -
  have len: "length (rob_indices s) \<le> 15"
    using assms(2) by (simp add: rob_indices_def)
  show ?thesis
    unfolding distinct_conv_nth
    using lsu_ring_nth [OF assms(1)] len mod_shift_inj [of _ 15]
    by (metis add_left_cancel order_less_le_trans)
qed

lemma lsu_ring_full:
  assumes "ring_inv lsu_ring {1..<16} s" and "length (rcu_q s) = 16"
  shows "hd (rob_indices s) = last (rob_indices s)"
proof -
  have len: "length (rob_indices s) = 16" using assms(2) by (simp add: rob_indices_def)
  then have ne: "rob_indices s \<noteq> []" by auto
  have "last (rob_indices s) = rob_indices s ! 15"
    using last_conv_nth [OF ne] len by simp
  moreover have "hd (rob_indices s) = rob_indices s ! 0"
    by (rule hd_conv_nth [OF ne])
  moreover have "rob_indices s ! 15 = 1 + (hd (rob_indices s) - 1 + 15) mod 15"
    and "rob_indices s ! 0 = 1 + (hd (rob_indices s) - 1 + 0) mod 15"
    by (rule lsu_ring_nth [OF assms(1)], simp add: len)+
  ultimately show ?thesis by (metis add_0_right mod_add_self2)
qed

section \<open>Properties\<close>

text \<open>A request that stays valid, met by a unit that is never ready and never answers.\<close>

definition idle_in :: "req \<Rightarrow> rcu_in" where
  "idle_in r = \<lparr>in_lsu_rdy = False, in_resp_vld = False, in_resp = line0, in_req_vld = True,
               in_req = r\<rparr>"

text \<open>Fed with it, the buffer fills up: nothing is issued, so nothing retires.\<close>

lemma wake_loop_issued: "wake_loop v i q = (v', i', q') \<Longrightarrow> map issued q' = map issued q"
  by (rule wake_loop_map [where g = issued]) simp_all

lemma idle_step:
  assumes "\<forall>r\<in>set (rcu_q s). \<not> issued r" and "length (rcu_q s) < RCU_MAX_SIZE" and "\<not> issued e"
  shows "\<exists>s'. lsu_rcu_step req0 (idle_in e) s = Inr s' \<and>
              (\<forall>r\<in>set (rcu_q s'). \<not> issued r) \<and> length (rcu_q s') = Suc (length (rcu_q s))"
proof -
  let ?e = "e\<lparr>rob_index := lsu_next_index (rcu_q s)\<rparr>"
  let ?t = "rcu_front_stages lsu_next_index (rcu_set (idle_in e) s)"
  obtain v i q where w: "wake_loop False (wake_up_rob_index s) (rcu_q s @ [?e]) = (v, i, q)"
    by (metis prod_cases3)
  have t: "rcu_q ?t = q"
    using assms(2) w
    by (simp add: rcu_front_stages_def rcu_set_def idle_in_def rcu_handshake_def rcu_enque_def
        rcu_take_resp_def rcu_wake_up_def rcu_issue_def Let_def split: option.splits)
  have q: "map issued q = map issued (rcu_q s @ [?e])" by (rule wake_loop_issued [OF w])
  then have len: "length q = Suc (length (rcu_q s))" using map_eq_imp_length_eq by fastforce
  have "set (map issued q) \<subseteq> {False}" unfolding q using assms(1,3) by auto
  then have un: "\<forall>r\<in>set q. \<not> issued r" by auto
  show ?thesis
    using un len by (auto simp: lsu_rcu_step_def lsu_rcu_eval_def lsu_commit_def t retirable_def
        split: list.splits)
qed

lemma idle_run:
  "\<forall>r\<in>set (rcu_q s). \<not> issued r \<Longrightarrow> length (rcu_q s) + n \<le> RCU_MAX_SIZE \<Longrightarrow> \<not> issued e \<Longrightarrow>
   \<exists>ss. run_res (lsu_rcu_step req0) (replicate n (idle_in e)) s = Inr ss \<and>
        length (rcu_q (last (s # ss))) = length (rcu_q s) + n"
proof (induction n arbitrary: s)
  case 0
  then show ?case by simp
next
  case (Suc n)
  then obtain s' where s': "lsu_rcu_step req0 (idle_in e) s = Inr s'"
      "\<forall>r\<in>set (rcu_q s'). \<not> issued r" "length (rcu_q s') = Suc (length (rcu_q s))"
    using idle_step [of s e] by auto
  show ?case using Suc.IH [of s'] Suc.prems s' by auto
qed

lemma l1d_run_total: "\<exists>ss. run_res l1d_rcu_step is s = Inr ss"
  by (induction "is" arbitrary: s) (auto simp: l1d_rcu_step_def)

text \<open>
  C25. Whatever the unit under test and the monitor feed to the reorder buffer of the cache
  bench, in any number of evaluations from its initial state: the requests it has accepted are,
  in order, the requests it has committed followed by the ones it still holds, and it never
  holds more than \<open>RCU_MAX_SIZE\<close>. So nothing is lost, duplicated, reordered or altered in
  address, kind, opcode or fence bit.
\<close>

theorem l1d_rcu_fifo:
  "\<exists>ss. run_res l1d_rcu_step is rcu_init = Inr ss \<and>
        taken rcu_accepts is (rcu_init # ss) =
          concat (map rcu_committed ss) @ rcu_held (last (rcu_init # ss)) \<and>
        length (rcu_held (last (rcu_init # ss))) \<le> RCU_MAX_SIZE"
proof -
  obtain ss where ss: "run_res l1d_rcu_step is rcu_init = Inr ss"
    using l1d_run_total by blast
  have "rcu_held rcu_init = []" by (simp add: rcu_held_def rcu_init_def)
  then show ?thesis
    using l1d_station.run_order [OF ss] l1d_station.run_capacity [OF ss] ss by auto
qed

text \<open>
  C27. In the cache bench the entries of the reorder buffer carry pairwise different indices, in
  every state it can reach, so an issue handshake and a response each meet one entry only.
\<close>

theorem l1d_rob_indices_distinct:
  "\<exists>ss. run_res l1d_rcu_step is rcu_init = Inr ss \<and> distinct (rob_indices (last (rcu_init # ss)))"
proof -
  obtain ss where ss: "run_res l1d_rcu_step is rcu_init = Inr ss"
    using l1d_run_total by blast
  have "ring_inv l1d_ring {..<16} (last (rcu_init # ss))"
    by (rule run_res_invariant [OF ss]) (auto intro: ring_inv_init l1d_ring_step)
  then show ?thesis using ss l1d_ring_distinct by blast
qed

text \<open>
  C26. The reorder buffer of the load/store unit bench hands out the accepted requests in order
  as well, as long as its run does not pop an empty list.
\<close>

theorem lsu_rcu_fifo:
  assumes "run_res (lsu_rcu_step stale) is rcu_init = Inr ss"
  shows "taken rcu_accepts is (rcu_init # ss) =
           concat (map rcu_committed ss) @ rcu_held (last (rcu_init # ss))"
  using lsu_station.run_order [OF assms] by (simp add: rcu_held_def rcu_init_def)

theorem lsu_rcu_fifo_witness:
  "\<exists>ss. run_res (lsu_rcu_step req0) (replicate 3 (idle_in req0)) rcu_init = Inr ss \<and>
        taken rcu_accepts (replicate 3 (idle_in req0)) (rcu_init # ss) =
          concat (map rcu_committed ss) @ rcu_held (last (rcu_init # ss)) \<and>
        length (rcu_held (last (rcu_init # ss))) = 3"
proof -
  obtain ss where "run_res (lsu_rcu_step req0) (replicate 3 (idle_in req0)) rcu_init = Inr ss"
    and "length (rcu_q (last (rcu_init # ss))) = 3"
    using idle_run [of rcu_init 3 req0] by (auto simp: rcu_init_def mk_req_def size_params)
  moreover from this have "length (rcu_held (last (rcu_init # ss))) = 3"
    by (simp add: rcu_held_def)
  ultimately show ?thesis using lsu_rcu_fifo [of req0 "replicate 3 (idle_in req0)" ss] by blast
qed

text \<open>
  C28. In the load/store unit bench the entries carry pairwise different indices only while fewer
  than 16 are held: when the buffer is full, its oldest and its newest entry share one index.
\<close>

theorem lsu_rob_index_clash:
  assumes "run_res (lsu_rcu_step stale) is rcu_init = Inr ss"
  shows "if length (rcu_q (last (rcu_init # ss))) < RCU_MAX_SIZE
         then distinct (rob_indices (last (rcu_init # ss)))
         else hd (rob_indices (last (rcu_init # ss))) = last (rob_indices (last (rcu_init # ss)))"
proof -
  let ?s = "last (rcu_init # ss)"
  have inv: "ring_inv lsu_ring {1..<16} ?s"
    by (rule run_res_invariant [OF assms]) (blast intro: ring_inv_init lsu_ring_step)+
  have "length (rcu_q ?s) \<le> 16" using inv by (simp add: ring_inv_def size_params)
  then show ?thesis
    using lsu_ring_distinct [OF inv] lsu_ring_full [OF inv] by (simp add: size_params)
qed

theorem lsu_rob_index_clash_witness:
  "\<exists>ss. run_res (lsu_rcu_step req0) (replicate 16 (idle_in req0)) rcu_init = Inr ss \<and>
        length (rcu_q (last (rcu_init # ss))) = 16 \<and>
        hd (rob_indices (last (rcu_init # ss))) = last (rob_indices (last (rcu_init # ss)))"
proof -
  obtain ss where "run_res (lsu_rcu_step req0) (replicate 16 (idle_in req0)) rcu_init = Inr ss"
    and "length (rcu_q (last (rcu_init # ss))) = 16"
    using idle_run [of rcu_init 16 req0] by (auto simp: rcu_init_def mk_req_def size_params)
  then show ?thesis
    using lsu_rob_index_clash [of req0 "replicate 16 (idle_in req0)" ss] by (simp add: size_params)
qed

end
