(* ===== verification/Byte_Store.thy ===== *)
theory Byte_Store
  imports Prelude
begin

unbundle bit_operations_syntax

text \<open>
  Byte-addressed memories. Every memory model of the test benches (the 64-bit line array of
  the load/store unit bench, the byte array of the L1 data cache bench, the 32-bit word array
  of \<open>PerfectMem\<close>) offers bytes behind a 16-bit address. This theory states that interface as
  a locale, the multi-byte access loops the benches write over it, and their little-endian
  meaning.
\<close>

section \<open>Little-endian meaning of a byte range\<close>

fun le_word :: "u8 list \<Rightarrow> u64" where
  "le_word [] = 0"
| "le_word (b # bs) = ucast b OR push_bit 8 (le_word bs)"

definition le_load :: "(u16 \<Rightarrow> u8) \<Rightarrow> u16 \<Rightarrow> nat \<Rightarrow> u64" where
  "le_load g a n = le_word (map (\<lambda>i. g (a + of_nat i)) [0..<n])"

definition le_store :: "(u16 \<Rightarrow> u8) \<Rightarrow> u16 \<Rightarrow> nat \<Rightarrow> u64 \<Rightarrow> (u16 \<Rightarrow> u8)" where
  "le_store g a n d =
     (\<lambda>b. if unat (b - a) < n then ucast (drop_bit (8 * unat (b - a)) d) else g b)"

section \<open>The access loops of the benches\<close>

text \<open>
  \<open>load_loop\<close> is the loop that \<open>lh\<close>, \<open>lw\<close>, \<open>lhu\<close> and \<open>lwu\<close> of the load/store unit bench share:
  the most significant byte first, shifted left between two bytes. \<open>add_loop\<close> is the loop of
  the cache bench's monitor: every byte shifted to its place and added. \<open>store_loop\<close> is the
  loop of all multi-byte stores.
\<close>

definition load_loop :: "(u16 \<Rightarrow> u8) \<Rightarrow> u16 \<Rightarrow> nat \<Rightarrow> u64" where
  "load_loop g a n =
     fold (\<lambda>i anws. let anws' = anws + ucast (g (a + of_nat (n - 1 - i))) in
                    if i < n - 1 then push_bit 8 anws' else anws') [0..<n] 0"

definition add_loop :: "(u16 \<Rightarrow> u8) \<Rightarrow> u16 \<Rightarrow> nat \<Rightarrow> u64" where
  "add_loop g a n = fold (\<lambda>i d. d + push_bit (8 * i) (ucast (g (a + of_nat i)))) [0..<n] 0"

definition store_loop :: "('m \<Rightarrow> u16 \<Rightarrow> u8 \<Rightarrow> 'm) \<Rightarrow> nat \<Rightarrow> u16 \<Rightarrow> u64 \<Rightarrow> 'm \<Rightarrow> 'm" where
  "store_loop put n a d m =
     fold (\<lambda>i m. put m (a + of_nat i) (ucast (drop_bit (8 * i) d AND 0xff))) [0..<n] m"

section \<open>Bits of a little-endian word\<close>

lemma bit_le_word:
  "bit (le_word bs) k \<longleftrightarrow> k < 64 \<and> k div 8 < length bs \<and> bit (bs ! (k div 8)) (k mod 8)"
proof (induction bs arbitrary: k)
  case Nil
  then show ?case by simp
next
  case (Cons b bs)
  show ?case
  proof (cases "k < 8")
    case True
    then show ?thesis by (auto simp: bit_simps)
  next
    case False
    then have "k div 8 = Suc ((k - 8) div 8)" "k mod 8 = (k - 8) mod 8"
      by (simp_all add: le_div_geq le_mod_geq)
    with False show ?thesis
      by (auto simp: bit_simps Cons.IH dest: bit_imp_le_length)
  qed
qed

lemma bit_le_load:
  assumes "n \<le> 8"
  shows "bit (le_load g a n) k \<longleftrightarrow> k < 8 * n \<and> bit (g (a + of_nat (k div 8))) (k mod 8)"
  using assms by (auto simp: le_load_def bit_le_word)

lemma le_load_store:
  assumes "n \<le> 8"
  shows "le_load (le_store g a n d) a n = take_bit (8 * n) d"
proof (rule bit_word_eqI)
  fix k :: nat
  assume "k < LENGTH(64)"
  have off: "unat (of_nat (k div 8) :: u16) = k div 8" if "k < 8 * n"
    using that assms by (simp add: unsigned_of_nat take_bit_eq_mod)
  show "bit (le_load (le_store g a n d) a n) k \<longleftrightarrow> bit (take_bit (8 * n) d) k"
    using assms off by (auto simp: bit_le_load le_store_def bit_simps less_mult_imp_div_less)
qed

lemma le_load_store_other:
  assumes "\<And>i. i < n \<Longrightarrow> m \<le> unat (b + of_nat i - a)"
  shows "le_load (le_store g a m d) b n = le_load g b n"
proof -
  have "map (\<lambda>i. le_store g a m d (b + of_nat i)) [0..<n] = map (\<lambda>i. g (b + of_nat i)) [0..<n]"
    using assms by (fastforce simp: le_store_def)
  then show ?thesis unfolding le_load_def by (rule arg_cong)
qed

section \<open>The loops compute the little-endian meaning\<close>

lemma shift_in_byte:
  fixes b :: u8 and x :: u64
  shows "push_bit 8 x + ucast b = ucast b OR push_bit 8 x"
  by (subst or_is_add_if_disjoint) (auto simp: bit_simps or.commute dest: bit_imp_le_length)

lemma load_loop_1: "load_loop g a 1 = le_load g a 1"
  by (simp add: load_loop_def le_load_def)

lemma load_loop_2: "load_loop g a 2 = le_load g a 2"
  by (simp add: load_loop_def le_load_def upt_rec numeral_2_eq_2 shift_in_byte Let_def)

lemma load_loop_4: "load_loop g a 4 = le_load g a 4"
proof -
  let ?b = "\<lambda>i. ucast (g (a + of_nat i)) :: u64"
  have "load_loop g a 4 = push_bit 8 (push_bit 8 (push_bit 8 (?b 3) + ?b 2) + ?b 1) + ?b 0"
    by (simp add: load_loop_def upt_rec Let_def)
  also have "\<dots> = le_load g a 4"
    by (simp only: shift_in_byte) (simp add: le_load_def upt_rec push_bit_or)
  finally show ?thesis .
qed

lemma le_word_snoc:
  "length bs < 8 \<Longrightarrow> le_word (bs @ [b]) = le_word bs + push_bit (8 * length bs) (ucast b)"
proof -
  assume "length bs < 8"
  have "le_word (bs @ [b]) = le_word bs OR push_bit (8 * length bs) (ucast b)"
    by (induction bs) (simp_all add: push_bit_or or.assoc)
  also have "\<dots> = le_word bs + push_bit (8 * length bs) (ucast b)"
    by (rule or_is_add_if_disjoint [symmetric]) (auto simp: bit_simps bit_le_word)
  finally show ?thesis .
qed

lemma add_loop_eq_le_load: "n \<le> 8 \<Longrightarrow> add_loop g a n = le_load g a n"
proof (induction n)
  case 0
  then show ?case by (simp add: add_loop_def le_load_def)
next
  case (Suc n)
  then show ?case by (simp add: add_loop_def le_load_def le_word_snoc)
qed

section \<open>Sign extension\<close>

text \<open>The value of a load: \<open>n\<close> little-endian bytes, sign- or zero-extended to 64 bits.\<close>

definition load_value :: "nat \<Rightarrow> bool \<Rightarrow> (u16 \<Rightarrow> u8) \<Rightarrow> u16 \<Rightarrow> u64" where
  "load_value n sgn_ext g a =
     (if sgn_ext then signed_take_bit (8 * n - 1) (le_load g a n) else le_load g a n)"

lemma sign_extend_or:
  fixes x :: u64
  assumes "k < 64" and "\<And>i. bit x i \<Longrightarrow> i \<le> k"
  shows "(if bit x k then x OR NOT (mask (Suc k)) else x) = signed_take_bit k x"
proof (rule bit_word_eqI)
  fix i :: nat
  assume "i < LENGTH(64)"
  then show "bit (if bit x k then x OR NOT (mask (Suc k)) else x) i \<longleftrightarrow> bit (signed_take_bit k x) i"
    using assms by (cases "i \<le> k") (auto simp: bit_simps min_def)
qed

lemma le_load_bits: "n \<le> 8 \<Longrightarrow> bit (le_load g a n) i \<Longrightarrow> i \<le> 8 * n - 1"
  by (auto simp: bit_le_load)

lemma and_pow_nonzero: "(x::u64) AND push_bit k 1 \<noteq> 0 \<longleftrightarrow> bit x k"
proof -
  have "x AND push_bit k 1 = (if bit x k then push_bit k 1 else 0)"
    by (rule bit_word_eqI) (auto simp: bit_simps)
  moreover have "push_bit k (1::u64) \<noteq> 0" if "bit x k"
  proof -
    have "bit (push_bit k (1::u64)) k"
      using bit_imp_le_length [OF that] by (simp add: bit_simps)
    then show ?thesis by (metis bit_0_eq bot_apply bot_bool_def)
  qed
  ultimately show ?thesis by auto
qed

lemma and_high_nonzero:
  fixes x :: u64
  assumes "\<And>i. bit x i \<Longrightarrow> i \<le> k"
  shows "x AND NOT (mask k) \<noteq> 0 \<longleftrightarrow> bit x k"
proof
  assume "x AND NOT (mask k) \<noteq> 0"
  then obtain i where "bit x i" "k \<le> i" by (auto simp: bit_eq_iff bit_simps not_less)
  with assms show "bit x k" by (metis le_antisym)
next
  assume "bit x k"
  then have "bit (x AND NOT (mask k)) k"
    by (auto simp: bit_simps dest: bit_imp_le_length)
  then show "x AND NOT (mask k) \<noteq> 0" by auto
qed

lemma sext_masks:
  "(0xffffffffffffff00::u64) = NOT (mask (Suc 7))" "(0xffffffffffff0000::u64) = NOT (mask (Suc 15))"
  "(0xffffffff00000000::u64) = NOT (mask (Suc 31))" "(0xffffffff80000000::u64) = NOT (mask 31)"
  by (simp_all add: mask_eq_exp_minus_1)

lemma sign_bits:
  "(0x80::u64) = push_bit 7 1" "(0x8000::u64) = push_bit 15 1" "(0x80000000::u64) = push_bit 31 1"
  by simp_all

lemma sext8:
  "(if le_load g a 1 AND 0x80 \<noteq> 0 then le_load g a 1 OR 0xffffffffffffff00 else le_load g a 1) =
   load_value 1 True g a"
  unfolding sext_masks(1) sign_bits(1) and_pow_nonzero
  by (subst sign_extend_or) (auto simp: load_value_def dest: le_load_bits [of 1, simplified])

lemma sext16:
  "(if le_load g a 2 AND 0x8000 \<noteq> 0 then le_load g a 2 OR 0xffffffffffff0000 else le_load g a 2) =
   load_value 2 True g a"
  unfolding sext_masks(2) sign_bits(2) and_pow_nonzero
  by (subst sign_extend_or) (auto simp: load_value_def dest: le_load_bits [of 2, simplified])

lemma sext32:
  "(if bit (le_load g a 4) 31 then le_load g a 4 OR 0xffffffff00000000 else le_load g a 4) =
   load_value 4 True g a"
  unfolding sext_masks(3)
  by (subst sign_extend_or) (auto simp: load_value_def dest: le_load_bits [of 4, simplified])

lemma sext64: "load_value 8 True g a = le_load g a 8"
proof (rule bit_word_eqI)
  fix i :: nat
  assume "i < LENGTH(64)"
  then have "min i 63 = i" by simp
  with \<open>i < LENGTH(64)\<close> show "bit (load_value 8 True g a) i \<longleftrightarrow> bit (le_load g a 8) i"
    by (simp add: load_value_def bit_simps)
qed

section \<open>The byte store interface\<close>

locale byte_store =
  fixes get :: "'m \<Rightarrow> u16 \<Rightarrow> u8"
    and put :: "'m \<Rightarrow> u16 \<Rightarrow> u8 \<Rightarrow> 'm"
  assumes get_put: "get (put m a v) b = (if b = a then v else get m b)"
begin

lemma get_store_loop: "n \<le> 8 \<Longrightarrow> get (store_loop put n a d m) = le_store (get m) a n d"
proof (induction n)
  case 0
  then show ?case by (simp add: store_loop_def le_store_def)
next
  case (Suc n)
  have n: "unat (of_nat n :: u16) = n"
    using Suc.prems by (simp add: unsigned_of_nat take_bit_eq_mod)
  have byte: "ucast (drop_bit (8 * k) d AND 0xff) = (ucast (drop_bit (8 * k) d) :: u8)" for k
    by (rule bit_word_eqI) (auto simp: bit_simps byte_mask)
  have step: "store_loop put (Suc n) a d m =
      put (store_loop put n a d m) (a + of_nat n) (ucast (drop_bit (8 * n) d))"
    by (simp add: store_loop_def byte)
  have at: "b = a + of_nat n \<longleftrightarrow> unat (b - a) = n" for b
  proof -
    have "b = a + of_nat n \<longleftrightarrow> b - a = of_nat n" by (auto simp: algebra_simps)
    then show ?thesis using n by (simp add: word_unat_eq_iff)
  qed
  show ?case
  proof
    fix b
    show "get (store_loop put (Suc n) a d m) b = le_store (get m) a (Suc n) d b"
      using Suc by (auto simp: step get_put le_store_def at less_Suc_eq)
  qed
qed

lemma load_after_store:
  "n \<le> 8 \<Longrightarrow> le_load (get (store_loop put n a d m)) a n = take_bit (8 * n) d"
  by (simp add: get_store_loop le_load_store)

end

end
