(* ===== verification/Monitor.thy ===== *)
theory Monitor
  imports Rcu Byte_Store
begin

unbundle bit_operations_syntax

text \<open>
  The monitor that drives both benches, class \<open>Monitor\<close> of \<open>sim/lsu_ut/monitor.cpp\<close> and
  \<open>sim/l1d/monitor.cpp\<close>: it generates random requests, hands them to the reorder buffer,
  remembers them in an issue queue, and checks every committed request against a reference
  memory. The two versions share the handshake, the request assembly and the order check; they
  differ in the draw of a request, in the first reorder-buffer index, in the memory behind the
  check (\<open>Lsu_Monitor\<close>, \<open>L1d_Monitor\<close>), and the load/store unit bench adds a fence check.
\<close>

section \<open>State\<close>

record 'm monitor =
  mn_mem :: 'm
  mn_iss_que :: "req list"
  mn_rcu_ready :: bool
  mn_req_vld :: bool
  mn_req :: req
  mn_resp_vld :: bool
  mn_resp :: req
  mn_req_iss_num :: u32
  mn_resp_comm_num :: u32
  mn_visit_history :: "u16 \<Rightarrow> u64 list"
  mn_rd_free_list :: "u8 list"
  mn_testcase_max :: u64

definition mon_init :: "'m \<Rightarrow> u64 \<Rightarrow> 'm monitor" where
  "mon_init pm tm =
     \<lparr>mn_mem = pm, mn_iss_que = [], mn_rcu_ready = False, mn_req_vld = False, mn_req = req0,
      mn_resp_vld = False, mn_resp = req0, mn_req_iss_num = 0, mn_resp_comm_num = 0,
      mn_visit_history = (\<lambda>_. []), mn_rd_free_list = map of_nat [1..<64], mn_testcase_max = tm\<rparr>"

text \<open>The setters the benches call before an evaluation.\<close>

definition mon_set :: "bool \<Rightarrow> bool \<Rightarrow> req \<Rightarrow> 'm monitor \<Rightarrow> 'm monitor" where
  "mon_set rdy vld r s = s\<lparr>mn_rcu_ready := rdy, mn_resp_vld := vld, mn_resp := r\<rparr>"

definition ut_done :: "'m monitor \<Rightarrow> bool" where
  "ut_done s \<longleftrightarrow> ucast (mn_req_iss_num s) = mn_testcase_max s \<and>
                 ucast (mn_resp_comm_num s) = mn_testcase_max s"

section \<open>The stages of an evaluation\<close>

text \<open>The request offered to the reorder buffer is taken: shake hands.\<close>

definition mon_accept :: "'m monitor \<Rightarrow> 'm monitor res" where
  "mon_accept s =
     (if mn_rcu_ready s \<and> mn_req_vld s then
        (let next = s\<lparr>mn_req_iss_num := mn_req_iss_num s + 1, mn_req_vld := False,
                      mn_iss_que := mn_iss_que s @ [mn_req s]\<rparr> in
         if load_or_store (mn_req s) then Inr next
         else case mn_rd_free_list s of
                [] \<Rightarrow> Inl (Undefined ''_rd_free_list is empty'')
              | _ # rds \<Rightarrow> Inr (next\<lparr>mn_rd_free_list := rds\<rparr>))
      else Inr s)"

text \<open>
  What the random draws decide of a request: load or store, fence bit, opcode and address
  before it is aligned. The first four draws are the same in both versions.
\<close>

type_synonym draw = "bool \<times> bool \<times> u8 \<times> u64"

definition draw_kind :: "rng \<Rightarrow> (bool \<times> bool \<times> u8 \<times> u64) \<times> rng" where
  "draw_kind r0 =
     (let (v1, r1) = rand r0;
          ls = (v1 mod 2 \<noteq> 0);
          (fence, r2) = (if ls then (let (v2, r2) = rand r1 in (v2 mod 10 = 0, r2)) else (False, r1));
          (v3, r3) = rand r2;
          op = of_nat (v3 mod (if ls then 4 else 7));
          (v4, r4) = rand r3;
          paddr_offset = of_nat v4 AND 0xffff
      in ((ls, fence, op, paddr_offset), r4))"

text \<open>
  The C++ standard leaves open which of the two \<open>rand()\<close> calls of a store's data comes first;
  the high half is drawn first here.
\<close>

definition draw_data :: "bool \<Rightarrow> rng \<Rightarrow> u64 \<times> rng" where
  "draw_data ls r =
     (if ls then
        (let (v1, r1) = rand r; (v2, r2) = rand r1 in (push_bit 32 (of_nat v1) + of_nat v2, r2))
      else (0, r))"

text \<open>
  \<open>None\<close> of a draw is a draw that does not end. A request is offered anew even while an older offer
  waits, which it then replaces.
\<close>

definition mon_send ::
    "(rng \<Rightarrow> (draw \<times> rng) option) \<Rightarrow> u8 \<Rightarrow> u64 \<Rightarrow> rng \<Rightarrow> 'm monitor \<Rightarrow> ('m monitor \<times> rng) res" where
  "mon_send draw rob time r0 s =
     (let (v, r1) = rand r0 in
      if v mod 3 = 0 \<and> ucast (mn_req_iss_num s) < mn_testcase_max s then
        (case draw r1 of
           None \<Rightarrow> Inl Spins
         | Some ((ls, fence, op, pa), r2) \<Rightarrow>
             (let (d, r3) = draw_data ls r2 in
              if \<not> ls \<and> mn_rd_free_list s = [] then Inl (Undefined ''_rd_free_list is empty'')
              else
                (let rd = (if ls then 0 else hd (mn_rd_free_list s));
                     (w, r4) = rand r3;
                     de = of_nat (WAKEUP_BASE_DELAY + w mod WAKEUP_MAX_DELAY);
                     pa' = pa AND NOT 7
                 in Inr (s\<lparr>mn_req_vld := True, mn_req := mk_req pa' d rob rd de fence ls op,
                                 mn_visit_history := (mn_visit_history s)
                                   (ucast pa' := mn_visit_history s (ucast pa') @ [time])\<rparr>, r4))))
      else Inr (s, r1))"

text \<open>
  A committed request: it must be the oldest of the issue queue; \<open>check\<close> replays it on the
  reference memory.
\<close>

definition mon_retire :: "('m \<Rightarrow> req \<Rightarrow> 'm res) \<Rightarrow> 'm monitor \<Rightarrow> 'm monitor res" where
  "mon_retire check s =
     (if mn_resp_vld s then
        (case mn_iss_que s of
           [] \<Rightarrow> Inl (Undefined ''_iss_que is empty'')
         | q # qs \<Rightarrow>
             if paddr q \<noteq> paddr (mn_resp s) then Inl (Throw ''lsu commit in wrong order'')
             else res_map (\<lambda>m. s\<lparr>mn_resp_vld := False, mn_resp_comm_num := mn_resp_comm_num s + 1,
                                 mn_iss_que := qs,
                                 mn_rd_free_list := mn_rd_free_list s @
                                   (if load_or_store (mn_resp s) then [] else [rd_addr (mn_resp s)]),
                                 mn_mem := m\<rparr>)
                    (check (mn_mem s) (mn_resp s)))
      else Inr s)"

definition mon_eval ::
    "(rng \<Rightarrow> (draw \<times> rng) option) \<Rightarrow> u8 \<Rightarrow> ('m \<Rightarrow> req \<Rightarrow> 'm res) \<Rightarrow> u64 \<Rightarrow> rng \<Rightarrow> 'm monitor \<Rightarrow>
     ('m monitor \<times> rng) res" where
  "mon_eval draw rob check time r s =
     res_bind (mon_accept s) (\<lambda>s1.
     res_bind (mon_send draw rob time r s1) (\<lambda>(s2, r').
     res_map (\<lambda>s3. (s3, r')) (mon_retire check s2)))"

section \<open>The reference semantics of a committed request\<close>

text \<open>
  Legal requests: doubleword aligned, with an opcode of the four stores or the seven loads.
\<close>

fun legal_key :: "req_key \<Rightarrow> bool" where
  "legal_key (pa, ls, op, fence) \<longleftrightarrow> unat pa mod 8 = 0 \<and> (if ls then op < 4 else op < 7)"

definition ld_size :: "u8 \<Rightarrow> nat" where
  "ld_size op = (if op = LDU_LB \<or> op = LDU_LBU then 1 else if op = LDU_LH \<or> op = LDU_LHU then 2
                 else if op = LDU_LW \<or> op = LDU_LWU then 4 else 8)"

definition ld_sign_extends :: "u8 \<Rightarrow> bool" where
  "ld_sign_extends op = (op < LDU_LBU)"

definition st_size :: "u8 \<Rightarrow> nat" where
  "st_size op = (if op = STU_SB then 1 else if op = STU_SH then 2 else if op = STU_SW then 4 else 8)"

text \<open>The sequential memory: bytes behind 16-bit addresses, one request after the other.\<close>

definition spec_commit :: "(u16 \<Rightarrow> u8) \<Rightarrow> req \<Rightarrow> (u16 \<Rightarrow> u8) res" where
  "spec_commit g r =
     (if load_or_store r then Inr (le_store g (ucast (paddr r)) (st_size (opcode r)) (data r))
      else if load_value (ld_size (opcode r)) (ld_sign_extends (opcode r)) g (ucast (paddr r)) = data r
      then Inr g else Inl (Throw ''load fail!''))"

text \<open>
  The contract of a reference memory: on legal requests its check is the sequential memory.
\<close>

locale commit_checker = byte_store get put
  for get :: "'m \<Rightarrow> u16 \<Rightarrow> u8" and put +
  fixes check :: "'m \<Rightarrow> req \<Rightarrow> 'm res"
  assumes check_refines: "legal_key (req_key r) \<Longrightarrow> res_map get (check m r) = spec_commit (get m) r"
begin

lemma check_fault: "legal_key (req_key r) \<Longrightarrow> check m r = Inl e \<Longrightarrow> e = Throw ''load fail!''"
  using check_refines [of r m] by (auto simp: spec_commit_def split: if_splits)

lemma check_ok: "legal_key (req_key r) \<Longrightarrow> check m r = Inr m' \<Longrightarrow> spec_commit (get m) r = Inr (get m')"
  using check_refines [of r m] by simp

lemma check_iff:
  "legal_key (req_key r) \<Longrightarrow>
   (\<exists>m'. check m r = Inr m') \<longleftrightarrow> (\<exists>g. spec_commit (get m) r = Inr g)"
  by (cases "check m r") (simp_all flip: check_refines)

end

section \<open>Draws\<close>

lemma aligned_mask: "unat ((x::u64) AND NOT 7) mod 8 = 0"
proof -
  have "take_bit 3 (x AND NOT 7) = 0"
    by (rule bit_word_eqI) (auto simp: bit_simps mask_eq_exp_minus_1 [where n = 3 and 'a = "64 word", simplified, symmetric])
  then have "take_bit 3 (unat (x AND NOT 7)) = 0"
    by (metis unsigned_0 unsigned_take_bit_eq)
  then show ?thesis by (simp add: take_bit_eq_mod)
qed

lemma legal_ops:
  fixes op :: u8
  shows "op < 4 \<Longrightarrow> op = STU_SB \<or> op = STU_SH \<or> op = STU_SW \<or> op = STU_SD"
    and "op < 7 \<Longrightarrow> op = LDU_LB \<or> op = LDU_LH \<or> op = LDU_LW \<or> op = LDU_LD \<or> op = LDU_LBU \<or>
           op = LDU_LHU \<or> op = LDU_LWU"
  unfolding ldu_ops stu_ops word_less_nat_alt word_unat_eq_iff by auto

lemma lt_of_nat_mod: "k < 256 \<Longrightarrow> 0 < k \<Longrightarrow> unat (of_nat (n mod k) :: u8) < k"
  by (simp add: unsigned_of_nat take_bit_eq_mod mod_less_divisor less_trans [OF mod_less_divisor])

lemma draw_kind_legal:
  "draw_kind r = ((ls, f, op, off), r') \<Longrightarrow> if ls then op < 4 else op < 7"
  using lt_of_nat_mod [of 4] lt_of_nat_mod [of 7]
  by (auto simp: draw_kind_def Let_def word_less_nat_alt split: prod.splits if_splits)

end
