(* ===== verification/Lsu_Mem.thy ===== *)
theory Lsu_Mem
  imports Byte_Store Params
begin

unbundle bit_operations_syntax

text \<open>
  The memory of the load/store unit bench, \<open>sim/lsu_ut/fake_mem.hpp\<close> and
  \<open>sim/lsu_ut/fake_mem.cpp\<close>: an array of 64-bit lines behind 16-bit byte addresses, with the
  RISC-V load and store operations, their alignment checks and a visit counter.
\<close>

section \<open>State\<close>

definition LSU_MEM_MAX_SIZE :: nat where
  "LSU_MEM_MAX_SIZE = 2 ^ (16 - 3)"

record lsu_mem =
  fm_mem :: "nat \<Rightarrow> u64"
  fm_visit_time :: u64

text \<open>The constructor fills line \<open>i\<close> with its own byte address, twice as 32-bit words.\<close>

definition lsu_mem_init :: lsu_mem where
  "lsu_mem_init =
     \<lparr>fm_mem = (\<lambda>i. if i < LSU_MEM_MAX_SIZE
                    then push_bit 32 (push_bit 3 (of_nat i) + 4) + push_bit 3 (of_nat i) else 0),
      fm_visit_time = 0\<rparr>"

section \<open>Operations\<close>

definition fm_get_byte :: "lsu_mem \<Rightarrow> u16 \<Rightarrow> u8" where
  "fm_get_byte m paddr =
     ucast (drop_bit (unat paddr mod 8 * 8) (fm_mem m (unat (drop_bit 3 paddr))) AND 0xff)"

definition fm_set_byte :: "lsu_mem \<Rightarrow> u16 \<Rightarrow> u8 \<Rightarrow> lsu_mem" where
  "fm_set_byte m paddr data =
     (let i = unat (drop_bit 3 paddr);
          m1 = m\<lparr>fm_mem := (fm_mem m)(i := fm_mem m i AND NOT (push_bit (unat paddr mod 8 * 8) 0xff))\<rparr>
      in m1\<lparr>fm_mem := (fm_mem m1)(i := fm_mem m1 i OR push_bit (unat paddr mod 8 * 8) (ucast data))\<rparr>)"

definition fm_visit :: "lsu_mem \<Rightarrow> lsu_mem" where
  "fm_visit m = m\<lparr>fm_visit_time := fm_visit_time m + 1\<rparr>"

definition fm_lb :: "lsu_mem \<Rightarrow> u16 \<Rightarrow> (u64 \<times> lsu_mem) res" where
  "fm_lb m paddr =
     (let anws = ucast (fm_get_byte m paddr) in
      Inr (if anws AND 0x80 \<noteq> 0 then anws OR 0xffffffffffffff00 else anws, fm_visit m))"

definition fm_lh :: "lsu_mem \<Rightarrow> u16 \<Rightarrow> (u64 \<times> lsu_mem) res" where
  "fm_lh m paddr =
     (if unat paddr mod 2 \<noteq> 0 then Inl (Throw ''lh misalign'')
      else let anws = load_loop (fm_get_byte m) paddr 2 in
           Inr (if anws AND 0x8000 \<noteq> 0 then anws OR 0xffffffffffff0000 else anws, fm_visit m))"

text \<open>\<open>0x1 << 31\<close> is a negative \<open>int\<close>, sign-extended to 64 bits before the test.\<close>

definition fm_lw :: "lsu_mem \<Rightarrow> u16 \<Rightarrow> (u64 \<times> lsu_mem) res" where
  "fm_lw m paddr =
     (if unat paddr mod 4 \<noteq> 0 then Inl (Throw ''lw misalign'')
      else let anws = load_loop (fm_get_byte m) paddr 4 in
           Inr (if anws AND 0xffffffff80000000 \<noteq> 0 then anws OR 0xffffffff00000000 else anws,
                fm_visit m))"

definition fm_ld :: "lsu_mem \<Rightarrow> u16 \<Rightarrow> (u64 \<times> lsu_mem) res" where
  "fm_ld m paddr =
     (if unat paddr mod 8 \<noteq> 0 then Inl (Throw ''ld misalign'')
      else Inr (fm_mem m (unat (drop_bit 3 paddr)), fm_visit m))"

definition fm_lbu :: "lsu_mem \<Rightarrow> u16 \<Rightarrow> (u64 \<times> lsu_mem) res" where
  "fm_lbu m paddr = Inr (ucast (fm_get_byte m paddr), fm_visit m)"

definition fm_lhu :: "lsu_mem \<Rightarrow> u16 \<Rightarrow> (u64 \<times> lsu_mem) res" where
  "fm_lhu m paddr =
     (if unat paddr mod 2 \<noteq> 0 then Inl (Throw ''lhu misalign'')
      else Inr (load_loop (fm_get_byte m) paddr 2, fm_visit m))"

definition fm_lwu :: "lsu_mem \<Rightarrow> u16 \<Rightarrow> (u64 \<times> lsu_mem) res" where
  "fm_lwu m paddr =
     (if unat paddr mod 4 \<noteq> 0 then Inl (Throw ''lwu misalign'')
      else Inr (load_loop (fm_get_byte m) paddr 4, fm_visit m))"

definition fm_sb :: "lsu_mem \<Rightarrow> u16 \<Rightarrow> u64 \<Rightarrow> lsu_mem res" where
  "fm_sb m paddr data = Inr (fm_set_byte (fm_visit m) paddr (ucast data))"

definition fm_sh :: "lsu_mem \<Rightarrow> u16 \<Rightarrow> u64 \<Rightarrow> lsu_mem res" where
  "fm_sh m paddr data =
     (if unat paddr mod 2 \<noteq> 0 then Inl (Throw ''sh misalign'')
      else Inr (store_loop fm_set_byte 2 paddr data (fm_visit m)))"

definition fm_sw :: "lsu_mem \<Rightarrow> u16 \<Rightarrow> u64 \<Rightarrow> lsu_mem res" where
  "fm_sw m paddr data =
     (if unat paddr mod 4 \<noteq> 0 then Inl (Throw ''sw misalign'')
      else Inr (store_loop fm_set_byte 4 paddr data (fm_visit m)))"

definition fm_sd :: "lsu_mem \<Rightarrow> u16 \<Rightarrow> u64 \<Rightarrow> lsu_mem res" where
  "fm_sd m paddr data =
     (if unat paddr mod 8 \<noteq> 0 then Inl (Throw ''sd misalign'')
      else Inr (store_loop fm_set_byte 8 paddr data (fm_visit m)))"

text \<open>\<open>check\<close> reads the array at any 16-bit index; an index past the array is undefined.\<close>

definition fm_check :: "lsu_mem \<Rightarrow> u16 \<Rightarrow> u64 res" where
  "fm_check m i =
     (if unat i < LSU_MEM_MAX_SIZE then Inr (fm_mem m (unat i))
      else Inl (Undefined ''_mem read past its end''))"

section \<open>The byte view\<close>

lemma line_index: "unat (drop_bit 3 (a::u16)) = unat a div 8"
  by (simp add: unat_drop_bit_eq drop_bit_eq_div [where ?'a = nat])

lemma line_index_less: "unat (drop_bit 3 (a::u16)) < LSU_MEM_MAX_SIZE"
  using unat_u16_less [of a] by (simp add: line_index LSU_MEM_MAX_SIZE_def less_mult_imp_div_less)

lemma bit_get_byte:
  "bit (fm_get_byte m a) k \<longleftrightarrow>
     k < 8 \<and> bit (fm_mem m (unat a div 8)) (unat a mod 8 * 8 + k)"
  by (auto simp: fm_get_byte_def byte_mask bit_simps line_index)

lemma fm_mem_set_byte:
  "bit (fm_mem (fm_set_byte m a v) i) n \<longleftrightarrow>
     (if i = unat a div 8 \<and> unat a mod 8 * 8 \<le> n \<and> n < unat a mod 8 * 8 + 8
      then bit v (n - unat a mod 8 * 8) else bit (fm_mem m i) n)"
proof -
  have "unat a mod 8 * 8 + 8 \<le> 64"
    using mod_less_divisor [of 8 "unat a"] by simp
  then show ?thesis
    by (auto simp: fm_set_byte_def Let_def bit_simps byte_mask line_index
        dest: bit_imp_le_length)
qed

lemma same_address_iff:
  "b = (a::u16) \<longleftrightarrow> unat b div 8 = unat a div 8 \<and> unat b mod 8 = unat a mod 8"
  by (metis div_mult_mod_eq word_unat_eq_iff)

lemma get_set_byte: "fm_get_byte (fm_set_byte m a v) b = (if b = a then v else fm_get_byte m b)"
proof (rule bit_word_eqI)
  fix k :: nat
  assume "k < LENGTH(8)"
  then have k: "k < 8" by simp
  let ?n = "unat b mod 8 * 8 + k"
  have n: "unat a mod 8 * 8 \<le> ?n \<and> ?n < unat a mod 8 * 8 + 8 \<longleftrightarrow> unat b mod 8 = unat a mod 8"
    using k by auto
  show "bit (fm_get_byte (fm_set_byte m a v) b) k \<longleftrightarrow>
        bit (if b = a then v else fm_get_byte m b) k"
    using k n by (auto simp: bit_get_byte fm_mem_set_byte same_address_iff)
qed

interpretation lsu_bytes: byte_store fm_get_byte fm_set_byte
  by unfold_locales (rule get_set_byte)

lemma get_byte_visit [simp]: "fm_get_byte (fm_visit m) = fm_get_byte m"
  by (rule ext) (simp add: fm_get_byte_def fm_visit_def)

text \<open>An aligned line is the little-endian word of its eight bytes.\<close>

lemma line_is_le_load:
  assumes "unat a mod 8 = 0"
  shows "fm_mem m (unat (drop_bit 3 a)) = le_load (fm_get_byte m) a 8"
proof (rule bit_word_eqI)
  fix k :: nat
  assume "k < LENGTH(64)"
  then have k: "k div 8 < 8" by simp
  have small: "unat (of_nat (k div 8) :: u16) = k div 8"
    using k by (simp add: unsigned_of_nat take_bit_eq_mod)
  have "unat a + k div 8 < 65536"
  proof -
    have "unat a div 8 * 8 = unat a" using assms by auto
    moreover have "unat a div 8 < 8192" using unat_u16_less [of a] by auto
    ultimately show ?thesis using k by linarith
  qed
  then have "unat (a + of_nat (k div 8)) = unat a + k div 8"
    using small by (simp add: unat_word_ariths)
  then have "unat (a + of_nat (k div 8)) div 8 = unat a div 8"
    and "unat (a + of_nat (k div 8)) mod 8 = k div 8"
    using assms k by auto
  then show "bit (fm_mem m (unat (drop_bit 3 a))) k \<longleftrightarrow> bit (le_load (fm_get_byte m) a 8) k"
    using k \<open>k < LENGTH(64)\<close>
    by (simp add: bit_le_load bit_get_byte line_index)
qed

section \<open>Loads and stores over the byte view\<close>

lemma byte_is_le_load: "ucast (fm_get_byte m a) = le_load (fm_get_byte m) a 1"
  by (simp add: le_load_def)

lemma fm_loads:
  "fm_lb m a = Inr (load_value 1 True (fm_get_byte m) a, fm_visit m)"
  "unat a mod 2 = 0 \<Longrightarrow> fm_lh m a = Inr (load_value 2 True (fm_get_byte m) a, fm_visit m)"
  "unat a mod 4 = 0 \<Longrightarrow> fm_lw m a = Inr (load_value 4 True (fm_get_byte m) a, fm_visit m)"
  "unat a mod 8 = 0 \<Longrightarrow> fm_ld m a = Inr (load_value 8 True (fm_get_byte m) a, fm_visit m)"
  "fm_lbu m a = Inr (load_value 1 False (fm_get_byte m) a, fm_visit m)"
  "unat a mod 2 = 0 \<Longrightarrow> fm_lhu m a = Inr (load_value 2 False (fm_get_byte m) a, fm_visit m)"
  "unat a mod 4 = 0 \<Longrightarrow> fm_lwu m a = Inr (load_value 4 False (fm_get_byte m) a, fm_visit m)"
proof -
  show "fm_lb m a = Inr (load_value 1 True (fm_get_byte m) a, fm_visit m)"
    using sext8 [of "fm_get_byte m" a] by (simp add: fm_lb_def byte_is_le_load Let_def del: One_nat_def)
  show "unat a mod 2 = 0 \<Longrightarrow> fm_lh m a = Inr (load_value 2 True (fm_get_byte m) a, fm_visit m)"
    using sext16 [of "fm_get_byte m" a] by (simp add: fm_lh_def load_loop_2 Let_def)
  show "unat a mod 4 = 0 \<Longrightarrow> fm_lw m a = Inr (load_value 4 True (fm_get_byte m) a, fm_visit m)"
    using sext32 [of "fm_get_byte m" a]
      and_high_nonzero [of "le_load (fm_get_byte m) a 4" 31, OF le_load_bits [of 4, simplified]]
    by (simp add: fm_lw_def load_loop_4 sext_masks(4) Let_def)
  show "unat a mod 8 = 0 \<Longrightarrow> fm_ld m a = Inr (load_value 8 True (fm_get_byte m) a, fm_visit m)"
    by (simp add: fm_ld_def line_is_le_load sext64)
  show "fm_lbu m a = Inr (load_value 1 False (fm_get_byte m) a, fm_visit m)"
    by (simp add: fm_lbu_def byte_is_le_load load_value_def)
  show "unat a mod 2 = 0 \<Longrightarrow> fm_lhu m a = Inr (load_value 2 False (fm_get_byte m) a, fm_visit m)"
    by (simp add: fm_lhu_def load_loop_2 load_value_def)
  show "unat a mod 4 = 0 \<Longrightarrow> fm_lwu m a = Inr (load_value 4 False (fm_get_byte m) a, fm_visit m)"
    by (simp add: fm_lwu_def load_loop_4 load_value_def)
qed

lemma fm_sb_is_loop: "fm_sb m a d = Inr (store_loop fm_set_byte 1 a d (fm_visit m))"
proof -
  have "ucast (d AND 0xff) = (ucast d :: u8)"
    by (rule bit_word_eqI) (auto simp: bit_simps byte_mask)
  then show ?thesis by (simp add: fm_sb_def store_loop_def)
qed

lemma fm_stores:
  "res_map fm_get_byte (fm_sb m a d) = Inr (le_store (fm_get_byte m) a 1 d)"
  "unat a mod 2 = 0 \<Longrightarrow> res_map fm_get_byte (fm_sh m a d) = Inr (le_store (fm_get_byte m) a 2 d)"
  "unat a mod 4 = 0 \<Longrightarrow> res_map fm_get_byte (fm_sw m a d) = Inr (le_store (fm_get_byte m) a 4 d)"
  "unat a mod 8 = 0 \<Longrightarrow> res_map fm_get_byte (fm_sd m a d) = Inr (le_store (fm_get_byte m) a 8 d)"
  by (simp_all add: fm_sb_is_loop fm_sh_def fm_sw_def fm_sd_def lsu_bytes.get_store_loop)

section \<open>Properties\<close>

text \<open>
  C29. Stores: on the byte view of the memory, \<open>sb\<close>, \<open>sh\<close>, \<open>sw\<close> and \<open>sd\<close> write the 1, 2, 4 or 8
  low bytes of their data at consecutive addresses, lowest byte first, and nothing else; a
  misaligned address throws instead.
\<close>

theorem lsu_mem_stores:
  "res_map fm_get_byte (fm_sb m a d) = Inr (le_store (fm_get_byte m) a 1 d) \<and>
   res_map fm_get_byte (fm_sh m a d) =
     (if unat a mod 2 = 0 then Inr (le_store (fm_get_byte m) a 2 d) else Inl (Throw ''sh misalign'')) \<and>
   res_map fm_get_byte (fm_sw m a d) =
     (if unat a mod 4 = 0 then Inr (le_store (fm_get_byte m) a 4 d) else Inl (Throw ''sw misalign'')) \<and>
   res_map fm_get_byte (fm_sd m a d) =
     (if unat a mod 8 = 0 then Inr (le_store (fm_get_byte m) a 8 d) else Inl (Throw ''sd misalign''))"
proof (intro conjI)
  show "res_map fm_get_byte (fm_sh m a d) =
     (if unat a mod 2 = 0 then Inr (le_store (fm_get_byte m) a 2 d) else Inl (Throw ''sh misalign''))"
    using fm_stores(2) by (cases "unat a mod 2 = 0") (simp, simp add: fm_sh_def)
  show "res_map fm_get_byte (fm_sw m a d) =
     (if unat a mod 4 = 0 then Inr (le_store (fm_get_byte m) a 4 d) else Inl (Throw ''sw misalign''))"
    using fm_stores(3) by (cases "unat a mod 4 = 0") (simp, simp add: fm_sw_def)
  show "res_map fm_get_byte (fm_sd m a d) =
     (if unat a mod 8 = 0 then Inr (le_store (fm_get_byte m) a 8 d) else Inl (Throw ''sd misalign''))"
    using fm_stores(4) by (cases "unat a mod 8 = 0") (simp, simp add: fm_sd_def)
qed (rule fm_stores(1))

text \<open>
  C30. Loads: every load returns the sign- or zero-extended little-endian value of the bytes at
  its address, or throws on a misaligned one; the doubleword read of a whole array line agrees
  with the byte-wise loops of the narrower loads. Loads change nothing but the visit counter.
\<close>

theorem lsu_mem_loads:
  "fm_lb m a = Inr (load_value 1 True (fm_get_byte m) a, fm_visit m) \<and>
   fm_lh m a = (if unat a mod 2 = 0 then Inr (load_value 2 True (fm_get_byte m) a, fm_visit m)
                else Inl (Throw ''lh misalign'')) \<and>
   fm_lw m a = (if unat a mod 4 = 0 then Inr (load_value 4 True (fm_get_byte m) a, fm_visit m)
                else Inl (Throw ''lw misalign'')) \<and>
   fm_ld m a = (if unat a mod 8 = 0 then Inr (load_value 8 True (fm_get_byte m) a, fm_visit m)
                else Inl (Throw ''ld misalign'')) \<and>
   fm_lbu m a = Inr (load_value 1 False (fm_get_byte m) a, fm_visit m) \<and>
   fm_lhu m a = (if unat a mod 2 = 0 then Inr (load_value 2 False (fm_get_byte m) a, fm_visit m)
                 else Inl (Throw ''lhu misalign'')) \<and>
   fm_lwu m a = (if unat a mod 4 = 0 then Inr (load_value 4 False (fm_get_byte m) a, fm_visit m)
                 else Inl (Throw ''lwu misalign''))"
  unfolding fm_loads(1,5)
  by (cases "unat a mod 2 = 0"; cases "unat a mod 4 = 0"; cases "unat a mod 8 = 0")
    (simp_all add: fm_loads(2,3,4,6,7), simp_all add: fm_lh_def fm_lw_def fm_ld_def fm_lhu_def fm_lwu_def)

section \<open>Faults\<close>

text \<open>The only way an access fails is its alignment check.\<close>

definition misalign :: "fault \<Rightarrow> bool" where
  "misalign e \<longleftrightarrow>
     e \<in> Throw ` {''lh misalign'', ''lw misalign'', ''ld misalign'', ''lhu misalign'',
                  ''lwu misalign'', ''sh misalign'', ''sw misalign'', ''sd misalign''}"

lemma fm_load_faults:
  "fm_lb m a \<noteq> Inl e" "fm_lh m a = Inl e \<Longrightarrow> misalign e" "fm_lw m a = Inl e \<Longrightarrow> misalign e"
  "fm_ld m a = Inl e \<Longrightarrow> misalign e" "fm_lbu m a \<noteq> Inl e" "fm_lhu m a = Inl e \<Longrightarrow> misalign e"
  "fm_lwu m a = Inl e \<Longrightarrow> misalign e"
  by (auto simp: fm_lb_def fm_lh_def fm_lw_def fm_ld_def fm_lbu_def fm_lhu_def fm_lwu_def
      misalign_def Let_def split: if_splits)

lemma fm_store_faults:
  "fm_sb m a d \<noteq> Inl e" "fm_sh m a d = Inl e \<Longrightarrow> misalign e" "fm_sw m a d = Inl e \<Longrightarrow> misalign e"
  "fm_sd m a d = Inl e \<Longrightarrow> misalign e"
  by (auto simp: fm_sb_def fm_sh_def fm_sw_def fm_sd_def misalign_def split: if_splits)

lemmas fm_faults = fm_load_faults fm_store_faults

end
