(* ===== verification/Lsu_Monitor.thy ===== *)
theory Lsu_Monitor
  imports Monitor Lsu_Mem
begin

unbundle bit_operations_syntax

text \<open>
  The parts of \<open>sim/lsu_ut/monitor.cpp\<close> that the cache bench does not share: the fence check on
  the issue port of the load/store unit, the draw of memory and I/O requests, the replay of a
  committed request on the reference memory, and the final comparison of the two memories.
\<close>

section \<open>Fence check\<close>

text \<open>
  The fields \<open>_l1d_req_*\<close> and \<open>_bus_req_*\<close> have setters, which the bench never calls, and are
  never read: \<open>fence_eval_ports\<close> below shows that the check does not depend on them.
\<close>

record fence_check =
  fc_lsu_head :: u16
  fc_lsu_tail :: u16
  fc_fenced_vld :: bool
  fc_fenced_lsq_index :: u16
  fc_lsu_iss_vld :: bool
  fc_lsu_iss_is_fenced :: bool
  fc_lsu_iss_lsq_index :: u16
  fc_l1d_req_vld :: bool
  fc_l1d_req_is_fenced :: bool
  fc_l1d_req_lsq_index :: u16
  fc_bus_req_vld :: bool
  fc_bus_req_is_fenced :: bool
  fc_bus_req_lsq_index :: u16

definition fence_init :: fence_check where
  "fence_init =
     \<lparr>fc_lsu_head = 0, fc_lsu_tail = 0, fc_fenced_vld = False, fc_fenced_lsq_index = 0,
      fc_lsu_iss_vld = False, fc_lsu_iss_is_fenced = False, fc_lsu_iss_lsq_index = 0,
      fc_l1d_req_vld = False, fc_l1d_req_is_fenced = False, fc_l1d_req_lsq_index = 0,
      fc_bus_req_vld = False, fc_bus_req_is_fenced = False, fc_bus_req_lsq_index = 0\<rparr>"

definition mon_l1d_req_vld :: "bool \<Rightarrow> fence_check \<Rightarrow> fence_check" where
  "mon_l1d_req_vld v s = s\<lparr>fc_l1d_req_vld := v\<rparr>"

definition mon_l1d_req_is_fenced :: "bool \<Rightarrow> fence_check \<Rightarrow> fence_check" where
  "mon_l1d_req_is_fenced f s = s\<lparr>fc_l1d_req_is_fenced := f\<rparr>"

definition mon_l1d_req_rob_index :: "u16 \<Rightarrow> fence_check \<Rightarrow> fence_check" where
  "mon_l1d_req_rob_index ri s = s\<lparr>fc_l1d_req_lsq_index := ri\<rparr>"

definition mon_bus_req_vld :: "bool \<Rightarrow> fence_check \<Rightarrow> fence_check" where
  "mon_bus_req_vld v s = s\<lparr>fc_bus_req_vld := v\<rparr>"

definition mon_bus_req_is_fenced :: "bool \<Rightarrow> fence_check \<Rightarrow> fence_check" where
  "mon_bus_req_is_fenced f s = s\<lparr>fc_bus_req_is_fenced := f\<rparr>"

definition mon_bus_req_rob_index :: "u16 \<Rightarrow> fence_check \<Rightarrow> fence_check" where
  "mon_bus_req_rob_index ri s = s\<lparr>fc_bus_req_lsq_index := ri\<rparr>"

lemmas fence_ports_defs = mon_l1d_req_vld_def mon_l1d_req_is_fenced_def mon_l1d_req_rob_index_def
  mon_bus_req_vld_def mon_bus_req_is_fenced_def mon_bus_req_rob_index_def

text \<open>The debug ports of the unit that the bench copies into the monitor.\<close>

record fence_in =
  fi_head :: u16
  fi_tail :: u16
  fi_iss_vld :: bool
  fi_iss_is_fenced :: bool
  fi_iss_lsq_index :: u16

definition fence_set :: "fence_in \<Rightarrow> fence_check \<Rightarrow> fence_check" where
  "fence_set i s =
     s\<lparr>fc_lsu_head := fi_head i, fc_lsu_tail := fi_tail i, fc_lsu_iss_vld := fi_iss_vld i,
       fc_lsu_iss_is_fenced := fi_iss_is_fenced i, fc_lsu_iss_lsq_index := fi_iss_lsq_index i\<rparr>"

definition fence_retire :: "fence_check \<Rightarrow> fence_check" where
  "fence_retire s =
     (if fc_fenced_vld s \<and> (unat (fc_fenced_lsq_index s) + 1) mod LSQ_DEPTH = unat (fc_lsu_head s)
      then s\<lparr>fc_fenced_vld := False\<rparr> else s)"

definition fence_eval :: "fence_check \<Rightarrow> fence_check res" where
  "fence_eval s0 =
     (let s = fence_retire s0 in
      if fc_lsu_iss_vld s then
        if fc_fenced_vld s \<and> fc_lsu_iss_lsq_index s \<noteq> fc_fenced_lsq_index s then
          Inl (Throw ''all following requests shall not be issued before the fenced request has been issued'')
        else if fc_lsu_iss_is_fenced s then
          if fc_lsu_head s \<noteq> fc_lsu_iss_lsq_index s then
            Inl (Throw ''lsu issue fenced req before all previous requests have been committed'')
          else Inr (s\<lparr>fc_fenced_vld := True, fc_fenced_lsq_index := fc_lsu_iss_lsq_index s\<rparr>)
        else Inr s
      else Inr s)"

lemma fence_eval_ports:
  "fence_eval (mon_l1d_req_vld v s) = res_map (mon_l1d_req_vld v) (fence_eval s)"
  "fence_eval (mon_l1d_req_is_fenced v s) = res_map (mon_l1d_req_is_fenced v) (fence_eval s)"
  "fence_eval (mon_l1d_req_rob_index i s) = res_map (mon_l1d_req_rob_index i) (fence_eval s)"
  "fence_eval (mon_bus_req_vld v s) = res_map (mon_bus_req_vld v) (fence_eval s)"
  "fence_eval (mon_bus_req_is_fenced v s) = res_map (mon_bus_req_is_fenced v) (fence_eval s)"
  "fence_eval (mon_bus_req_rob_index i s) = res_map (mon_bus_req_rob_index i) (fence_eval s)"
  by (auto simp: fence_eval_def fence_retire_def fence_ports_defs Let_def)

definition fence_step :: "fence_in \<Rightarrow> fence_check \<Rightarrow> fence_check res" where
  "fence_step i s = fence_eval (fence_set i s)"

section \<open>Draw of a request\<close>

text \<open>\<open>op = rand() % 7; while (op != 3) op = rand() % 7;\<close>\<close>

partial_function (option) io_load_op :: "rng \<Rightarrow> (u8 \<times> rng) option" where
  "io_load_op r =
     (if fst (rand r) mod 7 = 3 then Some (of_nat (fst (rand r) mod 7), snd (rand r))
      else io_load_op (snd (rand r)))"

definition lsu_draw :: "rng \<Rightarrow> (draw \<times> rng) option" where
  "lsu_draw r =
     (let ((ls, fence, op, paddr_offset), r1) = draw_kind r;
          (v, r2) = rand r1
      in if v mod 10 = 0 then
           (if ls then (let (w, r3) = rand r2 in
                        Some ((ls, fence, of_nat (w mod 3), 0 + IO_ADDR_LOW), r3))
            else (case io_load_op r2 of
                    None \<Rightarrow> None
                  | Some (op', r3) \<Rightarrow> Some ((ls, fence, op', 0 + IO_ADDR_LOW), r3)))
         else Some ((ls, fence, op, 0x80000000 + paddr_offset), r2))"

section \<open>Replay of a committed request\<close>

definition lsu_load :: "lsu_mem \<Rightarrow> req \<Rightarrow> (u64 \<times> lsu_mem) res" where
  "lsu_load m r =
     (let a = ucast (paddr r) in
      if opcode r = LDU_LB then fm_lb m a
      else if opcode r = LDU_LH then fm_lh m a
      else if opcode r = LDU_LW then fm_lw m a
      else if opcode r = LDU_LD then
        res_bind (fm_ld m a) (\<lambda>(d, m1).
          if paddr r < 0x10000 then res_map (\<lambda>(_, m2). (d, m2)) (fm_ld m1 0) else Inr (d, m1))
      else if opcode r = LDU_LBU then fm_lbu m a
      else if opcode r = LDU_LHU then fm_lhu m a
      else if opcode r = LDU_LWU then fm_lwu m a
      else Inr (0, m))"

definition lsu_store :: "lsu_mem \<Rightarrow> req \<Rightarrow> lsu_mem res" where
  "lsu_store m r =
     (let a = ucast (paddr r) in
      if opcode r = STU_SB then fm_sb m a (data r)
      else if opcode r = STU_SH then fm_sh m a (data r)
      else if opcode r = STU_SW then fm_sw m a (data r)
      else if opcode r = STU_SD then
        (if paddr r < 0x10000 then
           res_bind (fm_sw m a (data r AND 0xffffffff))
             (\<lambda>m1. fm_sw m1 (ucast (paddr r + 4)) (drop_bit 32 (data r) AND 0xffffffff))
         else fm_sd m a (data r))
      else Inr m)"

definition lsu_check :: "lsu_mem \<Rightarrow> req \<Rightarrow> lsu_mem res" where
  "lsu_check m r =
     (if \<not> load_or_store r then
        res_bind (lsu_load m r)
          (\<lambda>(d, m1). if d \<noteq> data r then Inl (Throw ''load fail!'') else Inr m1)
      else lsu_store m r)"

section \<open>The monitor\<close>

record lsu_monitor =
  lm_core :: "lsu_mem monitor"
  lm_fence :: fence_check

definition lsu_mon_init :: "u64 \<Rightarrow> lsu_monitor" where
  "lsu_mon_init tm = \<lparr>lm_core = mon_init lsu_mem_init tm, lm_fence = fence_init\<rparr>"

definition lsu_mon_eval :: "u64 \<Rightarrow> rng \<Rightarrow> lsu_monitor \<Rightarrow> (lsu_monitor \<times> rng) res" where
  "lsu_mon_eval time r s =
     res_bind (fence_eval (lm_fence s)) (\<lambda>f.
     res_map (\<lambda>(c, r'). (\<lparr>lm_core = c, lm_fence = f\<rparr>, r'))
       (mon_eval lsu_draw 1 lsu_check time r (lm_core s)))"

text \<open>The final comparison; its log output on a mismatch is left out.\<close>

definition lsu_mem_check :: "lsu_mem \<Rightarrow> lsu_mem \<Rightarrow> bool" where
  "lsu_mem_check perfect real =
     list_all (\<lambda>i. fm_check perfect (of_nat i) = fm_check real (of_nat i)) [0..<LSU_MEM_MAX_SIZE]"

section \<open>Refinement of the sequential memory\<close>

lemma aligned_ucast: "unat (p::u64) mod 8 = 0 \<Longrightarrow> unat (ucast p :: u16) mod 8 = 0"
  by (simp add: unsigned_ucast_eq take_bit_eq_mod mod_mod_cancel)

lemma aligned_8_4_2: "unat (a::u16) mod 8 = 0 \<Longrightarrow> unat a mod 4 = 0 \<and> unat a mod 2 = 0"
  by presburger

lemma ucast_add_16: "ucast ((p::u64) + 4) = (ucast p + 4 :: u16)"
  by (rule word_unat_eq_iff [THEN iffD2])
    (simp only: unat_word_ariths unsigned_ucast_eq take_bit_eq_mod, simp add: mod_simps mod_mod_cancel)

lemma le_store_split:
  "le_store (le_store g a 4 (d AND 0xffffffff)) (a + 4) 4 (drop_bit 32 d AND 0xffffffff) =
   le_store g a 8 d"
proof
  fix b
  let ?k = "unat (b - a)"
  have mask: "(0xffffffff::u64) = mask 32" by (simp add: mask_eq_exp_minus_1)
  have low: "ucast (drop_bit (8 * k) (d AND 0xffffffff)) = (ucast (drop_bit (8 * k) d) :: u8)"
    if "k < 4" for k
    unfolding mask using that by (intro bit_word_eqI) (auto simp: bit_simps)
  have high: "ucast (drop_bit (8 * (k - 4)) (drop_bit 32 d AND 0xffffffff)) =
      (ucast (drop_bit (8 * k) d) :: u8)" if "4 \<le> k" "k < 8" for k
    unfolding mask using that
    by (intro bit_word_eqI) (auto simp: bit_simps diff_mult_distrib2 algebra_simps)
  have off: "unat (b - (a + 4)) = (if 4 \<le> ?k then ?k - 4 else ?k + 65532)"
  proof -
    have eq: "b - (a + 4) = (b - a) - 4" by simp
    show ?thesis
      unfolding eq using unat_u16_less [of "b - a"] unat_sub_if' [of "b - a" "4 :: u16"]
      by (auto simp: word_le_nat_alt)
  qed
  consider "?k < 4" | "4 \<le> ?k" "?k < 8" | "8 \<le> ?k" by linarith
  then show "le_store (le_store g a 4 (d AND 0xffffffff)) (a + 4) 4 (drop_bit 32 d AND 0xffffffff) b =
    le_store g a 8 d b"
    by cases (auto simp: le_store_def off low high simp del: drop_bit_and drop_bit_drop_bit)
qed

lemma lsu_load_refines:
  assumes "legal_key (req_key r)" and "\<not> load_or_store r"
  shows "\<exists>m'. lsu_load m r =
           Inr (load_value (ld_size (opcode r)) (ld_sign_extends (opcode r)) (fm_get_byte m)
                  (ucast (paddr r)), m') \<and> fm_get_byte m' = fm_get_byte m"
proof -
  have al: "unat (ucast (paddr r) :: u16) mod 8 = 0"
    using assms by (simp add: req_key_def aligned_ucast)
  have al': "unat (ucast (paddr r) :: u16) mod 4 = 0" "unat (ucast (paddr r) :: u16) mod 2 = 0"
    using aligned_8_4_2 [OF al] by simp_all
  have "opcode r < 7" using assms by (simp add: req_key_def)
  from legal_ops(2) [OF this] show ?thesis
    using al al'
    by (elim disjE) (simp_all add: lsu_load_def Let_def fm_loads ldu_ops ld_size_def ld_sign_extends_def)
qed

lemma lsu_store_refines:
  assumes "legal_key (req_key r)" and "load_or_store r"
  shows "res_map fm_get_byte (lsu_store m r) =
           Inr (le_store (fm_get_byte m) (ucast (paddr r)) (st_size (opcode r)) (data r))"
proof -
  let ?a = "ucast (paddr r) :: u16"
  have al: "unat ?a mod 8 = 0" using assms by (simp add: req_key_def aligned_ucast)
  have al': "unat ?a mod 4 = 0" "unat ?a mod 2 = 0" using aligned_8_4_2 [OF al] by simp_all
  have up: "ucast (paddr r + 4) = ?a + 4"
    by (rule ucast_add_16)
  have "unat (?a + 4) = (unat ?a + 4) mod 65536" by (simp only: unat_word_ariths) simp
  then have "unat (?a + 4) mod 4 = (unat ?a + 4) mod 4" by (simp add: mod_mod_cancel)
  also have "\<dots> = unat ?a mod 4" by (rule mod_add_self2)
  finally have al4: "unat (?a + 4) mod 4 = 0" using al'(1) by (rule trans)
  have sw: "\<exists>m'. fm_sw m b d = Inr m' \<and> fm_get_byte m' = le_store (fm_get_byte m) b 4 d"
    if "unat b mod 4 = 0" for m b d
    using fm_stores(3) [OF that, of m d] by auto
  obtain m1 m2 where "fm_sw m ?a (data r AND 0xffffffff) = Inr m1"
      "fm_get_byte m1 = le_store (fm_get_byte m) ?a 4 (data r AND 0xffffffff)"
      "fm_sw m1 (?a + 4) (drop_bit 32 (data r) AND 0xffffffff) = Inr m2"
      "fm_get_byte m2 = le_store (fm_get_byte m1) (?a + 4) 4 (drop_bit 32 (data r) AND 0xffffffff)"
    using sw [OF al'(1)] sw [OF al4] by metis
  then have sd: "res_map fm_get_byte (res_bind (fm_sw m ?a (data r AND 0xffffffff))
      (\<lambda>m1. fm_sw m1 (ucast (paddr r + 4)) (drop_bit 32 (data r) AND 0xffffffff))) =
    Inr (le_store (fm_get_byte m) ?a 8 (data r))"
    by (simp add: up le_store_split del: res_bind_Inr_iff)
  have "opcode r < 4" using assms by (simp add: req_key_def)
  from legal_ops(1) [OF this] show ?thesis
  proof (elim disjE)
    assume "opcode r = STU_SD"
    then show ?thesis
      using fm_stores(4) [OF al, of m "data r"] sd
      by (simp add: lsu_store_def Let_def stu_ops st_size_def del: res_map_Inr_iff)
  qed (use al' fm_stores in \<open>simp_all add: lsu_store_def Let_def stu_ops st_size_def del: res_map_Inr_iff\<close>)
qed

lemma lsu_check_refines:
  assumes "legal_key (req_key r)"
  shows "res_map fm_get_byte (lsu_check m r) = spec_commit (fm_get_byte m) r"
proof (cases "load_or_store r")
  case True
  then show ?thesis using lsu_store_refines [OF assms] by (simp add: lsu_check_def spec_commit_def)
next
  case False
  then show ?thesis
    using lsu_load_refines [OF assms False, of m] by (auto simp: lsu_check_def spec_commit_def)
qed

interpretation lsu_checker: commit_checker fm_get_byte fm_set_byte lsu_check
  by unfold_locales (rule lsu_check_refines)

section \<open>Draws\<close>

lemma snd_rand [simp]: "snd (rand r) n = r (Suc n)"
  by (simp add: rand_def)

lemma io_load_op_returns: "fst (rand (\<lambda>k. r (n + k))) mod 7 = 3 \<Longrightarrow> \<exists>x. io_load_op r = Some x"
proof (induction n arbitrary: r)
  case 0
  then show ?case by (subst io_load_op.simps) (simp add: rand_def)
next
  case (Suc n)
  then have "\<exists>x. io_load_op (snd (rand r)) = Some x"
    by (intro Suc.IH) (simp add: rand_def)
  then show ?case by (subst io_load_op.simps) simp
qed

lemma io_load_op_only_if:
  "io_load_op r = Some x \<Longrightarrow> fst x = LDU_LD \<and> (\<exists>n. (r n mod 2 ^ 31) mod 7 = 3)"
proof (induction rule: io_load_op.raw_induct [rotated, consumes 1])
  case (1 f r x)
  show ?case
  proof (cases "fst (rand r) mod 7 = 3")
    case True
    then show ?thesis using 1(2) by (auto simp: LDU_LD_def rand_def intro: exI [of _ 0])
  next
    case False
    then have "f (snd (rand r)) = Some x" using 1(2) by simp
    from 1(1) [OF this] show ?thesis by auto
  qed
qed

lemma lsu_draw_legal:
  "lsu_draw r = Some ((ls, f, op, pa), r') \<Longrightarrow> if ls then op < 4 else op < 7"
proof -
  assume d: "lsu_draw r = Some ((ls, f, op, pa), r')"
  obtain ls0 f0 op0 off r1 where k: "draw_kind r = ((ls0, f0, op0, off), r1)"
    by (metis prod_cases3 surj_pair)
  have store: "(of_nat (n mod 3) :: u8) < 4" for n
    using lt_of_nat_mod [of 3 n] by (simp add: word_less_nat_alt)
  show ?thesis
  proof (cases "fst (rand r1) mod 10 = 0 \<and> \<not> ls0")
    case True
    then obtain op' r3 where "io_load_op (snd (rand r1)) = Some (op', r3)" "op = op'" "\<not> ls"
      using d k by (auto simp: lsu_draw_def Let_def case_prod_beta split: option.splits)
    then show ?thesis using io_load_op_only_if by (fastforce simp: LDU_LD_def)
  next
    case False
    then have "ls = ls0 \<and> (op = op0 \<or> (ls0 \<and> (\<exists>n. op = of_nat (n mod 3))))"
      using d k by (auto simp: lsu_draw_def Let_def case_prod_beta split: if_splits)
    then show ?thesis using draw_kind_legal [OF k] store by auto
  qed
qed

section \<open>Fences\<close>

text \<open>
  While a fenced request is outstanding, that is until the queue head moves past it, the check
  accepts no issue of another request.
\<close>

lemma fence_step_holds:
  assumes "fence_step i s = Inr s'" and "fc_fenced_vld s"
    and "(unat (fc_fenced_lsq_index s) + 1) mod LSQ_DEPTH \<noteq> unat (fi_head i)"
  shows "fc_fenced_vld s' \<and> fc_fenced_lsq_index s' = fc_fenced_lsq_index s \<and>
         (fi_iss_vld i \<longrightarrow> fi_iss_lsq_index i = fc_fenced_lsq_index s)"
  using assms
  by (auto simp: fence_step_def fence_eval_def fence_retire_def fence_set_def Let_def split: if_splits)

lemma fence_step_sets:
  assumes "fence_step i s = Inr s'" and "fi_iss_vld i" and "fi_iss_is_fenced i"
  shows "fc_fenced_vld s' \<and> fc_fenced_lsq_index s' = fi_iss_lsq_index i \<and> fi_head i = fi_iss_lsq_index i"
  using assms
  by (auto simp: fence_step_def fence_eval_def fence_retire_def fence_set_def Let_def split: if_splits)

lemma fence_run_holds:
  assumes "run_res fence_step js s = Inr ss" and "fc_fenced_vld s"
    and "\<forall>j\<in>set js. (unat (fc_fenced_lsq_index s) + 1) mod LSQ_DEPTH \<noteq> unat (fi_head j)"
  shows "\<forall>j\<in>set js. fi_iss_vld j \<longrightarrow> fi_iss_lsq_index j = fc_fenced_lsq_index s"
  using assms
proof (induction js arbitrary: s ss)
  case Nil
  then show ?case by simp
next
  case (Cons j js)
  then obtain s' ss' where s': "fence_step j s = Inr s'" "run_res fence_step js s' = Inr ss'"
    by auto
  have keep: "fc_fenced_vld s' \<and> fc_fenced_lsq_index s' = fc_fenced_lsq_index s \<and>
      (fi_iss_vld j \<longrightarrow> fi_iss_lsq_index j = fc_fenced_lsq_index s)"
    using fence_step_holds [OF s'(1)] Cons.prems by simp
  then show ?case using Cons.IH [OF s'(2)] Cons.prems by simp
qed

section \<open>Properties\<close>

text \<open>
  C12. The replay of a legal committed request on the reference memory is the sequential memory:
  a store writes its bytes, a load passes exactly when the unit returned the extended
  little-endian value of the bytes, and \<open>load fail!\<close> is thrown otherwise. In particular the two
  word stores that replay a doubleword store to the I/O region write the same bytes as one
  doubleword store.
\<close>

theorem lsu_check_is_sequential:
  assumes "legal_key (req_key r)"
  shows "res_map fm_get_byte (lsu_check m r) = spec_commit (fm_get_byte m) r"
  by (rule lsu_checker.check_refines [OF assms])

theorem lsu_check_is_sequential_witness:
  "res_map fm_get_byte (lsu_check lsu_mem_init (mk_req 0x1000 5 1 0 1 False True 3)) =
   spec_commit (fm_get_byte lsu_mem_init) (mk_req 0x1000 5 1 0 1 False True 3)"
  by (rule lsu_check_is_sequential) (simp add: req_key_def mk_req_def)

text \<open>
  The loop that redraws the opcode of an I/O load returns if and only if \<open>rand()\<close> ever
  yields a value that is 3 modulo 7.
\<close>

theorem io_load_op_terminates:
  "(\<exists>op r'. io_load_op r = Some (op, r')) \<longleftrightarrow> (\<exists>n. (r n mod 2 ^ 31) mod 7 = 3)"
proof
  assume "\<exists>op r'. io_load_op r = Some (op, r')"
  then show "\<exists>n. (r n mod 2 ^ 31) mod 7 = 3" using io_load_op_only_if by blast
next
  assume "\<exists>n. (r n mod 2 ^ 31) mod 7 = 3"
  then obtain n where "(r n mod 2 ^ 31) mod 7 = 3" by blast
  then have "fst (rand (\<lambda>k. r (n + k))) mod 7 = 3" by (simp add: rand_def)
  from io_load_op_returns [OF this] show "\<exists>op r'. io_load_op r = Some (op, r')" by auto
qed

text \<open>
  C14. What the fence check lets pass: when a fenced request is issued, the head of the queue is
  that request, so all older ones are done; and from then until the head moves past it, no other
  request is issued.
\<close>

theorem fence_order:
  assumes "run_res fence_step (i # js) s = Inr ss" and "fi_iss_vld i" and "fi_iss_is_fenced i"
    and "\<forall>j\<in>set js. (unat (fi_iss_lsq_index i) + 1) mod LSQ_DEPTH \<noteq> unat (fi_head j)"
  shows "fi_head i = fi_iss_lsq_index i \<and>
         (\<forall>j\<in>set js. fi_iss_vld j \<longrightarrow> fi_iss_lsq_index j = fi_iss_lsq_index i)"
proof -
  obtain s' ss' where s': "fence_step i s = Inr s'" "run_res fence_step js s' = Inr ss'"
    using assms(1) by auto
  have first: "fc_fenced_vld s'" "fc_fenced_lsq_index s' = fi_iss_lsq_index i"
      "fi_head i = fi_iss_lsq_index i"
    using fence_step_sets [OF s'(1) assms(2,3)] by blast+
  have "\<forall>j\<in>set js. fi_iss_vld j \<longrightarrow> fi_iss_lsq_index j = fc_fenced_lsq_index s'"
    by (rule fence_run_holds [OF s'(2) first(1)]) (use assms(4) in \<open>simp only: first(2)\<close>)
  then show ?thesis using first by (simp only: first(2))
qed

definition demo_fence :: "bool \<Rightarrow> u16 \<Rightarrow> fence_in" where
  "demo_fence vld idx = \<lparr>fi_head = 2, fi_tail = 5, fi_iss_vld = vld, fi_iss_is_fenced = vld,
                         fi_iss_lsq_index = idx\<rparr>"

theorem fence_order_witness:
  "\<exists>ss. run_res fence_step [demo_fence True 2, demo_fence False 3] fence_init = Inr ss \<and>
        fi_head (demo_fence True 2) = fi_iss_lsq_index (demo_fence True 2)"
proof -
  have "case run_res fence_step [demo_fence True 2, demo_fence False 3] fence_init of
      Inl _ \<Rightarrow> False | Inr _ \<Rightarrow> True" by code_simp
  then obtain ss where ss: "run_res fence_step [demo_fence True 2, demo_fence False 3] fence_init = Inr ss"
    by (auto split: sum.splits)
  have "fi_head (demo_fence True 2) = fi_iss_lsq_index (demo_fence True 2)"
    by (rule fence_order [OF ss, THEN conjunct1]) (simp_all add: demo_fence_def size_params)
  then show ?thesis using ss by blast
qed

end
