(* ===== verification/Lockstep.thy ===== *)
theory Lockstep
  imports Monitor
begin

text \<open>
  Monitor and reorder buffer run in lock step in both benches: before an evaluation the bench
  copies the offered request to the buffer and the committed one back, with the buffer's ready
  flag. Here the two are composed, the unit under test being an arbitrary source of responses,
  and the invariant that ties the monitor's issue queue to the buffer is carried through every
  evaluation.
\<close>

section \<open>Composition\<close>

record 'm bench_core =
  bc_mon :: "'m monitor"
  bc_rcu :: rcu
  bc_rng :: rng

text \<open>The ports of the unit under test that reach the reorder buffer.\<close>

record unit_out =
  uo_rdy :: bool
  uo_comm_vld :: bool
  uo_comm_data :: u64
  uo_comm_rob_index :: u8
  uo_comm_rd_addr :: u8

definition connect_rcu :: "unit_out \<Rightarrow> 'm monitor \<Rightarrow> rcu_in" where
  "connect_rcu u m =
     \<lparr>in_lsu_rdy = uo_rdy u, in_resp_vld = uo_comm_vld u,
      in_resp = mk_line 0 (uo_comm_data u) (uo_comm_rob_index u) (uo_comm_rd_addr u) 0 False
                  (uo_comm_rd_addr u = 0) 0,
      in_req_vld = mn_req_vld m, in_req = mn_req m\<rparr>"

definition connect_mon :: "rcu \<Rightarrow> 'm monitor \<Rightarrow> 'm monitor" where
  "connect_mon c m = mon_set (rcu_rdy c) (new_comm_vld c) (new_comm c) m"

definition core_tick ::
    "(rcu_in \<Rightarrow> rcu \<Rightarrow> rcu res) \<Rightarrow> (u64 \<Rightarrow> rng \<Rightarrow> 'm monitor \<Rightarrow> ('m monitor \<times> rng) res) \<Rightarrow>
     u64 \<times> unit_out \<Rightarrow> 'm bench_core \<Rightarrow> 'm bench_core res" where
  "core_tick rcu_step mon_step tu s =
     res_bind (mon_step (fst tu) (bc_rng s) (connect_mon (bc_rcu s) (bc_mon s))) (\<lambda>(m, r).
     res_map (\<lambda>c. \<lparr>bc_mon = m, bc_rcu = c, bc_rng = r\<rparr>)
       (rcu_step (connect_rcu (snd tu) (bc_mon s)) (bc_rcu s)))"

definition core_init :: "'m \<Rightarrow> u64 \<Rightarrow> rng \<Rightarrow> 'm bench_core" where
  "core_init m tm r = \<lparr>bc_mon = mon_init m tm, bc_rcu = rcu_init, bc_rng = r\<rparr>"

section \<open>The monitor's invariant\<close>

definition loads :: "req_key list \<Rightarrow> nat" where
  "loads ks = length (filter (\<lambda>(pa, ls, op, f). \<not> ls) ks)"

definition mon_inv :: "'m monitor \<Rightarrow> req_key list \<Rightarrow> bool" where
  "mon_inv s ks \<longleftrightarrow>
     map req_key (mn_iss_que s) = ks \<and> list_all legal_key ks \<and>
     (mn_req_vld s \<longrightarrow> legal_key (req_key (mn_req s))) \<and>
     length (mn_rd_free_list s) + loads ks = 63 \<and>
     unat (mn_req_iss_num s) = unat (mn_resp_comm_num s) + length ks \<and>
     unat (mn_req_iss_num s) \<le> unat (mn_testcase_max s) \<and>
     (mn_req_vld s \<longrightarrow> unat (mn_req_iss_num s) < unat (mn_testcase_max s)) \<and>
     unat (mn_testcase_max s) < 2 ^ 32"

lemma loads_simps [simp]:
  "loads [] = 0" "loads (ks @ ks') = loads ks + loads ks'"
  "loads ((pa, ls, op, f) # ks) = (if ls then 0 else 1) + loads ks"
  by (simp_all add: loads_def)

lemma loads_le: "loads ks \<le> length ks"
  by (simp add: loads_def)

lemma loads_key [simp]: "loads [req_key r] = (if load_or_store r then 0 else 1)"
  by (simp add: req_key_def)

lemma mon_inv_set [simp]: "mon_inv (mon_set rdy vld r s) ks = mon_inv s ks"
  by (simp add: mon_inv_def mon_set_def)

lemma mon_inv_init: "unat tm < 2 ^ 32 \<Longrightarrow> mon_inv (mon_init m tm) []"
  by (simp add: mon_inv_def mon_init_def)

lemma unat_Suc_u32: "unat (n::u32) < k \<Longrightarrow> k < 2 ^ 32 \<Longrightarrow> unat (n + 1) = unat n + 1"
  by (simp add: unat_word_ariths)

definition offered :: "'m monitor \<Rightarrow> req_key list" where
  "offered s = (if mn_rcu_ready s \<and> mn_req_vld s then [req_key (mn_req s)] else [])"

lemma mon_accept_ok:
  assumes inv: "mon_inv s ks" and len: "length ks \<le> 17"
  shows "\<exists>s1. mon_accept s = Inr s1 \<and> mon_inv s1 (ks @ offered s) \<and>
              mn_resp_vld s1 = mn_resp_vld s \<and> mn_resp s1 = mn_resp s \<and> mn_mem s1 = mn_mem s \<and>
              mn_resp_comm_num s1 = mn_resp_comm_num s"
proof -
  have free: "mn_rd_free_list s \<noteq> []"
    using inv len loads_le [of ks] by (auto simp: mon_inv_def)
  then obtain rd rds where rds: "mn_rd_free_list s = rd # rds" by (cases "mn_rd_free_list s") auto
  show ?thesis
  proof (cases "mn_rcu_ready s \<and> mn_req_vld s")
    case True
    have "unat (mn_req_iss_num s + 1) = unat (mn_req_iss_num s) + 1"
      using inv True unat_Suc_u32 by (auto simp: mon_inv_def)
    then show ?thesis
      using inv True rds by (auto simp: mon_accept_def mon_inv_def offered_def Let_def)
  next
    case False
    then show ?thesis using inv by (auto simp: mon_accept_def offered_def)
  qed
qed

lemma mon_send_ok:
  assumes legal: "\<And>r ls f op pa r'. draw r = Some ((ls, f, op, pa), r') \<Longrightarrow> if ls then op < 4 else op < 7"
    and inv: "mon_inv s ks" and sent: "mon_send draw rob time r s = Inr (s', r')"
  shows "mon_inv s' ks \<and> mn_resp_vld s' = mn_resp_vld s \<and> mn_resp s' = mn_resp s \<and> mn_mem s' = mn_mem s \<and>
         mn_resp_comm_num s' = mn_resp_comm_num s"
proof (cases "fst (rand r) mod 3 = 0 \<and> ucast (mn_req_iss_num s) < mn_testcase_max s")
  case False
  then have "mon_send draw rob time r s = Inr (s, snd (rand r))"
    by (simp only: mon_send_def Let_def case_prod_beta if_False)
  then show ?thesis using sent inv by simp
next
  case True
  then obtain ls f op pa r2 where d: "draw (snd (rand r)) = Some ((ls, f, op, pa), r2)"
    using sent by (auto simp: mon_send_def Let_def case_prod_beta split: option.splits)
  let ?rq = "mn_req s'"
  have s': "mn_req_vld s'" "req_key ?rq = (pa AND NOT 7, ls, op, f)"
      "mn_iss_que s' = mn_iss_que s" "mn_rd_free_list s' = mn_rd_free_list s"
      "mn_req_iss_num s' = mn_req_iss_num s" "mn_resp_comm_num s' = mn_resp_comm_num s"
      "mn_testcase_max s' = mn_testcase_max s" "mn_resp_vld s' = mn_resp_vld s"
      "mn_resp s' = mn_resp s" "mn_mem s' = mn_mem s"
    using sent True d
    by (auto simp: mon_send_def Let_def case_prod_beta req_key_def mk_req_def split: if_splits)
  have "unat (mn_req_iss_num s) < unat (mn_testcase_max s)"
    using True by (simp add: word_less_nat_alt unat_ucast_32_64)
  then show ?thesis
    using inv legal [OF d] s' aligned_mask [of pa] by (auto simp: mon_inv_def)
qed

lemma mon_send_fault:
  assumes "mon_inv s ks" and "length ks \<le> 18" and "mon_send draw rob time r s = Inl e"
  shows "e = Spins \<and> draw (snd (rand r)) = None"
proof -
  have "mn_rd_free_list s \<noteq> []"
    using assms(1,2) loads_le [of ks] by (auto simp: mon_inv_def)
  then show ?thesis
    using assms(3) by (auto simp: mon_send_def Let_def case_prod_beta split: if_splits option.splits)
qed

lemma mon_retire_ok:
  assumes "mon_inv s ks" and "mn_resp_vld s \<Longrightarrow> ks = req_key (mn_resp s) # ks'"
    and "\<not> mn_resp_vld s \<Longrightarrow> ks' = ks"
    and "mon_retire check s = Inr s'"
  shows "mon_inv s' ks' \<and>
         (if mn_resp_vld s then check (mn_mem s) (mn_resp s) = Inr (mn_mem s') \<and>
            unat (mn_resp_comm_num s') = unat (mn_resp_comm_num s) + 1
          else mn_mem s' = mn_mem s \<and> mn_resp_comm_num s' = mn_resp_comm_num s)"
proof (cases "mn_resp_vld s")
  case False
  then show ?thesis using assms by (auto simp: mon_retire_def)
next
  case True
  then obtain q qs m where q: "mn_iss_que s = q # qs" "check (mn_mem s) (mn_resp s) = Inr m"
    "s' = s\<lparr>mn_resp_vld := False, mn_resp_comm_num := mn_resp_comm_num s + 1, mn_iss_que := qs,
            mn_rd_free_list := mn_rd_free_list s @
              (if load_or_store (mn_resp s) then [] else [rd_addr (mn_resp s)]), mn_mem := m\<rparr>"
    using assms(4) by (auto simp: mon_retire_def split: list.splits if_splits)
  have "unat (mn_resp_comm_num s + 1) = unat (mn_resp_comm_num s) + 1"
    using assms(1,2) True unat_Suc_u32 [of "mn_resp_comm_num s" "unat (mn_testcase_max s)"]
    by (auto simp: mon_inv_def)
  then show ?thesis
    using assms(1,2) True q by (auto simp: mon_inv_def req_key_def)
qed

lemma mon_retire_fault:
  assumes "mon_inv s ks" and "mn_resp_vld s \<Longrightarrow> ks = req_key (mn_resp s) # ks'"
    and "mon_retire check s = Inl e"
  shows "mn_resp_vld s \<and> check (mn_mem s) (mn_resp s) = Inl e"
  using assms by (auto simp: mon_retire_def mon_inv_def req_key_def split: list.splits if_splits)

section \<open>The invariant of the composition\<close>

definition core_inv :: "'m bench_core \<Rightarrow> bool" where
  "core_inv s \<longleftrightarrow>
     mon_inv (bc_mon s) (rcu_committed (bc_rcu s) @ rcu_held (bc_rcu s)) \<and>
     length (rcu_held (bc_rcu s)) \<le> RCU_MAX_SIZE"

text \<open>The requests the monitor replays, oldest first.\<close>

definition commits_of :: "'m bench_core \<Rightarrow> req list" where
  "commits_of s = (if new_comm_vld (bc_rcu s) then [new_comm (bc_rcu s)] else [])"

fun spec_run :: "(u16 \<Rightarrow> u8) \<Rightarrow> req list \<Rightarrow> (u16 \<Rightarrow> u8) res" where
  "spec_run g [] = Inr g"
| "spec_run g (r # rs) = res_bind (spec_commit g r) (\<lambda>g'. spec_run g' rs)"

lemma spec_run_append: "spec_run g (rs @ rs') = res_bind (spec_run g rs) (\<lambda>g'. spec_run g' rs')"
proof (induction rs arbitrary: g)
  case Nil
  then show ?case by simp
next
  case (Cons r rs)
  then show ?case by (cases "spec_commit g r") simp_all
qed

lemma rcu_held_set [simp]: "rcu_held (rcu_set i c) = rcu_held c" "rcu_committed (rcu_set i c) = rcu_committed c"
    "rcu_set j (rcu_set i c) = rcu_set j c"
  by (simp_all add: rcu_held_def rcu_committed_def rcu_set_def)

lemma core_inv_init: "unat tm < 2 ^ 32 \<Longrightarrow> core_inv (core_init m tm r)"
  by (simp add: core_inv_def core_init_def mon_inv_init rcu_init_def rcu_committed_def rcu_held_def)

lemma offered_accepts: "offered (connect_mon c m) = rcu_accepts (connect_rcu u m) c"
  by (simp add: offered_def connect_mon_def mon_set_def rcu_accepts_def connect_rcu_def)

lemma core_inv_done:
  assumes "core_inv s" and "ut_done (bc_mon s)"
  shows "mn_iss_que (bc_mon s) = [] \<and> rcu_q (bc_rcu s) = [] \<and> \<not> new_comm_vld (bc_rcu s)"
proof -
  have "unat (mn_req_iss_num (bc_mon s)) = unat (mn_resp_comm_num (bc_mon s))"
    using assms(2) unat_ucast_32_64 by (metis ut_done_def)
  then have "rcu_committed (bc_rcu s) @ rcu_held (bc_rcu s) = []"
    using assms(1) by (simp add: core_inv_def mon_inv_def)
  then show ?thesis
    using assms(1) by (auto simp: core_inv_def mon_inv_def rcu_held_def rcu_committed_def split: if_splits)
qed

locale lockstep =
  station: bounded_station rcu_step rcu_held rcu_accepts rcu_committed RCU_MAX_SIZE +
  checker: commit_checker get put check
  for rcu_step :: "rcu_in \<Rightarrow> rcu \<Rightarrow> rcu res"
    and get :: "'m \<Rightarrow> u16 \<Rightarrow> u8" and put :: "'m \<Rightarrow> u16 \<Rightarrow> u8 \<Rightarrow> 'm" and check :: "'m \<Rightarrow> req \<Rightarrow> 'm res" +
  fixes draw :: "rng \<Rightarrow> (draw \<times> rng) option" and rob :: u8
  assumes draw_legal: "draw r = Some ((ls, f, op, pa), r') \<Longrightarrow> if ls then op < 4 else op < 7"
begin

text \<open>
  What the monitor does with one evaluation: it accepts, sends and retires without a fault of
  its own, and its issue queue follows the buffer.
\<close>

lemma mon_tick:
  fixes time :: u64 and u :: unit_out
  assumes inv: "core_inv s"
  defines "m \<equiv> connect_mon (bc_rcu s) (bc_mon s)"
    and "ks \<equiv> rcu_held (bc_rcu s) @ rcu_accepts (connect_rcu u (bc_mon s)) (bc_rcu s)"
  shows "mon_eval draw rob check time (bc_rng s) m = Inr (m', r') \<Longrightarrow>
           mon_inv m' ks \<and> spec_run (get (mn_mem (bc_mon s))) (commits_of s) = Inr (get (mn_mem m')) \<and>
           unat (mn_resp_comm_num m') = unat (mn_resp_comm_num (bc_mon s)) + length (commits_of s)"
    and "mon_eval draw rob check time (bc_rng s) m = Inl e \<Longrightarrow>
           e = Throw ''load fail!'' \<and> spec_run (get (mn_mem (bc_mon s))) (commits_of s) = Inl e \<or>
           e = Spins \<and> draw (snd (rand (bc_rng s))) = None"
proof -
  let ?c = "rcu_committed (bc_rcu s)"
  have minv: "mon_inv m (?c @ rcu_held (bc_rcu s))"
    using inv by (simp add: core_inv_def m_def connect_mon_def)
  have len: "length (?c @ rcu_held (bc_rcu s)) \<le> 17"
    using inv by (simp add: core_inv_def rcu_committed_def size_params)
  obtain s1 where s1: "mon_accept m = Inr s1" "mon_inv s1 (?c @ ks)" "mn_resp_vld s1 = mn_resp_vld m"
      "mn_resp s1 = mn_resp m" "mn_mem s1 = mn_mem m" "mn_resp_comm_num s1 = mn_resp_comm_num m"
    using mon_accept_ok [OF minv len] offered_accepts [of "bc_rcu s" "bc_mon s" u]
    by (auto simp: m_def ks_def)
  have resp: "mn_resp_vld m = new_comm_vld (bc_rcu s)" "mn_resp m = new_comm (bc_rcu s)"
      "mn_mem m = mn_mem (bc_mon s)" "mn_resp_comm_num m = mn_resp_comm_num (bc_mon s)"
    by (simp_all add: m_def connect_mon_def mon_set_def)
  have len1: "length (?c @ ks) \<le> 18"
    using len by (simp add: ks_def rcu_accepts_def)
  have legal: "legal_key (req_key (mn_resp m))" if "mn_resp_vld m"
    using minv that resp by (auto simp: mon_inv_def rcu_committed_def)
  have sent: "mon_inv s2 (?c @ ks) \<and> mn_resp_vld s2 = mn_resp_vld m \<and> mn_resp s2 = mn_resp m \<and>
      mn_mem s2 = mn_mem m \<and> mn_resp_comm_num s2 = mn_resp_comm_num m"
    if "mon_send draw rob time (bc_rng s) s1 = Inr (s2, r2)" for s2 r2
    using mon_send_ok [OF draw_legal s1(2) that] s1 by simp
  have c: "?c @ ks = req_key (mn_resp m) # ks" if "mn_resp_vld m"
    using that resp by (simp add: rcu_committed_def)
  have c': "ks = ?c @ ks" if "\<not> mn_resp_vld m"
    using that resp by (simp add: rcu_committed_def)
  show "mon_inv m' ks \<and> spec_run (get (mn_mem (bc_mon s))) (commits_of s) = Inr (get (mn_mem m')) \<and>
      unat (mn_resp_comm_num m') = unat (mn_resp_comm_num (bc_mon s)) + length (commits_of s)"
    if ok: "mon_eval draw rob check time (bc_rng s) m = Inr (m', r')"
  proof -
    obtain s2 where s2: "mon_send draw rob time (bc_rng s) s1 = Inr (s2, r')"
        "mon_retire check s2 = Inr m'"
      using ok s1(1) by (auto simp: mon_eval_def)
    have "mon_inv m' ks \<and> (if mn_resp_vld m then check (mn_mem m) (mn_resp m) = Inr (mn_mem m') \<and>
          unat (mn_resp_comm_num m') = unat (mn_resp_comm_num m) + 1
        else mn_mem m' = mn_mem m \<and> mn_resp_comm_num m' = mn_resp_comm_num m)"
      using mon_retire_ok [of s2 "?c @ ks" ks check m'] sent [OF s2(1)] c c' s2(2)
      by (auto split: if_splits)
    then show ?thesis
      using checker.check_ok [OF legal] resp by (auto simp: commits_of_def split: if_splits)
  qed
  show "e = Throw ''load fail!'' \<and> spec_run (get (mn_mem (bc_mon s))) (commits_of s) = Inl e \<or>
      e = Spins \<and> draw (snd (rand (bc_rng s))) = None"
    if bad: "mon_eval draw rob check time (bc_rng s) m = Inl e"
  proof (cases "mon_send draw rob time (bc_rng s) s1")
    case (Inl e')
    then show ?thesis using bad s1(1) mon_send_fault [OF s1(2) len1 Inl] by (auto simp: mon_eval_def)
  next
    case (Inr p)
    obtain s2 r2 where p: "p = (s2, r2)" by fastforce
    have s2: "mon_inv s2 (?c @ ks)" "mn_resp_vld s2 = mn_resp_vld m" "mn_resp s2 = mn_resp m" "mn_mem s2 = mn_mem m"
      using sent [OF Inr [unfolded p]] by auto
    have "mon_retire check s2 = Inl e" using bad s1(1) Inr p by (auto simp: mon_eval_def)
    from mon_retire_fault [OF s2(1) _ this, of ks] have chk: "mn_resp_vld m" "check (mn_mem m) (mn_resp m) = Inl e"
      using c s2 by auto
    then have "spec_commit (get (mn_mem m)) (mn_resp m) = Inl e"
      using checker.check_refines [OF legal, of "mn_mem m"] by simp
    then show ?thesis
      using checker.check_fault [OF legal [OF chk(1)] chk(2)] chk(1) resp by (simp add: commits_of_def)
  qed
qed

abbreviation tick :: "u64 \<times> unit_out \<Rightarrow> 'm bench_core \<Rightarrow> 'm bench_core res" where
  "tick \<equiv> core_tick rcu_step (mon_eval draw rob check)"

lemma tick_inv:
  assumes "core_inv s" and "tick tu s = Inr s'"
  shows "core_inv s' \<and>
         spec_run (get (mn_mem (bc_mon s))) (commits_of s) = Inr (get (mn_mem (bc_mon s'))) \<and>
         unat (mn_resp_comm_num (bc_mon s')) =
           unat (mn_resp_comm_num (bc_mon s)) + length (commits_of s)"
proof -
  obtain m r c where m: "mon_eval draw rob check (fst tu) (bc_rng s) (connect_mon (bc_rcu s) (bc_mon s)) = Inr (m, r)"
    and c: "rcu_step (connect_rcu (snd tu) (bc_mon s)) (bc_rcu s) = Inr c"
    and s': "s' = \<lparr>bc_mon = m, bc_rcu = c, bc_rng = r\<rparr>"
    using assms(2) by (auto simp: core_tick_def)
  show ?thesis
    using mon_tick(1) [OF assms(1) m, of "snd tu"] station.step_order [OF c]
      station.step_capacity [OF c] assms(1) s' by (simp add: core_inv_def)
qed

lemma tick_fault:
  assumes "core_inv s" and "tick tu s = Inl e"
  shows "e = Throw ''load fail!'' \<or> (e = Spins \<and> (\<exists>r. draw r = None)) \<or>
         rcu_step (connect_rcu (snd tu) (bc_mon s)) (bc_rcu s) = Inl e"
  using assms(2) mon_tick(2) [OF assms(1)] by (auto simp: core_tick_def)

lemma run_inv:
  "run_res tick tus s = Inr ss \<Longrightarrow> core_inv s \<Longrightarrow>
   core_inv (last (s # ss)) \<and>
   spec_run (get (mn_mem (bc_mon s))) (concat (map commits_of (butlast (s # ss)))) =
     Inr (get (mn_mem (bc_mon (last (s # ss)))))"
proof (induction tus arbitrary: s ss)
  case Nil
  then show ?case by simp
next
  case (Cons tu tus)
  then obtain s' ss' where s': "tick tu s = Inr s'" "run_res tick tus s' = Inr ss'" "ss = s' # ss'"
    by auto
  have "core_inv s'" using tick_inv [OF Cons.prems(2) s'(1)] by simp
  then show ?case
    using Cons.IH [OF s'(2)] tick_inv [OF Cons.prems(2) s'(1)] s'(3)
    by (simp add: spec_run_append)
qed

lemma run_fault:
  "run_res tick tus s = Inl e \<Longrightarrow> core_inv s \<Longrightarrow>
   e = Throw ''load fail!'' \<or> (e = Spins \<and> (\<exists>r. draw r = None)) \<or> (\<exists>i c. rcu_step i c = Inl e)"
proof (induction tus arbitrary: s)
  case Nil
  then show ?case by simp
next
  case (Cons tu tus)
  show ?case
  proof (cases "tick tu s")
    case (Inl e')
    then show ?thesis using tick_fault [OF Cons.prems(2) Inl] Cons.prems(1) by auto
  next
    case (Inr s')
    then show ?thesis using Cons tick_inv [OF Cons.prems(2) Inr] by auto
  qed
qed

end

section \<open>What an evaluation keeps\<close>

lemma mon_eval_max:
  assumes "mon_eval draw rob check time r s = Inr (s', r')"
  shows "mn_testcase_max s' = mn_testcase_max s"
proof -
  have send: "mon_send draw rob time r t = Inr (t', r'') \<Longrightarrow> mn_testcase_max t' = mn_testcase_max t" for t t' r''
    by (cases "fst (rand r) mod 3 = 0 \<and> ucast (mn_req_iss_num t) < mn_testcase_max t")
      (auto simp: mon_send_def Let_def case_prod_beta split: if_splits option.splits)
  have "mon_accept s = Inr t \<Longrightarrow> mn_testcase_max t = mn_testcase_max s" for t
    by (auto simp: mon_accept_def Let_def split: if_splits list.splits)
  moreover have "mon_retire check t = Inr t' \<Longrightarrow> mn_testcase_max t' = mn_testcase_max t" for t t'
    by (auto simp: mon_retire_def split: if_splits list.splits)
  ultimately show ?thesis using assms send by (fastforce simp: mon_eval_def)
qed

end
