(* ===== verification/Bench_Loop.thy ===== *)
theory Bench_Loop
  imports Prelude
begin

text \<open>
  The main loops of the benches have one shape: as long as a condition holds that bounds the time, one
  time step is taken, and a fault of a step is the fault of the loop. The interface \<open>bench_loop\<close> states
  this shape, and what it gives: an invariant of the step is one of the loop, and a fault of the loop is
  the fault of one step in a state the loop passed through. \<open>traced_loop\<close> adds what is observed in each
  step. The theories of the benches interpret them on their loops.
\<close>

text \<open>The states a loop passes through.\<close>

inductive bench_reach :: "('s \<Rightarrow> 's res) \<Rightarrow> 's \<Rightarrow> 's \<Rightarrow> bool" for step s0 where
  start: "bench_reach step s0 s0"
| step: "bench_reach step s0 s \<Longrightarrow> step s = Inr s' \<Longrightarrow> bench_reach step s0 s'"

lemma bench_reach_Cons:
  assumes "bench_reach step s1 s'" and "step s = Inr s1"
  shows "bench_reach step s s'"
  using assms by (induction rule: bench_reach.induct) (auto intro: bench_reach.intros)

locale bench_loop =
  fixes step :: "'s \<Rightarrow> 's res"
    and loop :: "'s \<Rightarrow> 's res"
    and cont :: "'s \<Rightarrow> bool"
    and time :: "'s \<Rightarrow> nat"
    and limit :: nat
  assumes loop_unfold: "loop s = (if cont s then (case step s of Inl e \<Rightarrow> Inl e | Inr s' \<Rightarrow> loop s') else Inr s)"
    and step_time: "step s = Inr s' \<Longrightarrow> time s' = Suc (time s)"
    and cont_time: "cont s \<Longrightarrow> time s < limit"
begin

lemma loop_induct [case_names stop fault next_step]:
  assumes "\<And>s. \<not> cont s \<Longrightarrow> P s"
    and "\<And>s e. cont s \<Longrightarrow> step s = Inl e \<Longrightarrow> P s"
    and "\<And>s s1. cont s \<Longrightarrow> step s = Inr s1 \<Longrightarrow> P s1 \<Longrightarrow> P s"
  shows "P s"
proof (induction "limit - time s" arbitrary: s rule: less_induct)
  case less
  show ?case
  proof (cases "cont s")
    case True
    show ?thesis
    proof (cases "step s")
      case (Inr s1)
      then show ?thesis
        using less [of s1] assms(3) [OF True Inr] step_time [OF Inr] cont_time [OF True] by simp
    qed (rule assms(2) [OF True])
  qed (rule assms(1))
qed

lemma loop_stop: "\<not> cont s \<Longrightarrow> loop s = Inr s"
  by (subst loop_unfold) simp

lemma loop_step: "cont s \<Longrightarrow> step s = Inr s1 \<Longrightarrow> loop s = loop s1"
  by (subst loop_unfold) simp

lemma loop_step_fault: "cont s \<Longrightarrow> step s = Inl e \<Longrightarrow> loop s = Inl e"
  by (subst loop_unfold) simp

lemma loop_invariant:
  assumes "loop s = Inr s'" and "I s" and "\<And>s s1. I s \<Longrightarrow> cont s \<Longrightarrow> step s = Inr s1 \<Longrightarrow> I s1"
  shows "I s' \<and> \<not> cont s'"
  using assms(1,2)
proof (induction s rule: loop_induct)
  case (next_step s s1)
  then show ?case using assms(3) loop_step by metis
qed (auto simp: loop_stop loop_step_fault)

lemma loop_time:
  assumes "loop s = Inr s'" and "time s \<le> limit"
  shows "time s' \<le> limit"
  using loop_invariant [OF assms(1), of "\<lambda>s. time s \<le> limit"] assms(2) step_time cont_time by fastforce

lemma loop_fault:
  assumes "loop s = Inl e" and "I s" and "\<And>s s1. I s \<Longrightarrow> cont s \<Longrightarrow> step s = Inr s1 \<Longrightarrow> I s1"
  shows "\<exists>s'. bench_reach step s s' \<and> I s' \<and> cont s' \<and> step s' = Inl e"
  using assms(1,2)
proof (induction s rule: loop_induct)
  case (stop s)
  then show ?case by (simp add: loop_stop)
next
  case (fault s e')
  then have "step s = Inl e" by (simp add: loop_step_fault)
  then show ?case using fault(1,4) bench_reach.start by (intro exI [of _ s]) auto
next
  case (next_step s s1)
  then have "loop s1 = Inl e" "I s1" using assms(3) by (auto simp: loop_step)
  then show ?case using next_step.IH bench_reach_Cons [of step s1 _ s] next_step.hyps(2) by blast
qed

end

locale traced_loop = bench_loop +
  fixes commits :: "'s \<Rightarrow> 'a list"
    and trace :: "'s \<Rightarrow> 'a list"
  assumes trace_unfold:
    "trace s = (if cont s then commits s @ (case step s of Inl e \<Rightarrow> [] | Inr s' \<Rightarrow> trace s') else [])"
begin

lemma trace_stop: "\<not> cont s \<Longrightarrow> trace s = []"
  by (subst trace_unfold) simp

lemma trace_step: "cont s \<Longrightarrow> step s = Inr s1 \<Longrightarrow> trace s = commits s @ trace s1"
  by (subst trace_unfold) simp

text \<open>\<open>R s os s'\<close> relates two states of the loop and what was observed between them.\<close>

lemma loop_observed:
  assumes "loop s = Inr s'" and "I s"
    and keep: "\<And>s s1. I s \<Longrightarrow> cont s \<Longrightarrow> step s = Inr s1 \<Longrightarrow> I s1 \<and> R s (commits s) s1"
    and refl: "\<And>s. R s [] s"
    and trans: "\<And>s os s1 os' s2. R s os s1 \<Longrightarrow> R s1 os' s2 \<Longrightarrow> R s (os @ os') s2"
  shows "I s' \<and> \<not> cont s' \<and> R s (trace s) s'"
  using assms(1,2)
proof (induction s rule: loop_induct)
  case (stop s)
  then show ?case by (auto simp: loop_stop trace_stop refl)
next
  case (fault s e)
  then show ?case by (simp add: loop_step_fault)
next
  case (next_step s s1)
  then have "loop s1 = Inr s'" "I s1" "R s (commits s) s1" using keep by (auto simp: loop_step)
  then show ?case using next_step.IH trans trace_step [OF next_step.hyps(1,2)] by metis
qed

end

end
