(* ===== verification/Fake_Tlb.thy ===== *)
theory Fake_Tlb
  imports Params
begin

text \<open>
  The translation buffer of the load/store unit bench, \<open>sim/lsu_ut/fake_tlb.hpp\<close> and
  \<open>sim/lsu_ut/fake_tlb.cpp\<close>: an identity mapping whose first access to a tag misses and starts
  a random delay, after which the tag hits forever.
\<close>

section \<open>State and operations\<close>

record delay_slot =
  ds_ptag :: u64
  ds_delay :: nat

record tlb =
  tlb_hit_set :: "u64 set"
  tlb_delay_list :: "delay_slot list"
  tlb_resp_q :: bool
  tlb_resp :: bool
  tlb_valid_q :: bool
  tlb_valid :: bool
  tlb_pt_q :: u64
  tlb_pt :: u64

text \<open>The constructor leaves \<open>_pt_q\<close> and \<open>_pt\<close> uninitialised; their values are arguments.\<close>

definition tlb_init :: "u64 \<Rightarrow> u64 \<Rightarrow> tlb" where
  "tlb_init junk_q junk =
     \<lparr>tlb_hit_set = {}, tlb_delay_list = [], tlb_resp_q = False, tlb_resp = False,
      tlb_valid_q = False, tlb_valid = False, tlb_pt_q = junk_q, tlb_pt = junk\<rparr>"

definition tlb_req :: "rng \<Rightarrow> bool \<Rightarrow> u64 \<Rightarrow> tlb \<Rightarrow> tlb \<times> rng" where
  "tlb_req r valid vtag s0 =
     (let s = s0\<lparr>tlb_valid_q := valid, tlb_resp_q := vtag \<in> tlb_hit_set s0, tlb_pt_q := vtag\<rparr> in
      if \<not> tlb_resp_q s \<and> valid then
        if list_ex (\<lambda>d. ds_ptag d = vtag) (tlb_delay_list s) then (s, r)
        else (let (v, r') = rand r in
              (s\<lparr>tlb_delay_list := tlb_delay_list s @
                   [\<lparr>ds_ptag = vtag, ds_delay = TLB_MISS_BASE_DELAY + v mod TLB_MISS_BASE_DELAY\<rparr>]\<rparr>, r'))
      else (s, r))"

text \<open>The loop over the delay list: expired slots move to the hit set, the others count down.\<close>

fun expire :: "delay_slot list \<Rightarrow> u64 set \<Rightarrow> delay_slot list \<times> u64 set" where
  "expire [] h = ([], h)"
| "expire (d # ds) h =
     (if ds_delay d = 0 then expire ds (insert (ds_ptag d) h)
      else (let (ds', h') = expire ds h in (d\<lparr>ds_delay := ds_delay d - 1\<rparr> # ds', h')))"

definition tlb_eval :: "tlb \<Rightarrow> tlb" where
  "tlb_eval s =
     (let (ds, h) = expire (tlb_delay_list s) (tlb_hit_set s) in
      s\<lparr>tlb_delay_list := ds, tlb_hit_set := h, tlb_resp := tlb_resp_q s, tlb_valid := tlb_valid_q s,
        tlb_pt := tlb_pt_q s, tlb_resp_q := False, tlb_valid_q := False, tlb_pt_q := 0\<rparr>)"

text \<open>A cycle of the bench: some requests, of which the last counts for the answer, then \<open>eval\<close>.\<close>

fun tlb_reqs :: "(bool \<times> u64) list \<Rightarrow> tlb \<times> rng \<Rightarrow> tlb \<times> rng" where
  "tlb_reqs [] sr = sr"
| "tlb_reqs ((v, t) # is) sr = tlb_reqs is (tlb_req (snd sr) v t (fst sr))"

definition tlb_cycle :: "(bool \<times> u64) list \<Rightarrow> tlb \<times> rng \<Rightarrow> tlb \<times> rng" where
  "tlb_cycle is sr = (let (s, r) = tlb_reqs is sr in (tlb_eval s, r))"

definition tlb_ask :: "u64 \<Rightarrow> (bool \<times> u64) list \<Rightarrow> tlb \<times> rng \<Rightarrow> tlb \<times> rng" where
  "tlb_ask t is sr = tlb_cycle (is @ [(True, t)]) sr"

section \<open>The delay list\<close>

text \<open>
  A tag is \<open>due\<close> within \<open>n\<close> evaluations: it hits, or waits with a delay below \<open>n\<close>.
\<close>

definition due :: "nat \<Rightarrow> u64 \<Rightarrow> tlb \<Rightarrow> bool" where
  "due n t s \<longleftrightarrow> t \<in> tlb_hit_set s \<or> (\<exists>d\<in>set (tlb_delay_list s). ds_ptag d = t \<and> ds_delay d < n)"

lemma expire_sets:
  "set (fst (expire ds h)) = (\<lambda>d. d\<lparr>ds_delay := ds_delay d - 1\<rparr>) ` {d \<in> set ds. 0 < ds_delay d}"
  "snd (expire ds h) = h \<union> ds_ptag ` {d \<in> set ds. ds_delay d = 0}"
  by (induction ds h rule: expire.induct) (auto simp: case_prod_beta Let_def)

lemma due_req: "due n t s \<Longrightarrow> due n t (fst (tlb_req r v t' s))"
  by (auto simp: due_def tlb_req_def Let_def case_prod_beta)

lemma due_reqs: "due n t (fst sr) \<Longrightarrow> due n t (fst (tlb_reqs is sr))"
  by (induction "is" sr rule: tlb_reqs.induct) (auto intro: due_req)

lemma due_eval: "due (Suc n) t s \<Longrightarrow> due n t (tlb_eval s)"
  unfolding due_def tlb_eval_def
  using expire_sets [of "tlb_delay_list s" "tlb_hit_set s"]
  by (auto simp: case_prod_beta Let_def) (force simp: image_iff)+

lemma due_cycle: "due (Suc n) t (fst sr) \<Longrightarrow> due n t (fst (tlb_cycle is sr))"
  by (simp add: tlb_cycle_def case_prod_beta Let_def due_eval due_reqs)

lemma due_cycles: "due (length iss + n) t (fst sr) \<Longrightarrow> due n t (fst (fold tlb_cycle iss sr))"
  by (induction iss arbitrary: sr) (simp_all add: due_cycle)

definition tlb_inv :: "tlb \<Rightarrow> bool" where
  "tlb_inv s \<longleftrightarrow> (\<forall>d\<in>set (tlb_delay_list s). ds_delay d < 2 * TLB_MISS_BASE_DELAY) \<and>
     distinct (map ds_ptag (tlb_delay_list s)) \<and>
     ds_ptag ` set (tlb_delay_list s) \<inter> tlb_hit_set s = {}"

lemma tlb_inv_req: "tlb_inv s \<Longrightarrow> tlb_inv (fst (tlb_req r v t s))"
  by (auto simp: tlb_inv_def tlb_req_def Let_def case_prod_beta list_ex_iff TLB_MISS_BASE_DELAY_def)

lemma tlb_inv_reqs: "tlb_inv (fst sr) \<Longrightarrow> tlb_inv (fst (tlb_reqs is sr))"
  by (induction "is" sr rule: tlb_reqs.induct) (auto intro: tlb_inv_req)

lemma expire_ptags: "map ds_ptag (fst (expire ds h)) = map ds_ptag (filter (\<lambda>d. 0 < ds_delay d) ds)"
  by (induction ds h rule: expire.induct) (auto simp: case_prod_beta Let_def)

lemma distinct_ptag_eq:
  "distinct (map ds_ptag ds) \<Longrightarrow> d \<in> set ds \<Longrightarrow> e \<in> set ds \<Longrightarrow> ds_ptag d = ds_ptag e \<Longrightarrow> d = e"
  by (metis distinct_map inj_onD)

lemma tlb_inv_eval: "tlb_inv s \<Longrightarrow> tlb_inv (tlb_eval s)"
proof -
  assume inv: "tlb_inv s"
  let ?e = "expire (tlb_delay_list s) (tlb_hit_set s)"
  have "distinct (map ds_ptag (fst ?e))"
    using inv by (simp add: expire_ptags tlb_inv_def distinct_map_filter)
  moreover have "ds_delay d < 2 * TLB_MISS_BASE_DELAY" if "d \<in> set (fst ?e)" for d
    using that inv by (force simp: expire_sets tlb_inv_def)
  moreover have "ds_ptag ` set (fst ?e) \<inter> snd ?e = {}"
    using inv distinct_ptag_eq [of "tlb_delay_list s"]
    by (fastforce simp: expire_sets tlb_inv_def image_iff)
  ultimately show ?thesis by (simp add: tlb_inv_def tlb_eval_def case_prod_beta Let_def)
qed

lemma tlb_inv_cycle: "tlb_inv (fst sr) \<Longrightarrow> tlb_inv (fst (tlb_cycle is sr))"
  by (simp add: tlb_cycle_def case_prod_beta Let_def tlb_inv_eval tlb_inv_reqs)

lemma tlb_inv_cycles: "tlb_inv (fst sr) \<Longrightarrow> tlb_inv (fst (fold tlb_cycle iss sr))"
  by (induction iss arbitrary: sr) (simp_all add: tlb_inv_cycle)

lemma req_makes_due:
  assumes "tlb_inv s"
  shows "due (2 * TLB_MISS_BASE_DELAY) t (fst (tlb_req r True t s))"
  using assms by (auto simp: due_def tlb_inv_def tlb_req_def Let_def case_prod_beta list_ex_iff
      TLB_MISS_BASE_DELAY_def)

lemma tlb_reqs_snoc: "tlb_reqs (is @ [(v, t)]) sr = tlb_req (snd (tlb_reqs is sr)) v t (fst (tlb_reqs is sr))"
  by (induction "is" sr rule: tlb_reqs.induct) simp_all

section \<open>Properties\<close>

text \<open>
  C38. A tag once requested hits: after any history, a cycle whose last request asks for a tag and
  at least \<open>2 * TLB_MISS_BASE_DELAY\<close> further cycles of any requests, the tag is in the hit set
  and a request for it is answered valid, as a hit, with the tag itself.
\<close>

theorem tlb_miss_becomes_hit:
  assumes "2 * TLB_MISS_BASE_DELAY \<le> length later"
  shows "tlb_resp (fst (tlb_ask t prior (fold tlb_cycle later (tlb_ask t earlier (fold tlb_cycle history (tlb_init jq j, r)))))) \<and>
         tlb_valid (fst (tlb_ask t prior (fold tlb_cycle later (tlb_ask t earlier (fold tlb_cycle history (tlb_init jq j, r)))))) \<and>
         tlb_pt (fst (tlb_ask t prior (fold tlb_cycle later (tlb_ask t earlier (fold tlb_cycle history (tlb_init jq j, r)))))) = t"
proof -
  let ?before = "fold tlb_cycle history (tlb_init jq j, r)"
  have "tlb_inv (tlb_init jq j)" by (simp add: tlb_inv_def tlb_init_def)
  then have "tlb_inv (fst (tlb_reqs earlier ?before))"
    by (intro tlb_inv_reqs tlb_inv_cycles) simp
  then have "due (2 * TLB_MISS_BASE_DELAY) t (fst (tlb_reqs (earlier @ [(True, t)]) ?before))"
    by (simp add: tlb_reqs_snoc req_makes_due)
  then have "due (length later + 0) t (fst (tlb_ask t earlier ?before))"
    unfolding tlb_ask_def tlb_cycle_def case_prod_beta Let_def fst_conv
    using assms(1) by (intro due_eval) (auto simp: due_def)
  then have "due 0 t (fst (tlb_reqs prior (fold tlb_cycle later (tlb_ask t earlier ?before))))"
    by (intro due_reqs due_cycles)
  then have "t \<in> tlb_hit_set (fst (tlb_reqs prior (fold tlb_cycle later (tlb_ask t earlier ?before))))"
    by (simp add: due_def)
  then show ?thesis
    by (simp add: tlb_ask_def tlb_cycle_def tlb_reqs_snoc case_prod_beta Let_def tlb_eval_def tlb_req_def)
qed

theorem tlb_miss_becomes_hit_witness:
  "tlb_resp (fst (tlb_ask 5 [] (fold tlb_cycle (replicate 60 [])
     (tlb_ask 5 [] (fold tlb_cycle [] (tlb_init 0 0, \<lambda>_. 0))))))"
  by (rule tlb_miss_becomes_hit [THEN conjunct1]) (simp add: TLB_MISS_BASE_DELAY_def)

end
