(* ===== verification/Fake_Bus.thy ===== *)
theory Fake_Bus
  imports Lsu_Mem Rcu
begin

text \<open>
  The bus of the load/store unit bench, \<open>sim/lsu_ut/fake_bus.hpp\<close> and
  \<open>sim/lsu_ut/fake_bus.cpp\<close>: it takes one request at a time, performs it on the memory at once
  and answers after a random delay. A \<open>BusEntry\<close> has the fields of a cache line; the byte
  select travels in the opcode field.
\<close>

section \<open>State and operations\<close>

record bus =
  bus_req_vld :: bool
  bus_req :: cache_line
  bus_entry_vld :: bool
  bus_entry :: cache_line
  bus_resp_vld :: bool

definition bus_init :: bus where
  "bus_init = \<lparr>bus_req_vld = False, bus_req = line0, bus_entry_vld = False, bus_entry = line0,
               bus_resp_vld = False\<rparr>"

definition bus_set_req ::
    "rng \<Rightarrow> u64 \<Rightarrow> u64 \<Rightarrow> u8 \<Rightarrow> u8 \<Rightarrow> u16 \<Rightarrow> bool \<Rightarrow> bool \<Rightarrow> u8 \<Rightarrow> bus \<Rightarrow> bus \<times> rng" where
  "bus_set_req r pa d ri rd de fence ls sel s =
     (let (v, r') = rand r in
      (s\<lparr>bus_req := mk_line pa d ri rd (of_nat (BUS_BASE_DELAY + v mod BUS_MAX_DELAY)) fence ls sel\<rparr>, r'))"

definition bus_set_vld :: "bool \<Rightarrow> bus \<Rightarrow> bus" where
  "bus_set_vld vld s = s\<lparr>bus_req_vld := vld\<rparr>"

text \<open>The access of an accepted request. A load with another byte select keeps its own data.\<close>

definition bus_access :: "lsu_mem \<Rightarrow> cache_line \<Rightarrow> (cache_line \<times> lsu_mem) res" where
  "bus_access m e =
     (let a = ucast (paddr e) in
      if \<not> load_or_store e then
        res_map (\<lambda>(d, m'). (e\<lparr>data := d\<rparr>, m'))
          (if opcode e = 1 then fm_lbu m a
           else if opcode e = 3 then fm_lhu m a
           else if opcode e = 15 then fm_lwu m a
           else Inr (data e, m))
      else
        res_map (\<lambda>m'. (e, m'))
          (if opcode e = 1 then fm_sb m a (data e)
           else if opcode e = 3 then fm_sh m a (data e)
           else if opcode e = 15 then fm_sw m a (data e)
           else Inr m))"

definition bus_accept :: "bus \<Rightarrow> lsu_mem \<Rightarrow> (bus \<times> lsu_mem) res" where
  "bus_accept s m =
     (if bus_req_vld s \<and> \<not> bus_entry_vld s then
        res_map (\<lambda>(e, m'). (s\<lparr>bus_entry_vld := True, bus_entry := e\<rparr>, m')) (bus_access m (bus_req s))
      else Inr (s, m))"

definition bus_answer :: "bus \<Rightarrow> bus" where
  "bus_answer s0 =
     (let s = (if delay (bus_entry s0) = 0 \<and> bus_entry_vld s0
               then s0\<lparr>bus_resp_vld := True, bus_entry_vld := False\<rparr> else s0)
      in if delay (bus_entry s) > 0 then s\<lparr>bus_entry := (bus_entry s)\<lparr>delay := delay (bus_entry s) - 1\<rparr>\<rparr>
         else s)"

definition bus_eval :: "bus \<Rightarrow> lsu_mem \<Rightarrow> (bus \<times> lsu_mem) res" where
  "bus_eval s m =
     res_map (\<lambda>(s', m'). (bus_answer s', m')) (bus_accept (s\<lparr>bus_resp_vld := False\<rparr>) m)"

text \<open>
  A cycle: the bench drives the request lines (a fresh delay is drawn on every call), then
  evaluates.
\<close>

record bus_in =
  bi_vld :: bool
  bi_req :: cache_line

definition bus_cycle :: "bus_in \<Rightarrow> bus \<times> lsu_mem \<Rightarrow> (bus \<times> lsu_mem) res" where
  "bus_cycle i sm = bus_eval ((fst sm)\<lparr>bus_req_vld := bi_vld i, bus_req := bi_req i\<rparr>) (snd sm)"

section \<open>Latency\<close>

text \<open>While an entry is in flight a cycle only counts its delay down.\<close>

lemma bus_cycle_busy:
  assumes "bus_entry_vld s" and "0 < delay (bus_entry s)"
  shows "\<exists>s'. bus_cycle i (s, m) = Inr (s', m) \<and> \<not> bus_resp_vld s' \<and> bus_entry_vld s' \<and>
              bus_entry s' = (bus_entry s)\<lparr>delay := delay (bus_entry s) - 1\<rparr>"
  using assms by (simp add: bus_cycle_def bus_eval_def bus_accept_def bus_answer_def Let_def)

lemma bus_cycle_last:
  assumes "bus_entry_vld s" and "delay (bus_entry s) = 0"
  shows "\<exists>s'. bus_cycle i (s, m) = Inr (s', m) \<and> bus_resp_vld s' \<and> \<not> bus_entry_vld s' \<and>
              bus_entry s' = bus_entry s"
  using assms by (simp add: bus_cycle_def bus_eval_def bus_accept_def bus_answer_def Let_def)

lemma bus_run_busy:
  assumes "bus_entry_vld s" and "length is = unat (delay (bus_entry s))"
  shows "\<exists>ss. run_res bus_cycle is (s, m) = Inr ss \<and> list_all (\<lambda>(t, m'). \<not> bus_resp_vld t \<and> m' = m) ss \<and>
     (\<exists>t. last ((s, m) # ss) = (t, m) \<and> bus_entry_vld t \<and> bus_entry t = (bus_entry s)\<lparr>delay := 0\<rparr>)"
  using assms
proof (induction "is" arbitrary: s)
  case Nil
  then have "delay (bus_entry s) = 0" by (simp add: word_unat_eq_iff)
  then show ?case using Nil by simp
next
  case (Cons i "is")
  then have pos: "0 < delay (bus_entry s)" by (simp add: word_less_nat_alt)
  obtain s' where s': "bus_cycle i (s, m) = Inr (s', m)" "\<not> bus_resp_vld s'" "bus_entry_vld s'"
      "bus_entry s' = (bus_entry s)\<lparr>delay := delay (bus_entry s) - 1\<rparr>"
    using bus_cycle_busy [OF Cons.prems(1) pos] by blast
  have "unat (delay (bus_entry s) - 1) = unat (delay (bus_entry s)) - 1"
    using pos by (intro unat_minus_one) auto
  then have "length is = unat (delay (bus_entry s'))" using Cons.prems(2) s'(4) by simp
  from Cons.IH [OF s'(3) this] obtain ss t where
      ss: "run_res bus_cycle is (s', m) = Inr ss" "list_all (\<lambda>(t, m'). \<not> bus_resp_vld t \<and> m' = m) ss"
      "last ((s', m) # ss) = (t, m)" "bus_entry_vld t" "bus_entry t = (bus_entry s')\<lparr>delay := 0\<rparr>"
    by blast
  show ?case
    by (rule exI [of _ "(s', m) # ss"]) (use s' ss in simp)
qed

text \<open>Requests as \<open>bus_set_req\<close> builds them.\<close>

definition bus_timed :: "cache_line \<Rightarrow> bool" where
  "bus_timed e \<longleftrightarrow> BUS_BASE_DELAY \<le> unat (delay e) \<and> unat (delay e) < BUS_BASE_DELAY + BUS_MAX_DELAY"

lemma bus_set_req_timed: "bus_timed (bus_req (fst (bus_set_req r pa d ri rd de fence ls sel s)))"
proof -
  have "unat (of_nat (10 + v mod 30) :: u16) = 10 + v mod 30" for v :: nat
  proof (rule unat_u16_of_nat)
    have "v mod 30 < 30" by simp
    then show "10 + v mod 30 < 65536" by linarith
  qed
  then show ?thesis
    by (simp add: bus_timed_def bus_set_req_def case_prod_beta Let_def mk_line_def delay_params
        del: of_nat_add of_nat_mod)
qed

lemma bus_access_delay: "bus_access m e = Inr (e', m') \<Longrightarrow> delay e' = delay e"
  by (auto simp: bus_access_def Let_def split: if_splits)

section \<open>Properties\<close>

text \<open>
  An idle bus that is offered a request performs its access at once and answers it exactly as
  many cycles later as the delay drawn for it, whatever is offered meanwhile: no answer comes
  earlier, the memory does not change in between, and the answer carries the accessed entry.
  The delay drawn is at least \<open>BUS_BASE_DELAY\<close> and below \<open>BUS_BASE_DELAY + BUS_MAX_DELAY\<close>.
\<close>

theorem bus_latency:
  assumes "\<not> bus_entry_vld s" and "bi_vld i"
    and "bi_req i = bus_req (fst (bus_set_req r pa d ri rd de fence ls sel s0))"
    and "bus_access m (bi_req i) = Inr (e, m')" and "length is = unat (delay (bi_req i))"
  shows "10 \<le> length is \<and> length is < 40 \<and>
         (\<exists>ss t. run_res bus_cycle (i # is) (s, m) = Inr (ss @ [(t, m')]) \<and>
            list_all (\<lambda>(t', m''). \<not> bus_resp_vld t' \<and> m'' = m') ss \<and>
            bus_resp_vld t \<and> \<not> bus_entry_vld t \<and> bus_entry t = e\<lparr>delay := 0\<rparr>)"
proof -
  have timed: "10 \<le> length is \<and> length is < 40"
    using bus_set_req_timed [of r pa d ri rd de fence ls sel s0] assms(3,5)
    by (simp add: bus_timed_def delay_params)
  have de: "delay e = delay (bi_req i)" by (rule bus_access_delay [OF assms(4)])
  obtain js j where js: "is = js @ [j]" using timed by (cases "is" rule: rev_cases) auto
  have pos: "0 < delay e" using timed assms(5) de by (simp add: word_less_nat_alt)
  obtain s1 where s1: "bus_cycle i (s, m) = Inr (s1, m')" "\<not> bus_resp_vld s1" "bus_entry_vld s1"
      "bus_entry s1 = e\<lparr>delay := delay e - 1\<rparr>"
    using assms(1,2,4) pos
    by (simp add: bus_cycle_def bus_eval_def bus_accept_def bus_answer_def Let_def)
  have "unat (delay e - 1) = unat (delay e) - 1" using pos by (intro unat_minus_one) auto
  then have "length js = unat (delay (bus_entry s1))"
    using js assms(5) de s1(4) by simp
  from bus_run_busy [OF s1(3) this, of m'] obtain ss t where
      ss: "run_res bus_cycle js (s1, m') = Inr ss" "list_all (\<lambda>(t, m''). \<not> bus_resp_vld t \<and> m'' = m') ss"
      "last ((s1, m') # ss) = (t, m')" "bus_entry_vld t" "bus_entry t = (bus_entry s1)\<lparr>delay := 0\<rparr>"
    by blast
  obtain t' where t': "bus_cycle j (t, m') = Inr (t', m')" "bus_resp_vld t'" "\<not> bus_entry_vld t'"
      "bus_entry t' = bus_entry t"
    using bus_cycle_last [OF ss(4), of j m'] ss(5) by auto
  have "run_res bus_cycle (i # is) (s, m) = Inr (((s1, m') # ss) @ [(t', m')])"
    using s1(1) ss(1,3) t'(1) by (simp add: js run_res_append)
  then show ?thesis
    using timed s1 ss t'
    by (intro conjI exI [of _ "(s1, m') # ss"] exI [of _ t']) auto
qed

theorem bus_latency_witness:
  "\<exists>ss t. run_res bus_cycle
       (replicate 11 \<lparr>bi_vld = True, bi_req = mk_line 0x1000 7 0 0 10 False True 15\<rparr>)
       (bus_init, lsu_mem_init) =
     Inr (ss @ [t]) \<and> bus_resp_vld (fst t)"
proof -
  let ?i = "\<lparr>bi_vld = True, bi_req = mk_line 0x1000 7 0 0 10 False True 15\<rparr>"
  have acc: "bus_access lsu_mem_init (bi_req ?i) =
      Inr (bi_req ?i, store_loop fm_set_byte 4 0x1000 7 (fm_visit lsu_mem_init))"
    by (simp add: bus_access_def fm_sw_def mk_line_def Let_def)
  have "bi_req ?i = bus_req (fst (bus_set_req (\<lambda>_. 0) 0x1000 7 0 0 0 False True 15 bus_init))"
    by (simp add: bus_set_req_def rand_def delay_params)
  moreover have "length (replicate 10 ?i) = unat (delay (bi_req ?i))" by (simp add: mk_line_def)
  ultimately show ?thesis
    using bus_latency [of bus_init ?i, OF _ _ _ acc, of "\<lambda>_. 0" "0x1000" 7 0 0 0 False True 15 bus_init
        "replicate 10 ?i"]
    by (simp add: bus_init_def numeral_eq_Suc) blast
qed

end
