(* ===== verification/Fake_Cache.thy ===== *)
theory Fake_Cache
  imports Lsu_Mem Rcu
begin

unbundle bit_operations_syntax

text \<open>
  The cache of the load/store unit bench, \<open>sim/lsu_ut/fake_cache.hpp\<close> and
  \<open>sim/lsu_ut/fake_cache.cpp\<close>: a list of up to 16 lines in flight, each with a delay. A request
  is performed on the memory one evaluation after it was taken, unless it is killed then; a
  load is answered when its delay has run out, a store at once. The two setters of the
  translation response (\<open>dtlb_resp_vld\<close>, \<open>dtlb_resp\<close>) write fields that nothing reads, and their calls in the
  bench are commented out.
\<close>

section \<open>State\<close>

record cache =
  ch_hit_set :: "u64 set"
  ch_lines :: "cache_line list"
  ch_delay_set :: "u16 set"
  ch_req_vld :: bool
  ch_hsk_q :: bool
  ch_req :: cache_line
  ch_kill_req :: bool
  ch_ld_resp_vld :: bool
  ch_ld_resp :: cache_line
  ch_st_resp_vld :: bool
  ch_st_resp :: cache_line
  ch_l1d_req_vld :: bool
  ch_l1d_req_is_fenced :: bool
  ch_l1d_req_rob_index :: u16
  ch_dtlb_resp_vld :: bool
  ch_dtlb_resp_hit :: bool

definition cache_init :: cache where
  "cache_init =
     \<lparr>ch_hit_set = {}, ch_lines = [], ch_delay_set = {}, ch_req_vld = False, ch_hsk_q = False,
      ch_req = line0, ch_kill_req = False, ch_ld_resp_vld = False, ch_ld_resp = line0,
      ch_st_resp_vld = False, ch_st_resp = line0, ch_l1d_req_vld = False,
      ch_l1d_req_is_fenced = False, ch_l1d_req_rob_index = 0,
      ch_dtlb_resp_vld = False, ch_dtlb_resp_hit = False\<rparr>"

definition cache_ready :: "cache \<Rightarrow> bool" where
  "cache_ready s \<longleftrightarrow> length (ch_lines s) < MAX_CACHE_SIZE"

definition dtlb_resp_vld :: "bool \<Rightarrow> cache \<Rightarrow> cache" where
  "dtlb_resp_vld vld s = s\<lparr>ch_dtlb_resp_vld := vld\<rparr>"

definition dtlb_resp :: "bool \<Rightarrow> cache \<Rightarrow> cache" where
  "dtlb_resp hit s = s\<lparr>ch_dtlb_resp_hit := hit\<rparr>"

section \<open>Requests\<close>

text \<open>The search for a delay that no line in flight has.\<close>

partial_function (option) free_delay :: "u16 set \<Rightarrow> u16 \<Rightarrow> u16 option" where
  "free_delay D d = (if d \<in> D then free_delay D (d + 1) else Some d)"

record cache_args =
  ca_vi :: u64
  ca_vo :: u64
  ca_pt :: u64
  ca_pa :: u64
  ca_d :: u64
  ca_ri :: u8
  ca_rd :: u8
  ca_fence :: bool
  ca_ls :: bool
  ca_op :: u8

definition args_paddr :: "cache_args \<Rightarrow> u64" where
  "args_paddr a =
     (if \<not> ca_ls a then ca_vo a + push_bit ADDR_OFFSET_LEN (ca_vi a) +
                        push_bit (ADDR_OFFSET_LEN + ADDR_INDEX_LEN) (ca_pt a)
      else ca_pa a)"

definition cache_req :: "rng \<Rightarrow> cache_args \<Rightarrow> cache \<Rightarrow> (cache \<times> rng) res" where
  "cache_req r a s =
     (let line = (\<lambda>de. mk_line (args_paddr a) (ca_d a) (ca_ri a) (ca_rd a) de (ca_fence a) (ca_ls a)
                         (ca_op a)) in
      if ca_pt a \<in> ch_hit_set s then Inr (s\<lparr>ch_req := line (of_nat CACHE_HIT_BASE_DELAY)\<rparr>, r)
      else (let (v, r') = rand r in
            case free_delay (ch_delay_set s)
                   (of_nat (CACHE_MISS_BASE_DELAY + v mod CACHE_MISS_MAX_DELAY)) of
              None \<Rightarrow> Inl Spins
            | Some de \<Rightarrow> Inr (s\<lparr>ch_req := line de\<rparr>, r')))"

section \<open>The stages of an evaluation\<close>

definition cache_store :: "lsu_mem \<Rightarrow> cache_line \<Rightarrow> lsu_mem res" where
  "cache_store m l =
     (let a = ucast (paddr l AND 0xffff) in
      if opcode l = STU_SB then fm_sb m a (data l)
      else if opcode l = STU_SH then fm_sh m a (data l)
      else if opcode l = STU_SW then fm_sw m a (data l)
      else if opcode l = STU_SD then fm_sd m a (data l)
      else Inr m)"

definition cache_load :: "lsu_mem \<Rightarrow> cache_line \<Rightarrow> (u64 \<times> lsu_mem) res" where
  "cache_load m l =
     (let a = ucast (paddr l) in
      if opcode l = LDU_LB then fm_lb m a
      else if opcode l = LDU_LH then fm_lh m a
      else if opcode l = LDU_LW then fm_lw m a
      else if opcode l = LDU_LD then fm_ld m a
      else if opcode l = LDU_LBU then fm_lbu m a
      else if opcode l = LDU_LHU then fm_lhu m a
      else if opcode l = LDU_LWU then fm_lwu m a
      else Inr (data l, m))"

text \<open>The request taken in the evaluation before is performed; it is the last line.\<close>

definition cache_exec :: "cache \<Rightarrow> lsu_mem \<Rightarrow> (cache \<times> lsu_mem) res" where
  "cache_exec s m =
     (if ch_lines s = [] then Inl (Undefined ''back of an empty list'')
      else
        (let l = last (ch_lines s);
             note_req = (\<lambda>t. t\<lparr>ch_l1d_req_vld := True, ch_l1d_req_is_fenced := is_fenced l,
                               ch_l1d_req_rob_index := ucast (rob_index l)\<rparr>) in
         if load_or_store l then
           res_map (\<lambda>m'. (note_req (s\<lparr>ch_st_resp_vld := True, ch_st_resp := l\<rparr>), m')) (cache_store m l)
         else
           res_map (\<lambda>(d, m'). (note_req (s\<lparr>ch_lines := butlast (ch_lines s) @ [l\<lparr>data := d\<rparr>]\<rparr>), m'))
             (cache_load m l)))"

definition cache_old_req :: "cache \<Rightarrow> lsu_mem \<Rightarrow> (cache \<times> lsu_mem) res" where
  "cache_old_req s m =
     (if ch_hsk_q s \<and> \<not> ch_kill_req s then cache_exec s m
      else if ch_kill_req s \<and> ch_hsk_q s then
        if ch_lines s = [] then Inl (Undefined ''pop_back of an empty list'')
        else Inr (s\<lparr>ch_kill_req := False, ch_lines := butlast (ch_lines s)\<rparr>, m)
      else Inr (s, m))"

definition cache_new_req :: "cache \<Rightarrow> cache" where
  "cache_new_req s0 =
     (let s = s0\<lparr>ch_kill_req := False\<rparr>;
          hsk = (ch_req_vld s \<and> length (ch_lines s) < MAX_CACHE_SIZE);
          s1 = s\<lparr>ch_hsk_q := hsk\<rparr>
      in if hsk then s1\<lparr>ch_req_vld := False, ch_lines := ch_lines s1 @ [ch_req s1],
                        ch_delay_set := insert (delay (ch_req s1)) (ch_delay_set s1)\<rparr>
         else s1)"

text \<open>
  The loop over the lines: \<open>vld\<close> and \<open>resp\<close> are \<open>_ld_resp_vld\<close> and \<open>_ld_resp\<close>, \<open>h\<close> the hit set.
  (The code reads the delay of the first line before the loop, even of an empty list, into a
  variable it does not use.)
\<close>

fun line_loop ::
    "bool \<Rightarrow> cache_line \<Rightarrow> u64 set \<Rightarrow> cache_line list \<Rightarrow> (bool \<times> cache_line \<times> u64 set \<times> cache_line list) res"
  where
  "line_loop vld resp h [] = Inr (vld, resp, h, [])"
| "line_loop vld resp h (l # ls) =
     (if delay l = 0 then
        if vld then Inl (Throw ''l1d has multi resp in a tik'')
        else if \<not> load_or_store l then line_loop True l (insert (paddr l) h) ls
        else line_loop vld resp (insert (paddr l) h) ls
      else res_map (\<lambda>(v, p, h', ls'). (v, p, h', l\<lparr>delay := delay l - 1\<rparr> # ls')) (line_loop vld resp h ls))"

definition cache_update :: "cache \<Rightarrow> cache res" where
  "cache_update s =
     res_map (\<lambda>(v, p, h, ls). s\<lparr>ch_ld_resp_vld := v, ch_ld_resp := p, ch_hit_set := h, ch_lines := ls,
                                ch_delay_set := delay ` set ls\<rparr>)
       (line_loop (ch_ld_resp_vld s) (ch_ld_resp s) (ch_hit_set s) (ch_lines s))"

definition cache_eval :: "cache \<Rightarrow> lsu_mem \<Rightarrow> (cache \<times> lsu_mem) res" where
  "cache_eval s m =
     res_bind (cache_old_req (s\<lparr>ch_ld_resp_vld := False, ch_st_resp_vld := False,
                                ch_l1d_req_vld := False\<rparr>) m)
       (\<lambda>(s1, m'). res_map (\<lambda>s2. (s2, m')) (cache_update (cache_new_req s1)))"

text \<open>A cycle of the bench: the request lines are driven, the kill line, then \<open>eval\<close>.\<close>

record cache_in =
  ci_req :: "cache_args option"
  ci_kill :: bool

definition cache_cycle :: "cache_in \<Rightarrow> cache \<times> lsu_mem \<times> rng \<Rightarrow> (cache \<times> lsu_mem \<times> rng) res" where
  "cache_cycle i smr =
     (case smr of (s0, m, r) \<Rightarrow>
        let s = s0\<lparr>ch_req_vld := (ci_req i \<noteq> None), ch_kill_req := ci_kill i\<rparr> in
        res_bind (case ci_req i of None \<Rightarrow> Inr (s, r) | Some a \<Rightarrow> cache_req r a s)
          (\<lambda>(s1, r'). res_map (\<lambda>(s2, m'). (s2, m', r')) (cache_eval s1 m)))"

section \<open>The delay search returns\<close>

lemma free_delay_returns:
  assumes "finite D" and "card {x \<in> D. d \<le> x} \<le> n" and "unat d + n < 65535"
  shows "\<exists>d'. free_delay D d = Some d' \<and> d' \<notin> D \<and> unat d \<le> unat d' \<and> unat d' \<le> unat d + n"
  using assms(2,3)
proof (induction n arbitrary: d)
  case 0
  then have "{x \<in> D. d \<le> x} = {}" using assms(1) by simp
  then have "d \<notin> D" by auto
  then show ?case by (subst free_delay.simps) simp
next
  case (Suc n)
  show ?case
  proof (cases "d \<in> D")
    case False
    then show ?thesis by (subst free_delay.simps) simp
  next
    case True
    have up: "unat (d + 1) = unat d + 1"
      using Suc.prems(2) by (simp add: unat_word_ariths)
    have "{x \<in> D. d + 1 \<le> x} = {x \<in> D. d \<le> x} - {d}"
      using up by (auto simp: word_le_nat_alt word_unat_eq_iff)
    then have "card {x \<in> D. d + 1 \<le> x} \<le> n"
      using True Suc.prems(1) assms(1) by (simp add: card_Diff_singleton)
    then obtain d' where "free_delay D (d + 1) = Some d'" "d' \<notin> D"
        "unat (d + 1) \<le> unat d'" "unat d' \<le> unat (d + 1) + n"
      using Suc.IH [of "d + 1"] Suc.prems(2) up by auto
    then show ?thesis
      using True up by (subst free_delay.simps) auto
  qed
qed

section \<open>The invariant\<close>

text \<open>
  What every cache satisfies, and what holds in addition as long as the requests lie in the window: no two lines have
  the same delay, and the hit set has no tag. The window: tags below \<open>0x80000000\<close>, addresses from there on. The bench's memory requests are
  inside, since a tag is an address without its low twelve bits.
\<close>

definition in_window :: "cache_args \<Rightarrow> bool" where
  "in_window a \<longleftrightarrow> ca_pt a < 0x80000000 \<and> 0x80000000 \<le> args_paddr a"

definition cache_wf :: "cache \<Rightarrow> bool" where
  "cache_wf s \<longleftrightarrow>
     ch_delay_set s = delay ` set (ch_lines s) \<and> length (ch_lines s) \<le> MAX_CACHE_SIZE \<and>
     (ch_hsk_q s \<longrightarrow> ch_lines s \<noteq> [])"

definition cache_inv :: "cache \<Rightarrow> bool" where
  "cache_inv s \<longleftrightarrow>
     distinct (map delay (ch_lines s)) \<and> ch_delay_set s = delay ` set (ch_lines s) \<and>
     length (ch_lines s) \<le> MAX_CACHE_SIZE \<and> (ch_hsk_q s \<longrightarrow> ch_lines s \<noteq> []) \<and>
     (\<forall>p\<in>ch_hit_set s. 0x80000000 \<le> p) \<and> (\<forall>l\<in>set (ch_lines s). 0x80000000 \<le> paddr l)"

definition fresh_req :: "cache \<Rightarrow> bool" where
  "fresh_req s \<longleftrightarrow> (ch_req_vld s \<longrightarrow> delay (ch_req s) \<notin> ch_delay_set s \<and> 0 < delay (ch_req s) \<and>
                                    0x80000000 \<le> paddr (ch_req s))"

definition line_sig :: "cache_line \<Rightarrow> u16 \<times> u64" where
  "line_sig l = (delay l, paddr l)"

definition live_req :: "cache \<Rightarrow> bool" where
  "live_req s \<longleftrightarrow> (ch_req_vld s \<longrightarrow> 0 < delay (ch_req s))"

lemma cache_inv_wf: "cache_inv s \<Longrightarrow> cache_wf s"
  by (simp add: cache_inv_def cache_wf_def)

lemma cache_req_result:
  assumes "cache_wf s"
  shows "\<exists>s' r'. cache_req r a s = Inr (s', r') \<and> s' = s\<lparr>ch_req := ch_req s'\<rparr> \<and> 0 < delay (ch_req s') \<and>
    paddr (ch_req s') = args_paddr a \<and> (ca_pt a \<notin> ch_hit_set s \<longrightarrow> delay (ch_req s') \<notin> ch_delay_set s)"
proof (cases "ca_pt a \<in> ch_hit_set s")
  case True
  then show ?thesis by (simp add: cache_req_def mk_line_def delay_params)
next
  case miss: False
  let ?v = "fst (rand r)"
  let ?d = "of_nat (CACHE_MISS_BASE_DELAY + ?v mod CACHE_MISS_MAX_DELAY) :: u16"
  have "5 + ?v mod 30 < 65536" using mod_less_divisor [of 30 ?v] by linarith
  then have d: "unat ?d = 5 + ?v mod 30"
    using unat_u16_of_nat by (simp add: delay_params del: of_nat_add)
  have fin: "finite (ch_delay_set s)" using assms(1) by (simp add: cache_wf_def)
  have "card {x \<in> ch_delay_set s. ?d \<le> x} \<le> card (ch_delay_set s)"
    using fin by (intro card_mono) auto
  also have "\<dots> \<le> 16"
    using assms(1) card_length [of "map delay (ch_lines s)"]
    by (auto simp: cache_wf_def size_params)
  finally have card: "card {x \<in> ch_delay_set s. ?d \<le> x} \<le> 16" .
  have small: "unat ?d + 16 < 65535"
    using d mod_less_divisor [of 30 ?v] by linarith
  obtain d' where d': "free_delay (ch_delay_set s) ?d = Some d'" "d' \<notin> ch_delay_set s"
      "unat ?d \<le> unat d'"
    using free_delay_returns [OF fin card small] by blast
  have "0 < d'" using d d'(3) by (simp add: word_less_nat_alt)
  then show ?thesis
    using miss d' by (simp add: cache_req_def case_prod_beta Let_def mk_line_def del: of_nat_add)
qed

lemma cache_req_fresh:
  assumes "cache_inv s" and "in_window a"
  shows "\<exists>s' r'. cache_req r a s = Inr (s', r') \<and> s' = s\<lparr>ch_req := ch_req s'\<rparr> \<and>
           delay (ch_req s') \<notin> ch_delay_set s \<and> 0 < delay (ch_req s') \<and>
           0x80000000 \<le> paddr (ch_req s')"
proof -
  have "ca_pt a \<notin> ch_hit_set s" "0x80000000 \<le> args_paddr a"
    using assms by (fastforce simp: cache_inv_def in_window_def)+
  then show ?thesis using cache_req_result [OF cache_inv_wf [OF assms(1)], of r a] by metis
qed

lemma old_req_lines:
  assumes "cache_old_req s m = Inr (s', m')"
  shows "(map line_sig (ch_lines s') = map line_sig (ch_lines s) \<or>
          map line_sig (ch_lines s') = map line_sig (butlast (ch_lines s))) \<and>
         ch_hit_set s' = ch_hit_set s \<and> ch_delay_set s' = ch_delay_set s \<and>
         ch_req_vld s' = ch_req_vld s \<and> ch_req s' = ch_req s \<and> ch_ld_resp_vld s' = ch_ld_resp_vld s"
proof -
  have snoc: "map line_sig (butlast ls @ [(last ls)\<lparr>data := d\<rparr>]) = map line_sig ls"
    if "ls \<noteq> []" for ls d
    using that by (induction ls) (auto simp: line_sig_def)
  show ?thesis
    using assms snoc [of "ch_lines s"]
    by (auto simp: cache_old_req_def cache_exec_def Let_def split: if_splits simp del: map_append)
qed

lemma line_loop_ok:
  assumes "distinct (map delay ls)" and "v \<Longrightarrow> 0 \<notin> delay ` set ls"
  shows "\<exists>v' p' h'. line_loop v p h ls =
           Inr (v', p', h', map (\<lambda>l. l\<lparr>delay := delay l - 1\<rparr>) (filter (\<lambda>l. delay l \<noteq> 0) ls)) \<and>
         h' \<subseteq> h \<union> paddr ` set ls"
  using assms
proof (induction v p h ls rule: line_loop.induct)
  case (1 v p h)
  then show ?case by simp
next
  case (2 v p h l ls)
  show ?case
  proof (cases "delay l = 0")
    case True
    then have nv: "\<not> v" and nz: "0 \<notin> delay ` set ls" using 2 by auto
    then have "filter (\<lambda>l. delay l \<noteq> 0) ls = ls" by (force intro: filter_True)
    then show ?thesis
      using 2(1) [OF True nv] 2(2) [OF True nv] 2(4) nz True nv by (cases "load_or_store l") auto
  next
    case False
    then show ?thesis using 2(3) [OF False] 2(4,5) by fastforce
  qed
qed

lemma distinct_decremented:
  assumes "distinct (map delay ls)"
  shows "distinct (map delay (map (\<lambda>l. l\<lparr>delay := delay l - 1\<rparr>) (filter (\<lambda>l. delay l \<noteq> 0) ls)))"
proof -
  have "inj_on (\<lambda>x::u16. x - 1) UNIV" by (simp add: inj_on_def)
  then have "distinct (map (\<lambda>x. x - 1) (map delay (filter (\<lambda>l. delay l \<noteq> 0) ls)))"
    using distinct_map_filter [OF assms, of "\<lambda>l. delay l \<noteq> 0"]
    by (subst distinct_map) (auto intro: inj_on_subset)
  then show ?thesis by (simp add: comp_def)
qed

text \<open>What the lines are after a request may have been added.\<close>

lemma new_req_lines:
  assumes sig: "map line_sig (ch_lines s1) = map line_sig (ch_lines s) \<or>
                map line_sig (ch_lines s1) = map line_sig (butlast (ch_lines s))"
    and inv: "cache_inv s" and keep: "ch_delay_set s1 = ch_delay_set s" and fresh: "fresh_req s1"
  shows "distinct (map delay (ch_lines (cache_new_req s1))) \<and>
         length (ch_lines (cache_new_req s1)) \<le> MAX_CACHE_SIZE \<and>
         (\<forall>l\<in>set (ch_lines (cache_new_req s1)). 0x80000000 \<le> paddr l) \<and>
         (ch_hsk_q (cache_new_req s1) \<longrightarrow> (\<exists>l\<in>set (ch_lines (cache_new_req s1)). 0 < delay l))"
proof -
  have proj: "map delay ls = map fst (map line_sig ls)" for ls
    by (simp add: line_sig_def)
  have bl: "set (butlast ls) \<subseteq> set ls" "distinct (map delay ls) \<Longrightarrow> distinct (map delay (butlast ls))" for ls :: "cache_line list"
    by (auto dest: in_set_butlastD simp: map_butlast distinct_butlast)
  have len: "length (ch_lines s1) \<le> length (ch_lines s)"
    using sig by (metis diff_le_self length_butlast length_map order_refl)
  have dist: "distinct (map delay (ch_lines s1))"
  proof -
    have "map delay (ch_lines s1) = map delay (ch_lines s) \<or>
        map delay (ch_lines s1) = map delay (butlast (ch_lines s))"
      using sig proj by metis
    then show ?thesis using inv bl(2) [of "ch_lines s"] by (auto simp: cache_inv_def)
  qed
  have sub: "delay ` set (ch_lines s1) \<subseteq> ch_delay_set s1" and hi: "paddr ` set (ch_lines s1) \<subseteq> paddr ` set (ch_lines s)"
  proof -
    have "set (map line_sig (butlast (ch_lines s))) \<subseteq> set (map line_sig (ch_lines s))"
      using bl(1) [of "ch_lines s"] by auto
    then have "set (map line_sig (ch_lines s1)) \<subseteq> set (map line_sig (ch_lines s))"
      using sig by (metis order_refl)
    then have "line_sig ` set (ch_lines s1) \<subseteq> line_sig ` set (ch_lines s)" by simp
    then have *: "fst ` line_sig ` set (ch_lines s1) \<subseteq> fst ` line_sig ` set (ch_lines s)"
      "snd ` line_sig ` set (ch_lines s1) \<subseteq> snd ` line_sig ` set (ch_lines s)"
      by (blast intro: image_mono)+
    show "delay ` set (ch_lines s1) \<subseteq> ch_delay_set s1"
      using *(1) inv keep by (simp add: cache_inv_def line_sig_def image_image)
    show "paddr ` set (ch_lines s1) \<subseteq> paddr ` set (ch_lines s)"
      using *(2) by (simp add: line_sig_def image_image)
  qed
  have paddrs: "\<forall>l\<in>set (ch_lines s1). 0x80000000 \<le> paddr l"
  proof
    fix l
    assume "l \<in> set (ch_lines s1)"
    then obtain l' where "l' \<in> set (ch_lines s)" "paddr l = paddr l'" using hi by blast
    then show "0x80000000 \<le> paddr l" using inv by (simp add: cache_inv_def)
  qed
  have len': "length (ch_lines s1) \<le> MAX_CACHE_SIZE" using len inv by (simp add: cache_inv_def)
  show ?thesis
  proof (cases "ch_req_vld s1 \<and> length (ch_lines s1) < MAX_CACHE_SIZE")
    case True
    then have new: "ch_lines (cache_new_req s1) = ch_lines s1 @ [ch_req s1]"
      by (simp add: cache_new_req_def Let_def)
    have "delay (ch_req s1) \<notin> delay ` set (ch_lines s1)" "0 < delay (ch_req s1)"
        "0x80000000 \<le> paddr (ch_req s1)"
      using fresh True sub by (auto simp: fresh_req_def)
    then show ?thesis unfolding new using dist paddrs True by simp
  next
    case False
    then have "ch_lines (cache_new_req s1) = ch_lines s1" "\<not> ch_hsk_q (cache_new_req s1)"
      by (auto simp: cache_new_req_def Let_def)
    then show ?thesis using dist paddrs len' by simp
  qed
qed

lemma cache_access_faults:
  "cache_store m l = Inl e \<Longrightarrow> misalign e" "cache_load m l = Inl e \<Longrightarrow> misalign e"
  by (auto simp: cache_store_def cache_load_def Let_def fm_faults split: if_splits)

lemma old_req_fault:
  "cache_wf s \<Longrightarrow> cache_old_req s m = Inl e \<Longrightarrow> misalign e"
  by (auto simp: cache_old_req_def cache_exec_def cache_wf_def Let_def dest: cache_access_faults
      split: if_splits)

lemma line_loop_fault: "line_loop v p h ls = Inl e \<Longrightarrow> e = Throw ''l1d has multi resp in a tik''"
  by (induction v p h ls rule: line_loop.induct) (auto split: if_splits)

lemma line_loop_lines:
  "line_loop v p h ls = Inr (v', p', h', ls') \<Longrightarrow>
   ls' = map (\<lambda>l. l\<lparr>delay := delay l - 1\<rparr>) (filter (\<lambda>l. delay l \<noteq> 0) ls)"
  by (induction v p h ls arbitrary: v' p' h' ls' rule: line_loop.induct) (auto split: if_splits)

text \<open>Without the window, the only other fault is the second answer in a cycle.\<close>

lemma new_req_wf:
  assumes "length (ch_lines s) \<le> MAX_CACHE_SIZE" and "live_req s"
  shows "length (ch_lines (cache_new_req s)) \<le> MAX_CACHE_SIZE"
    and "ch_hsk_q (cache_new_req s) \<Longrightarrow> \<exists>l\<in>set (ch_lines (cache_new_req s)). delay l \<noteq> 0"
  using assms by (auto simp: cache_new_req_def live_req_def Let_def split: if_splits)

lemma cache_eval_wf:
  assumes wf: "cache_wf s" and live: "live_req s"
  shows "cache_eval s m = Inr (s', m') \<Longrightarrow> cache_wf s'"
    and "cache_eval s m = Inl e \<Longrightarrow> misalign e \<or> e = Throw ''l1d has multi resp in a tik''"
proof -
  let ?s0 = "s\<lparr>ch_ld_resp_vld := False, ch_st_resp_vld := False, ch_l1d_req_vld := False\<rparr>"
  have wf0: "cache_wf ?s0" using wf by (simp add: cache_wf_def)
  have upd: "cache_wf s2" if old: "cache_old_req ?s0 m = Inr (s1, m1)" and new: "cache_update (cache_new_req s1) = Inr s2" for s1 m1 s2
  proof -
    have "length (map line_sig (ch_lines s1)) \<le> length (map line_sig (ch_lines s))" "live_req s1"
      using old_req_lines [OF old] live by (auto simp: live_req_def simp del: length_map) (simp_all add: map_butlast)
    then have "length (ch_lines s1) \<le> MAX_CACHE_SIZE" "live_req s1" using wf by (simp_all add: cache_wf_def)
    from new_req_wf [OF this] show ?thesis
      using new le_trans [OF length_filter_le [of "\<lambda>l. delay l \<noteq> 0" "ch_lines (cache_new_req s1)"]]
      by (auto simp: cache_update_def cache_wf_def filter_empty_conv dest!: line_loop_lines)
  qed
  show "cache_eval s m = Inr (s', m') \<Longrightarrow> cache_wf s'"
    using upd by (auto simp: cache_eval_def)
  show "cache_eval s m = Inl e \<Longrightarrow> misalign e \<or> e = Throw ''l1d has multi resp in a tik''"
    using old_req_fault [OF wf0, of m e] by (auto simp: cache_eval_def cache_update_def dest: line_loop_fault)
qed

lemma cache_cycle_wf:
  assumes wf: "cache_wf s"
  shows "cache_cycle i (s, m, r) = Inr (s', m', r') \<Longrightarrow> cache_wf s'"
    and "cache_cycle i (s, m, r) = Inl e \<Longrightarrow> misalign e \<or> e = Throw ''l1d has multi resp in a tik''"
proof -
  let ?s = "s\<lparr>ch_req_vld := (ci_req i \<noteq> None), ch_kill_req := ci_kill i\<rparr>"
  have wf': "cache_wf ?s" using wf by (simp add: cache_wf_def)
  obtain s1 r1 where d: "(case ci_req i of None \<Rightarrow> Inr (?s, r) | Some a \<Rightarrow> cache_req r a ?s) = Inr (s1, r1)"
    and s1: "cache_wf s1" "live_req s1"
  proof (cases "ci_req i")
    case None
    then show ?thesis using that [of ?s r] wf' by (simp add: live_req_def)
  next
    case (Some a)
    obtain t r1 where t: "cache_req r a ?s = Inr (t, r1)" "t = ?s\<lparr>ch_req := ch_req t\<rparr>" "0 < delay (ch_req t)"
      using cache_req_result [OF wf'] by blast
    have "cache_wf t" using wf' by (subst t(2)) (simp add: cache_wf_def)
    then show ?thesis using that [of t r1] Some t(1,3) by (simp add: live_req_def)
  qed
  have eq: "cache_cycle i (s, m, r) = res_map (\<lambda>(s2, m'). (s2, m', r1)) (cache_eval s1 m)"
    by (simp only: cache_cycle_def Let_def prod.case d res_bind.simps)
  show "cache_cycle i (s, m, r) = Inr (s', m', r') \<Longrightarrow> cache_wf s'"
    using cache_eval_wf(1) [OF s1] by (auto simp: eq)
  show "cache_cycle i (s, m, r) = Inl e \<Longrightarrow> misalign e \<or> e = Throw ''l1d has multi resp in a tik''"
    using cache_eval_wf(2) [OF s1] by (auto simp: eq)
qed

lemma cache_eval_step:
  assumes inv: "cache_inv s" and fresh: "fresh_req s"
  shows "cache_eval s m = Inr (s', m') \<Longrightarrow> cache_inv s'" and "cache_eval s m = Inl e \<Longrightarrow> misalign e"
proof -
  let ?s0 = "s\<lparr>ch_ld_resp_vld := False, ch_st_resp_vld := False, ch_l1d_req_vld := False\<rparr>"
  have inv0: "cache_inv ?s0" using inv by (simp add: cache_inv_def)
  have upd: "\<exists>s2. cache_update (cache_new_req s1) = Inr s2 \<and> cache_inv s2"
    if old: "cache_old_req ?s0 m = Inr (s1, m1)" for s1 m1
  proof -
    let ?t = "cache_new_req s1"
    let ?ls = "map (\<lambda>l. l\<lparr>delay := delay l - 1\<rparr>) (filter (\<lambda>l. delay l \<noteq> 0) (ch_lines ?t))"
    note o = old_req_lines [OF old]
    have fresh1: "fresh_req s1" using fresh o by (simp add: fresh_req_def)
    have sig: "map line_sig (ch_lines s1) = map line_sig (ch_lines s) \<or>
        map line_sig (ch_lines s1) = map line_sig (butlast (ch_lines s))"
      and ds: "ch_delay_set s1 = ch_delay_set s" using o by simp_all
    note n = new_req_lines [OF sig inv ds fresh1]
    have t: "ch_hit_set ?t = ch_hit_set s" "\<not> ch_ld_resp_vld ?t"
      using o by (auto simp: cache_new_req_def Let_def)
    obtain v p h where l: "line_loop (ch_ld_resp_vld ?t) (ch_ld_resp ?t) (ch_hit_set ?t) (ch_lines ?t) =
        Inr (v, p, h, ?ls)" "h \<subseteq> ch_hit_set ?t \<union> paddr ` set (ch_lines ?t)"
      using line_loop_ok [of "ch_lines ?t" "ch_ld_resp_vld ?t" "ch_ld_resp ?t" "ch_hit_set ?t"] n t(2)
      by auto
    have hits: "\<forall>q\<in>h. 0x80000000 \<le> q"
    proof
      fix q
      assume "q \<in> h"
      then have "q \<in> ch_hit_set s \<or> q \<in> paddr ` set (ch_lines ?t)" using l(2) t(1) by blast
      moreover have "\<forall>x\<in>ch_hit_set s. 0x80000000 \<le> x" using inv by (simp add: cache_inv_def)
      moreover have "\<forall>x\<in>set (ch_lines ?t). 0x80000000 \<le> paddr x" using n by simp
      ultimately show "0x80000000 \<le> q" by blast
    qed
    have len: "length ?ls \<le> MAX_CACHE_SIZE"
      using n le_trans [OF length_filter_le [of "\<lambda>l. delay l \<noteq> 0" "ch_lines ?t"]] by simp
    have ne: "ch_hsk_q ?t \<Longrightarrow> ?ls \<noteq> []"
      using n by (force simp: filter_empty_conv)
    show ?thesis
      using l(1) hits len ne n distinct_decremented [of "ch_lines ?t"]
      by (auto simp: cache_update_def cache_inv_def)
  qed
  show "cache_eval s m = Inr (s', m') \<Longrightarrow> cache_inv s'"
    using upd by (auto simp: cache_eval_def)
  show "cache_eval s m = Inl e \<Longrightarrow> misalign e"
    using upd old_req_fault [OF cache_inv_wf [OF inv0], of m e] by (auto simp: cache_eval_def)
qed

lemma cache_cycle_step:
  assumes inv: "cache_inv s" and win: "\<And>a. ci_req i = Some a \<Longrightarrow> in_window a"
  shows "cache_cycle i (s, m, r) = Inr (s', m', r') \<Longrightarrow> cache_inv s'"
    and "cache_cycle i (s, m, r) = Inl e \<Longrightarrow> misalign e"
proof -
  let ?s = "s\<lparr>ch_req_vld := (ci_req i \<noteq> None), ch_kill_req := ci_kill i\<rparr>"
  have inv': "cache_inv ?s" using inv by (simp add: cache_inv_def)
  obtain s1 r1 where d: "(case ci_req i of None \<Rightarrow> Inr (?s, r) | Some a \<Rightarrow> cache_req r a ?s) = Inr (s1, r1)"
    and s1: "cache_inv s1" "fresh_req s1"
  proof (cases "ci_req i")
    case None
    then show ?thesis using that [of ?s r] inv' by (simp add: fresh_req_def)
  next
    case (Some a)
    obtain t r1 where t: "cache_req r a ?s = Inr (t, r1)" "t = ?s\<lparr>ch_req := ch_req t\<rparr>"
      and f: "delay (ch_req t) \<notin> ch_delay_set ?s" "0 < delay (ch_req t)" "0x80000000 \<le> paddr (ch_req t)"
      using cache_req_fresh [OF inv' win [OF Some]] by blast
    have "cache_inv t" "ch_delay_set t = ch_delay_set ?s"
      using inv' by (subst t(2), simp add: cache_inv_def)+
    then show ?thesis using that [of t r1] Some t(1) f by (simp add: fresh_req_def)
  qed
  have eq: "cache_cycle i (s, m, r) = res_map (\<lambda>(s2, m'). (s2, m', r1)) (cache_eval s1 m)"
    by (simp only: cache_cycle_def Let_def prod.case d res_bind.simps)
  show "cache_cycle i (s, m, r) = Inr (s', m', r') \<Longrightarrow> cache_inv s'"
    using cache_eval_step(1) [OF s1] by (auto simp: eq)
  show "cache_cycle i (s, m, r) = Inl e \<Longrightarrow> misalign e"
    using cache_eval_step(2) [OF s1] by (auto simp: eq)
qed

abbreviation windowed :: "cache_in list \<Rightarrow> bool" where
  "windowed is \<equiv> list_all (\<lambda>i. case ci_req i of None \<Rightarrow> True | Some a \<Rightarrow> in_window a) is"

lemma cache_run_window:
  assumes "windowed is"
  shows "case run_res cache_cycle is (cache_init, m, r) of Inl e \<Rightarrow> misalign e | Inr ss \<Rightarrow> list_all (\<lambda>t. cache_inv (fst t)) ss"
proof (rule run_res_outcome [OF _ _ _ assms])
  show "cache_inv (fst (cache_init, m, r))" by (simp add: cache_inv_def cache_init_def)
next
  fix i t t'
  assume *: "cache_inv (fst t)" "case ci_req i of None \<Rightarrow> True | Some a \<Rightarrow> in_window a" "cache_cycle i t = Inr t'"
  have "in_window a" if "ci_req i = Some a" for a using *(2) that by simp
  with * show "cache_inv (fst t')"
    using cache_cycle_step(1) [of "fst t" i "fst (snd t)" "snd (snd t)" "fst t'" "fst (snd t')" "snd (snd t')"] by simp
next
  fix i t e
  assume *: "cache_inv (fst t)" "case ci_req i of None \<Rightarrow> True | Some a \<Rightarrow> in_window a" "cache_cycle i t = Inl e"
  have "in_window a" if "ci_req i = Some a" for a using *(2) that by simp
  with * show "misalign e" using cache_cycle_step(2) [of "fst t" i "fst (snd t)" "snd (snd t)" e] by simp
qed

lemma cache_run_wf:
  "case run_res cache_cycle is (cache_init, m, r) of
     Inl e \<Rightarrow> misalign e \<or> e = Throw ''l1d has multi resp in a tik'' | Inr ss \<Rightarrow> list_all (\<lambda>t. cache_wf (fst t)) ss"
proof (rule run_res_outcome [where W = "\<lambda>_. True"])
  show "cache_wf (fst (cache_init, m, r))" by (simp add: cache_wf_def cache_init_def)
next
  fix i t t'
  assume "cache_wf (fst t)" "cache_cycle i t = Inr t'"
  then show "cache_wf (fst t')"
    using cache_cycle_wf(1) [of "fst t" i "fst (snd t)" "snd (snd t)" "fst t'" "fst (snd t')" "snd (snd t')"] by simp
next
  fix i t e
  assume "cache_wf (fst t)" "cache_cycle i t = Inl e"
  then show "misalign e \<or> e = Throw ''l1d has multi resp in a tik''"
    using cache_cycle_wf(2) [of "fst t" i "fst (snd t)" "snd (snd t)" e] by simp
qed (simp add: list_all_iff)

section \<open>Properties\<close>

text \<open>
  C15. Which faults the cache can have, for all requests and kills. The delay search of a request always ends, and the
  back of an empty list is never read or popped; the only faults are a misaligned access and the exception
  \<open>l1d has multi resp in a tik\<close>, and the latter only when some request lies outside the memory window of the bench. As long as
  every request lies in the window, no two lines in flight have the same delay, and no request hits, because the hit set holds addresses
  (from \<open>0x80000000\<close> on) while it is searched for tags (below it).
\<close>

theorem cache_single_response:
  "case run_res cache_cycle is (cache_init, m, r) of
     Inl e \<Rightarrow> misalign e \<or> e = Throw ''l1d has multi resp in a tik'' \<and> \<not> windowed is
   | Inr ss \<Rightarrow>
       list_all (\<lambda>t. length (ch_lines (fst t)) \<le> MAX_CACHE_SIZE) ss \<and>
       (windowed is \<longrightarrow>
          list_all (\<lambda>t. distinct (map delay (ch_lines (fst t))) \<and> (\<forall>p\<in>ch_hit_set (fst t). 0x80000000 \<le> p)) ss)"
proof (cases "run_res cache_cycle is (cache_init, m, r)")
  case (Inl e)
  then show ?thesis using cache_run_wf [of "is" m r] cache_run_window [of "is" m r] by auto
next
  case (Inr ss)
  then show ?thesis
    using cache_run_wf [of "is" m r] cache_run_window [of "is" m r]
    by (auto simp: cache_wf_def cache_inv_def list_all_iff)
qed

definition demo_load :: cache_in where
  "demo_load = \<lparr>ci_req = Some \<lparr>ca_vi = 1, ca_vo = 8, ca_pt = 0x80000, ca_pa = 0, ca_d = 0, ca_ri = 1,
                             ca_rd = 2, ca_fence = False, ca_ls = False, ca_op = 3\<rparr>, ci_kill = False\<rparr>"

theorem cache_single_response_witness:
  "case run_res cache_cycle [demo_load, demo_load] (cache_init, lsu_mem_init, \<lambda>_. 0) of
     Inl e \<Rightarrow> misalign e
   | Inr ss \<Rightarrow> list_all (\<lambda>t. distinct (map delay (ch_lines (fst t))) \<and> (\<forall>p\<in>ch_hit_set (fst t). 0x80000000 \<le> p)) ss"
proof -
  have "windowed [demo_load, demo_load]"
    by (simp add: demo_load_def in_window_def args_paddr_def width_params)
  then show ?thesis
    using cache_single_response [of "[demo_load, demo_load]" lsu_mem_init "\<lambda>_. 0"] by (auto split: sum.splits)
qed

text \<open>
  The window is needed: a load of address 0 puts 0 in the hit set, where the tag 0 then hits. Two cycles after a
  load that misses with delay 5, such a hit gets the delay 3 the other has come down to, and both are answered at once.
\<close>

definition low_load :: "u64 \<Rightarrow> cache_in" where
  "low_load tag = \<lparr>ci_req = Some \<lparr>ca_vi = 0, ca_vo = 0, ca_pt = tag, ca_pa = 0, ca_d = 0, ca_ri = 1,
                             ca_rd = 2, ca_fence = False, ca_ls = False, ca_op = 0\<rparr>, ci_kill = False\<rparr>"

definition no_load :: cache_in where
  "no_load = \<lparr>ci_req = None, ci_kill = False\<rparr>"

lemma free_delay_free: "d \<notin> D \<Longrightarrow> free_delay D d = Some d"
  by (subst free_delay.simps) simp

lemma cache_multi_response:
  "run_res cache_cycle [low_load 0, no_load, no_load, no_load, no_load, no_load, low_load 5, no_load, low_load 0,
      no_load, no_load, no_load] (cache_init, m, \<lambda>_. 0) = Inl (Throw ''l1d has multi resp in a tik'')"
  by (simp add: cache_cycle_def low_load_def no_load_def cache_init_def cache_req_def free_delay_free args_paddr_def width_params
      cache_eval_def cache_old_req_def cache_exec_def cache_load_def cache_new_req_def cache_update_def
      delay_params size_params ldu_ops rand_def mk_line_def fm_lb_def Let_def
      del: res_bind_Inl_iff res_map_Inl_iff)

end
