(* ===== verification/Lsu_Bench.thy ===== *)
theory Lsu_Bench
  imports Lsu_Monitor Lockstep Bench_Loop Fake_Tlb Fake_Bus Fake_Cache
begin

unbundle bit_operations_syntax

text \<open>
  The bench of the load/store unit, \<open>sim/lsu_ut/lsuv1.cpp\<close>: the wiring between the unit and the
  monitor, reorder buffer, translation buffer, cache and bus models, the clock, and the main
  loop with what follows it. The unit is the Verilator model \<open>Vlsuv1\<close>, generated from Verilog;
  it is an argument here: a step function on an arbitrary state and a read-out of its ports.
\<close>

section \<open>Ports of the unit\<close>

record lsu_out =
  lsu_debug_head_o :: u16
  lsu_debug_tail_o :: u16
  lsu_debug_iss_vld_o :: bool
  lsu_debug_iss_is_fenced_o :: bool
  lsu_debug_iss_lsq_index_o :: u16
  lsu_rdy_o :: bool
  lsu_rcu_comm_vld_o :: bool
  lsu_rcu_comm_data_o :: u64
  lsu_rcu_comm_rob_index_o :: u8
  lsu_rcu_comm_rd_addr_o :: u8
  lsu_dtlb_iss_vld_o :: bool
  lsu_dtlb_iss_vtag_o :: u64
  lsu_l1d_ld_req_vld_o :: bool
  lsu_l1d_ld_req_index_o :: u64
  lsu_l1d_ld_req_offset_o :: u64
  lsu_l1d_ld_req_vtag_o :: u64
  lsu_l1d_ld_req_rob_index_o :: u8
  lsu_l1d_ld_req_rd_addr_o :: u8
  lsu_l1d_ld_req_opcode_o :: u8
  lsu_l1d_st_req_vld_o :: bool
  lsu_l1d_st_req_paddr_o :: u64
  lsu_l1d_st_req_data_o :: u64
  lsu_l1d_st_req_rob_index_o :: u8
  lsu_l1d_st_req_rd_addr_o :: u8
  lsu_l1d_st_req_is_fence_o :: bool
  lsu_l1d_st_req_opcode_o :: u8
  lsu_debug_l1d_s1_kill_o :: bool
  lsu_debug_dtlb_miss_kill_o :: bool
  lsu_wb_cyc_o :: bool
  lsu_wb_adr_o :: u64
  lsu_wb_dat_o :: u64
  lsu_wb_we_o :: bool
  lsu_wb_sel_o :: u8

record lsu_in =
  clk :: bool
  rst :: bool
  flush :: bool
  rcu_lsu_vld_i :: bool
  rcu_lsu_ls_i :: bool
  rcu_lsu_ld_opcode_i :: u8
  rcu_lsu_st_opcode_i :: u8
  rcu_lsu_fenced_i :: bool
  rcu_agu_virt_base_i :: u64
  rcu_agu_virt_offset_i :: u64
  rcu_lsu_rob_index_i :: u8
  rcu_lsu_rd_addr_i :: u8
  rcu_lsu_data_i :: u64
  rcu_lsu_wakeup_i :: bool
  rcu_lsu_wakeup_rob_index_i :: u8
  dtlb_lsu_rdy_i :: bool
  dtlb_lsu_vld_i :: bool
  dtlb_lsu_hit_i :: bool
  dtlb_lsu_ptag_i :: u64
  dtlb_lsu_exception_vld_i :: bool
  dtlb_lsu_ecause_i :: u8
  l1d_lsu_ld_req_rdy_i :: bool
  l1d_lsu_st_req_rdy_i :: bool
  l1d_lsu_ld_replay_vld_i :: bool
  l1d_lsu_wb_vld_i :: u8
  l1d_lsu_wb_rob_index_i :: u16
  l1d_lsu_prf_wb_vld_i :: bool
  l1d_lsu_prf_wb_rd_addr_i :: u8
  l1d_lsu_prf_wb_data_i0 :: u32
  l1d_lsu_prf_wb_data_i1 :: u32
  wb_lsu_ack_i :: bool
  wb_lsu_dat_i :: u64

definition lsu_reset :: lsu_in where
  "lsu_reset =
     \<lparr>clk = False, rst = True, flush = False, rcu_lsu_vld_i = False, rcu_lsu_ls_i = False,
      rcu_lsu_ld_opcode_i = 0, rcu_lsu_st_opcode_i = 0, rcu_lsu_fenced_i = False,
      rcu_agu_virt_base_i = 0, rcu_agu_virt_offset_i = 0, rcu_lsu_rob_index_i = 0,
      rcu_lsu_rd_addr_i = 0, rcu_lsu_data_i = 0, rcu_lsu_wakeup_i = False,
      rcu_lsu_wakeup_rob_index_i = 0, dtlb_lsu_rdy_i = False, dtlb_lsu_vld_i = False,
      dtlb_lsu_hit_i = False, dtlb_lsu_ptag_i = 0, dtlb_lsu_exception_vld_i = False,
      dtlb_lsu_ecause_i = 0, l1d_lsu_ld_req_rdy_i = False, l1d_lsu_st_req_rdy_i = False,
      l1d_lsu_ld_replay_vld_i = False, l1d_lsu_wb_vld_i = 0, l1d_lsu_wb_rob_index_i = 0,
      l1d_lsu_prf_wb_vld_i = False, l1d_lsu_prf_wb_rd_addr_i = 0, l1d_lsu_prf_wb_data_i0 = 0,
      l1d_lsu_prf_wb_data_i1 = 0, wb_lsu_ack_i = False, wb_lsu_dat_i = 0\<rparr>"

section \<open>State of the bench\<close>

definition LSU_MAX_TIME :: nat where "LSU_MAX_TIME = 4000000000"
definition LSU_TEST_NUM :: u64 where "LSU_TEST_NUM = 10000000"
definition RST_TIME :: nat where "RST_TIME = 100"

record 'd lsu_bench =
  lb_time :: nat
  lb_in :: lsu_in
  lb_dut :: 'd
  lb_mon :: lsu_monitor
  lb_rcu :: rcu
  lb_tlb :: tlb
  lb_cache :: cache
  lb_bus :: bus
  lb_mem :: lsu_mem
  lb_rng :: rng

text \<open>
  \<open>tm\<close> is the number of test cases, \<open>LSU_TEST_NUM\<close> in the program; \<open>d\<close> is the freshly constructed unit,
  \<open>jq\<close> and \<open>j\<close> the uninitialised words of the TLB.
\<close>

definition lsu_bench_init :: "u64 \<Rightarrow> 'd \<Rightarrow> u64 \<Rightarrow> u64 \<Rightarrow> rng \<Rightarrow> 'd lsu_bench" where
  "lsu_bench_init tm d jq j r =
     \<lparr>lb_time = 0, lb_in = lsu_reset, lb_dut = d, lb_mon = lsu_mon_init tm,
      lb_rcu = rcu_init, lb_tlb = tlb_init jq j, lb_cache = cache_init, lb_bus = bus_init,
      lb_mem = lsu_mem_init, lb_rng = r\<rparr>"

section \<open>One unit of time\<close>

definition drive_clock :: "'d lsu_bench \<Rightarrow> 'd lsu_bench" where
  "drive_clock s =
     (if lb_time s mod 10 = 0 then s\<lparr>lb_in := (lb_in s)\<lparr>clk := True\<rparr>\<rparr>
      else if lb_time s mod 10 = 5 then s\<lparr>lb_in := (lb_in s)\<lparr>clk := False\<rparr>\<rparr>
      else s)"

text \<open>The setters of the monitor and of the reorder buffer.\<close>

definition lsu_unit_out :: "lsu_out \<Rightarrow> unit_out" where
  "lsu_unit_out q =
     \<lparr>uo_rdy = lsu_rdy_o q, uo_comm_vld = lsu_rcu_comm_vld_o q, uo_comm_data = lsu_rcu_comm_data_o q,
      uo_comm_rob_index = lsu_rcu_comm_rob_index_o q, uo_comm_rd_addr = lsu_rcu_comm_rd_addr_o q\<rparr>"

definition lsu_fence_in :: "lsu_out \<Rightarrow> fence_in" where
  "lsu_fence_in q =
     \<lparr>fi_head = lsu_debug_head_o q, fi_tail = lsu_debug_tail_o q, fi_iss_vld = lsu_debug_iss_vld_o q,
      fi_iss_is_fenced = lsu_debug_iss_is_fenced_o q, fi_iss_lsq_index = lsu_debug_iss_lsq_index_o q\<rparr>"

definition lsu_connect_core :: "lsu_out \<Rightarrow> 'd lsu_bench \<Rightarrow> 'd lsu_bench" where
  "lsu_connect_core q s =
     s\<lparr>lb_rcu := rcu_set (connect_rcu (lsu_unit_out q) (lm_core (lb_mon s))) (lb_rcu s),
       lb_mon := \<lparr>lm_core = connect_mon (lb_rcu s) (lm_core (lb_mon s)),
                  lm_fence = fence_set (lsu_fence_in q) (lm_fence (lb_mon s))\<rparr>\<rparr>"

definition drive_rcu_ports :: "'d lsu_bench \<Rightarrow> 'd lsu_bench" where
  "drive_rcu_ports s =
     (let rq = lsu_req (lb_rcu s) in
      s\<lparr>lb_in := (lb_in s)\<lparr>rst := False, rcu_lsu_vld_i := lsu_req_vld (lb_rcu s),
          rcu_lsu_ls_i := load_or_store rq, rcu_lsu_ld_opcode_i := opcode rq,
          rcu_lsu_st_opcode_i := opcode rq, rcu_lsu_fenced_i := is_fenced rq,
          rcu_agu_virt_base_i := paddr rq, rcu_agu_virt_offset_i := 0,
          rcu_lsu_rob_index_i := rob_index rq, rcu_lsu_rd_addr_i := rd_addr rq,
          rcu_lsu_data_i := data rq, rcu_lsu_wakeup_i := wake_up_vld (lb_rcu s),
          rcu_lsu_wakeup_rob_index_i := ucast (wake_up_rob_index (lb_rcu s))\<rparr>\<rparr>)"

definition drive_tlb_ports :: "lsu_out \<Rightarrow> 'd lsu_bench \<Rightarrow> 'd lsu_bench" where
  "drive_tlb_ports q s =
     (let (t, r) = tlb_req (lb_rng s) (lsu_dtlb_iss_vld_o q) (lsu_dtlb_iss_vtag_o q) (lb_tlb s) in
      s\<lparr>lb_in := (lb_in s)\<lparr>dtlb_lsu_rdy_i := True, dtlb_lsu_vld_i := tlb_valid (lb_tlb s),
          dtlb_lsu_hit_i := tlb_resp (lb_tlb s), dtlb_lsu_ptag_i := tlb_pt (lb_tlb s)\<rparr>,
        lb_tlb := t, lb_rng := r\<rparr>)"

text \<open>A store request has priority over a load request.\<close>

definition lsu_cache_args :: "lsu_out \<Rightarrow> cache_args option" where
  "lsu_cache_args q =
     (if lsu_l1d_st_req_vld_o q then
        Some \<lparr>ca_vi = 0, ca_vo = 0, ca_pt = 0, ca_pa = lsu_l1d_st_req_paddr_o q,
              ca_d = lsu_l1d_st_req_data_o q, ca_ri = lsu_l1d_st_req_rob_index_o q,
              ca_rd = lsu_l1d_st_req_rd_addr_o q, ca_fence = lsu_l1d_st_req_is_fence_o q,
              ca_ls = True, ca_op = lsu_l1d_st_req_opcode_o q\<rparr>
      else if lsu_l1d_ld_req_vld_o q then
        Some \<lparr>ca_vi = lsu_l1d_ld_req_index_o q, ca_vo = lsu_l1d_ld_req_offset_o q,
              ca_pt = lsu_l1d_ld_req_vtag_o q, ca_pa = 0, ca_d = 0,
              ca_ri = lsu_l1d_ld_req_rob_index_o q, ca_rd = lsu_l1d_ld_req_rd_addr_o q,
              ca_fence = False, ca_ls = False, ca_op = lsu_l1d_ld_req_opcode_o q\<rparr>
      else None)"

definition drive_cache_ports :: "lsu_out \<Rightarrow> 'd lsu_bench \<Rightarrow> 'd lsu_bench res" where
  "drive_cache_ports q s =
     (let c = (lb_cache s)\<lparr>ch_req_vld := (lsu_l1d_ld_req_vld_o q \<or> lsu_l1d_st_req_vld_o q)\<rparr> in
      res_map (\<lambda>(c', r).
        s\<lparr>lb_in := (lb_in s)\<lparr>l1d_lsu_ld_req_rdy_i := cache_ready c, l1d_lsu_st_req_rdy_i := cache_ready c,
            l1d_lsu_ld_replay_vld_i := False,
            l1d_lsu_wb_vld_i := push_bit 2 (of_flag (ch_st_resp_vld c)) + of_flag (ch_ld_resp_vld c),
            l1d_lsu_wb_rob_index_i := push_bit (ROB_SIZE_WIDTH * 2) (ucast (rob_index (ch_st_resp c))) +
              ucast (rob_index (ch_ld_resp c)),
            l1d_lsu_prf_wb_vld_i := ch_ld_resp_vld c, l1d_lsu_prf_wb_rd_addr_i := rd_addr (ch_ld_resp c),
            l1d_lsu_prf_wb_data_i0 := ucast (data (ch_ld_resp c)),
            l1d_lsu_prf_wb_data_i1 := ucast (drop_bit 32 (data (ch_ld_resp c)))\<rparr>,
          lb_cache := c'\<lparr>ch_kill_req := (lsu_debug_l1d_s1_kill_o q \<or> lsu_debug_dtlb_miss_kill_o q)\<rparr>,
          lb_rng := r\<rparr>)
        (case lsu_cache_args q of None \<Rightarrow> Inr (c, lb_rng s) | Some a \<Rightarrow> cache_req (lb_rng s) a c))"

definition drive_bus_ports :: "lsu_out \<Rightarrow> 'd lsu_bench \<Rightarrow> 'd lsu_bench" where
  "drive_bus_ports q s =
     (let (b, r) = bus_set_req (lb_rng s) (lsu_wb_adr_o q) (lsu_wb_dat_o q) 0 0 0 False (lsu_wb_we_o q)
                     (lsu_wb_sel_o q) (bus_set_vld (lsu_wb_cyc_o q) (lb_bus s)) in
      s\<lparr>lb_in := (lb_in s)\<lparr>wb_lsu_ack_i := bus_resp_vld b, wb_lsu_dat_i := data (bus_entry b)\<rparr>,
        lb_bus := b, lb_rng := r\<rparr>)"

definition lsu_drive :: "lsu_out \<Rightarrow> 'd lsu_bench \<Rightarrow> 'd lsu_bench res" where
  "lsu_drive q s =
     res_map (drive_bus_ports q)
       (drive_cache_ports q (drive_tlb_ports q (drive_rcu_ports (lsu_connect_core q s))))"

text \<open>\<open>monitor->eval(); rcu->eval(); tlb->eval(); cache->eval(); bus->eval();\<close>\<close>

definition lsu_eval_all :: "req \<Rightarrow> 'd lsu_bench \<Rightarrow> 'd lsu_bench res" where
  "lsu_eval_all stale s =
     res_bind (lsu_mon_eval (of_nat (lb_time s)) (lb_rng s) (lb_mon s)) (\<lambda>(m, r).
     res_bind (lsu_rcu_eval stale (lb_rcu s)) (\<lambda>c.
     res_bind (cache_eval (lb_cache s) (lb_mem s)) (\<lambda>(ca, mem1).
     res_map (\<lambda>(b, mem2).
       s\<lparr>lb_mon := m, lb_rcu := c, lb_tlb := tlb_eval (lb_tlb s), lb_cache := ca, lb_bus := b,
         lb_mem := mem2, lb_rng := r\<rparr>)
       (bus_eval (lb_bus s) mem1))))"

definition lsu_dut_eval :: "(lsu_in \<Rightarrow> 'd \<Rightarrow> 'd) \<Rightarrow> 'd lsu_bench \<Rightarrow> 'd lsu_bench" where
  "lsu_dut_eval dut s = s\<lparr>lb_dut := dut (lb_in s) (lb_dut s), lb_time := lb_time s + 1\<rparr>"

definition lsu_time_step ::
    "(lsu_in \<Rightarrow> 'd \<Rightarrow> 'd) \<Rightarrow> ('d \<Rightarrow> lsu_out) \<Rightarrow> (nat \<Rightarrow> req) \<Rightarrow> 'd lsu_bench \<Rightarrow> 'd lsu_bench res" where
  "lsu_time_step dut ports stale s0 =
     (let s = drive_clock s0 in
      if lb_time s > RST_TIME then
        res_bind (lsu_drive (ports (lb_dut s)) s) (\<lambda>s1.
        res_map (lsu_dut_eval dut)
          (if lb_time s mod 10 = 0 then lsu_eval_all (stale (lb_time s)) s1 else Inr s1))
      else Inr (lsu_dut_eval dut s))"

section \<open>The main loop and its end\<close>

lemma drive_clock_same [simp]:
  "lb_time (drive_clock s) = lb_time s" "lb_mon (drive_clock s) = lb_mon s"
  "lb_rcu (drive_clock s) = lb_rcu s" "lb_mem (drive_clock s) = lb_mem s"
  "lb_dut (drive_clock s) = lb_dut s"
  by (simp_all add: drive_clock_def)

lemma lsu_drive_time: "lsu_drive q s = Inr s' \<Longrightarrow> lb_time s' = lb_time s"
  by (auto simp: lsu_drive_def drive_cache_ports_def drive_bus_ports_def drive_tlb_ports_def
      drive_rcu_ports_def lsu_connect_core_def Let_def case_prod_beta)

lemma lsu_eval_all_time: "lsu_eval_all stale s = Inr s' \<Longrightarrow> lb_time s' = lb_time s"
  by (auto simp: lsu_eval_all_def)

lemma lsu_time_step_time:
  "lsu_time_step dut ports stale s = Inr s' \<Longrightarrow> lb_time s' = Suc (lb_time s)"
  by (auto simp: lsu_time_step_def lsu_dut_eval_def Let_def
      dest!: lsu_drive_time lsu_eval_all_time split: if_splits)

text \<open>\<open>while (!monitor->ut_done() && main_time < MAX_TIME)\<close>\<close>

function lsu_loop ::
    "(lsu_in \<Rightarrow> 'd \<Rightarrow> 'd) \<Rightarrow> ('d \<Rightarrow> lsu_out) \<Rightarrow> (nat \<Rightarrow> req) \<Rightarrow> 'd lsu_bench \<Rightarrow> 'd lsu_bench res" where
  "lsu_loop dut ports stale s =
     (if \<not> ut_done (lm_core (lb_mon s)) \<and> lb_time s < LSU_MAX_TIME then
        (case lsu_time_step dut ports stale s of
           Inl e \<Rightarrow> Inl e
         | Inr s' \<Rightarrow> lsu_loop dut ports stale s')
      else Inr s)"
  by pat_completeness auto
termination
  by (relation "measure (\<lambda>(_, _, _, s). LSU_MAX_TIME - lb_time s)")
    (auto dest: lsu_time_step_time)

declare lsu_loop.simps [simp del]




section \<open>The invariant of the bench\<close>

interpretation lsu_lockstep: lockstep "lsu_rcu_step stale" fm_get_byte fm_set_byte lsu_check lsu_draw 1
  by unfold_locales (rule lsu_draw_legal)

definition lsu_core :: "'d lsu_bench \<Rightarrow> lsu_mem bench_core" where
  "lsu_core s = \<lparr>bc_mon = lm_core (lb_mon s), bc_rcu = lb_rcu s, bc_rng = lb_rng s\<rparr>"

text \<open>The committed requests that the monitor replays in this unit of time, and along the loop.\<close>

definition lsu_commits :: "'d lsu_bench \<Rightarrow> req list" where
  "lsu_commits s =
     (if RST_TIME < lb_time s \<and> lb_time s mod 10 = 0 then commits_of (lsu_core s) else [])"

function lsu_trace ::
    "(lsu_in \<Rightarrow> 'd \<Rightarrow> 'd) \<Rightarrow> ('d \<Rightarrow> lsu_out) \<Rightarrow> (nat \<Rightarrow> req) \<Rightarrow> 'd lsu_bench \<Rightarrow> req list" where
  "lsu_trace dut ports stale s =
     (if \<not> ut_done (lm_core (lb_mon s)) \<and> lb_time s < LSU_MAX_TIME then
        lsu_commits s @
        (case lsu_time_step dut ports stale s of
           Inl e \<Rightarrow> []
         | Inr s' \<Rightarrow> lsu_trace dut ports stale s')
      else [])"
  by pat_completeness auto
termination
  by (relation "measure (\<lambda>(_, _, _, s). LSU_MAX_TIME - lb_time s)")
    (auto dest: lsu_time_step_time)

declare lsu_trace.simps [simp del]

interpretation lsu_run: traced_loop "lsu_time_step dut ports stale" "lsu_loop dut ports stale"
  "\<lambda>s. \<not> ut_done (lm_core (lb_mon s)) \<and> lb_time s < LSU_MAX_TIME" lb_time LSU_MAX_TIME lsu_commits "lsu_trace dut ports stale"
  for dut ports stale
  by unfold_locales (auto simp: lsu_time_step_time lsu_loop.simps [of dut ports stale] lsu_trace.simps [of dut ports stale])

definition lsu_ref_bytes :: "'d lsu_bench \<Rightarrow> u16 \<Rightarrow> u8" where
  "lsu_ref_bytes s = fm_get_byte (mn_mem (lm_core (lb_mon s)))"

definition lsu_comm_num :: "'d lsu_bench \<Rightarrow> nat" where
  "lsu_comm_num s = unat (mn_resp_comm_num (lm_core (lb_mon s)))"

definition lsu_inv :: "u64 \<Rightarrow> 'd lsu_bench \<Rightarrow> bool" where
  "lsu_inv tm s \<longleftrightarrow> core_inv (lsu_core s) \<and>
     mn_testcase_max (lm_core (lb_mon s)) = tm \<and> lb_time s \<le> LSU_MAX_TIME"

lemma lsu_drive_core:
  assumes "lsu_drive q s = Inr s'"
  shows "lb_rcu s' = rcu_set (connect_rcu (lsu_unit_out q) (lm_core (lb_mon s))) (lb_rcu s) \<and>
         lm_core (lb_mon s') = connect_mon (lb_rcu s) (lm_core (lb_mon s)) \<and>
         lm_fence (lb_mon s') = fence_set (lsu_fence_in q) (lm_fence (lb_mon s)) \<and> lb_time s' = lb_time s"
  using assms
  by (auto simp: lsu_drive_def drive_cache_ports_def drive_bus_ports_def drive_tlb_ports_def
      drive_rcu_ports_def lsu_connect_core_def Let_def case_prod_beta)

lemma core_inv_rng: "core_inv \<lparr>bc_mon = m, bc_rcu = c, bc_rng = r\<rparr> = core_inv \<lparr>bc_mon = m, bc_rcu = c, bc_rng = r'\<rparr>"
  by (simp add: core_inv_def)

text \<open>The evaluation of monitor and reorder buffer is a step of the lock-step composition.\<close>

lemma lsu_eval_is_tick:
  assumes drive: "lsu_drive q s = Inr s1" and ev: "lsu_eval_all stale s1 = Inr s2"
  shows "core_tick (lsu_rcu_step stale) (mon_eval lsu_draw 1 lsu_check)
           (of_nat (lb_time s1), lsu_unit_out q)
           \<lparr>bc_mon = lm_core (lb_mon s), bc_rcu = lb_rcu s, bc_rng = lb_rng s1\<rparr> = Inr (lsu_core s2)"
  using ev lsu_drive_core [OF drive]
  by (auto simp: lsu_eval_all_def lsu_mon_eval_def core_tick_def lsu_rcu_step_def lsu_core_def)

lemma lsu_time_step_inv:
  assumes inv: "lsu_inv tm s" and time: "lb_time s < LSU_MAX_TIME"
    and step: "lsu_time_step dut ports stale s = Inr s'"
  shows "lsu_inv tm s' \<and> spec_run (lsu_ref_bytes s) (lsu_commits s) = Inr (lsu_ref_bytes s') \<and>
         lsu_comm_num s' = lsu_comm_num s + length (lsu_commits s)"
proof (cases "RST_TIME < lb_time s")
  case False
  then show ?thesis
    using assms by (auto simp: lsu_time_step_def lsu_dut_eval_def lsu_inv_def lsu_core_def Let_def
        core_inv_def lsu_commits_def lsu_ref_bytes_def lsu_comm_num_def)
next
  case True
  let ?q = "ports (lb_dut s)" and ?c = "drive_clock s"
  obtain s1 s2 where s1: "lsu_drive ?q ?c = Inr s1"
    and s2: "(if lb_time s mod 10 = 0 then lsu_eval_all (stale (lb_time s)) s1 else Inr s1) = Inr s2"
    and s': "s' = lsu_dut_eval dut s2"
    using step True by (auto simp: lsu_time_step_def Let_def cong: if_cong)
  have time': "lb_time s' \<le> LSU_MAX_TIME" using lsu_time_step_time [OF step] time by simp
  note d = lsu_drive_core [OF s1]
  show ?thesis
  proof (cases "lb_time s mod 10 = 0")
    case False
    then have "s2 = s1" using s2 by simp
    then show ?thesis
      using inv d time' s'
      by (simp add: lsu_inv_def lsu_core_def lsu_dut_eval_def core_inv_def connect_mon_def
          lsu_commits_def lsu_ref_bytes_def lsu_comm_num_def False)
         (simp add: mon_set_def)
  next
    case clk: True
    let ?core = "\<lparr>bc_mon = lm_core (lb_mon s), bc_rcu = lb_rcu s, bc_rng = lb_rng s1\<rparr>"
    have ev: "lsu_eval_all (stale (lb_time s)) s1 = Inr s2" using s2 clk by simp
    have cinv: "core_inv ?core"
      using inv by (simp add: lsu_inv_def lsu_core_def core_inv_def)
    have com: "commits_of ?core = lsu_commits s"
      using clk True by (simp add: lsu_commits_def commits_of_def lsu_core_def)
    have tick: "core_tick (lsu_rcu_step (stale (lb_time s))) (mon_eval lsu_draw 1 lsu_check)
        (of_nat (lb_time s1), lsu_unit_out ?q) ?core = Inr (lsu_core s2)"
      using lsu_eval_is_tick [OF s1 ev] by simp
    have max: "mn_testcase_max (lm_core (lb_mon s2)) = mn_testcase_max (lm_core (lb_mon s))"
      using tick by (auto simp: core_tick_def lsu_core_def connect_mon_def mon_set_def dest!: mon_eval_max)
    show ?thesis
      using lsu_lockstep.tick_inv [OF cinv tick] max inv time' s'
      unfolding com by (simp add: lsu_inv_def lsu_core_def lsu_dut_eval_def lsu_ref_bytes_def lsu_comm_num_def)
  qed
qed

lemma lsu_inv_init: "unat tm < 2 ^ 32 \<Longrightarrow> lsu_inv tm (lsu_bench_init tm d jq j r)"
  using core_inv_init [of tm lsu_mem_init r]
  by (simp add: lsu_inv_def lsu_core_def lsu_bench_init_def lsu_mon_init_def core_init_def)
    (simp add: mon_init_def)

lemma lsu_loop_inv:
  assumes "lsu_inv tm s" and "lsu_loop dut ports stale s = Inr s'"
  shows "lsu_inv tm s' \<and> (ut_done (lm_core (lb_mon s')) \<or> lb_time s' = LSU_MAX_TIME) \<and>
   spec_run (lsu_ref_bytes s) (lsu_trace dut ports stale s) = Inr (lsu_ref_bytes s') \<and>
   lsu_comm_num s' = lsu_comm_num s + length (lsu_trace dut ports stale s)"
proof -
  let ?R = "\<lambda>s os s'. spec_run (lsu_ref_bytes s) os = Inr (lsu_ref_bytes s') \<and> lsu_comm_num s' = lsu_comm_num s + length os"
  have "lsu_inv tm s' \<and> \<not> (\<not> ut_done (lm_core (lb_mon s')) \<and> lb_time s' < LSU_MAX_TIME) \<and> ?R s (lsu_trace dut ports stale s) s'"
    by (rule lsu_run.loop_observed [where I = "lsu_inv tm" and R = ?R, OF assms(2,1)]) (auto dest: lsu_time_step_inv simp: spec_run_append)
  then show ?thesis by (auto simp: lsu_inv_def)
qed

section \<open>The final comparison\<close>

lemma check_of_nat: "i < LSU_MEM_MAX_SIZE \<Longrightarrow> fm_check m (of_nat i) = Inr (fm_mem m i)"
  by (simp add: fm_check_def LSU_MEM_MAX_SIZE_def unsigned_of_nat take_bit_eq_mod)

lemma mem_check_lines: "lsu_mem_check p q \<longleftrightarrow> (\<forall>i<LSU_MEM_MAX_SIZE. fm_mem p i = fm_mem q i)"
  by (auto simp: lsu_mem_check_def list_all_iff check_of_nat)

lemma mem_check_bytes: "lsu_mem_check p q \<longleftrightarrow> fm_get_byte p = fm_get_byte q"
proof
  assume "lsu_mem_check p q"
  then show "fm_get_byte p = fm_get_byte q"
    using line_index_less by (auto simp: mem_check_lines fm_get_byte_def)
next
  assume eq: "fm_get_byte p = fm_get_byte q"
  have "fm_mem p i = fm_mem q i" if "i < LSU_MEM_MAX_SIZE" for i
  proof -
    let ?a = "of_nat (8 * i) :: u16"
    have a: "unat ?a = 8 * i"
      using that by (intro unat_u16_of_nat) (simp add: LSU_MEM_MAX_SIZE_def)
    then have "unat (drop_bit 3 ?a) = i" by (simp add: line_index)
    then show ?thesis using line_is_le_load [of ?a] a eq by simp
  qed
  then show "lsu_mem_check p q" by (simp add: mem_check_lines)
qed

section \<open>Faults\<close>

text \<open>The faults that would blame the monitor's own bookkeeping.\<close>

definition monitor_fault :: "fault \<Rightarrow> bool" where
  "monitor_fault e \<longleftrightarrow>
     e \<in> {Throw ''lsu commit in wrong order'', Undefined ''_rd_free_list is empty'',
           Undefined ''_iss_que is empty''}"

text \<open>
  Why a unit of time that starts in \<open>s\<close> can fault, with \<open>q\<close> on the ports of the unit: the issue port breaks the order of
  fences; the request that was committed is a load whose data is not what the committed stores wrote; an
  access is misaligned; the cache has two answers at once; \<open>front()\<close> of the empty reorder buffer looks like a finished
  request; the random numbers never give the opcode of an I/O load.
\<close>

definition lsu_cause :: "lsu_out \<Rightarrow> req \<Rightarrow> 'd lsu_bench \<Rightarrow> fault \<Rightarrow> bool" where
  "lsu_cause q stale s e \<longleftrightarrow>
     fence_step (lsu_fence_in q) (lm_fence (lb_mon s)) = Inl e \<or>
     e = Throw ''load fail!'' \<and> spec_run (lsu_ref_bytes s) (commits_of (lsu_core s)) = Inl e \<or>
     misalign e \<or>
     e = Throw ''l1d has multi resp in a tik'' \<or>
     e = Undefined ''pop_front of an empty list'' \<and> retirable stale \<or>
     e = Spins \<and> (\<exists>s1. lsu_drive q (drive_clock s) = Inr s1 \<and> lsu_draw (snd (rand (lb_rng s1))) = None)"

lemma lsu_cause_other: "lsu_cause q stale s e \<Longrightarrow> \<not> monitor_fault e"
  by (auto simp: lsu_cause_def monitor_fault_def misalign_def fence_step_def fence_eval_def Let_def split: if_splits)

lemma lsu_drive_cache:
  assumes "cache_wf (lb_cache s)"
  shows "\<exists>s1. lsu_drive q s = Inr s1 \<and> cache_wf (lb_cache s1) \<and> live_req (lb_cache s1)"
proof -
  let ?s = "drive_tlb_ports q (drive_rcu_ports (lsu_connect_core q s))"
  let ?c = "(lb_cache ?s)\<lparr>ch_req_vld := (lsu_l1d_ld_req_vld_o q \<or> lsu_l1d_st_req_vld_o q)\<rparr>"
  have wf: "cache_wf ?c"
    using assms by (simp add: drive_tlb_ports_def drive_rcu_ports_def lsu_connect_core_def cache_wf_def Let_def case_prod_beta)
  have "\<exists>c r. (case lsu_cache_args q of None \<Rightarrow> Inr (?c, lb_rng ?s) | Some a \<Rightarrow> cache_req (lb_rng ?s) a ?c) = Inr (c, r) \<and>
      cache_wf c \<and> live_req c"
  proof (cases "lsu_cache_args q")
    case None
    then show ?thesis using wf by (auto simp: lsu_cache_args_def live_req_def split: if_splits)
  next
    case (Some a)
    obtain c r where c: "cache_req (lb_rng ?s) a ?c = Inr (c, r)" "c = ?c\<lparr>ch_req := ch_req c\<rparr>" "0 < delay (ch_req c)"
      using cache_req_result [OF wf] by blast
    have "cache_wf c" using wf by (subst c(2)) (simp add: cache_wf_def)
    then show ?thesis using Some c(1,3) by (simp add: live_req_def)
  qed
  then show ?thesis
    by (auto simp: lsu_drive_def drive_cache_ports_def drive_bus_ports_def cache_wf_def live_req_def Let_def case_prod_beta)
qed

definition lsu_sane :: "u64 \<Rightarrow> 'd lsu_bench \<Rightarrow> bool" where
  "lsu_sane tm s \<longleftrightarrow> lsu_inv tm s \<and> cache_wf (lb_cache s)"

lemma lsu_sane_step:
  assumes "lsu_sane tm s" and "lb_time s < LSU_MAX_TIME" and "lsu_time_step dut ports stale s = Inr s'"
  shows "lsu_sane tm s'"
proof -
  have "cache_wf (lb_cache (drive_clock s))" using assms(1) by (simp add: lsu_sane_def drive_clock_def)
  then have "cache_wf (lb_cache s')"
    using assms(3) lsu_drive_cache [of "drive_clock s" "ports (lb_dut s)"] cache_eval_wf(1)
    by (fastforce simp: lsu_time_step_def lsu_dut_eval_def lsu_eval_all_def Let_def split: if_splits)
  then show ?thesis
    using lsu_time_step_inv [OF _ assms(2,3)] assms(1) by (simp add: lsu_sane_def)
qed

lemma bus_eval_fault: "bus_eval b m = Inl e \<Longrightarrow> misalign e"
  by (auto simp: bus_eval_def bus_accept_def bus_access_def Let_def fm_faults split: if_splits)

lemma lsu_time_step_cause:
  assumes inv: "lsu_sane tm s" and step: "lsu_time_step dut ports stale s = Inl e"
  shows "lsu_cause (ports (lb_dut s)) (stale (lb_time s)) s e"
proof -
  let ?q = "ports (lb_dut s)" and ?c = "drive_clock s"
  have "cache_wf (lb_cache ?c)" using inv by (simp add: lsu_sane_def drive_clock_def)
  then obtain s1 where s1: "lsu_drive ?q ?c = Inr s1" "cache_wf (lb_cache s1)" "live_req (lb_cache s1)"
    using lsu_drive_cache by blast
  then have ev: "lsu_eval_all (stale (lb_time s)) s1 = Inl e"
    using step by (auto simp: lsu_time_step_def Let_def split: if_splits)
  let ?core = "\<lparr>bc_mon = lm_core (lb_mon s), bc_rcu = lb_rcu s, bc_rng = lb_rng s1\<rparr>"
  have cinv: "core_inv ?core" using inv by (simp add: lsu_sane_def lsu_inv_def lsu_core_def core_inv_def)
  have core: "commits_of ?core = commits_of (lsu_core s)" by (simp add: commits_of_def lsu_core_def)
  note d = lsu_drive_core [OF s1(1)]
  consider (fence) "fence_eval (lm_fence (lb_mon s1)) = Inl e"
    | (mon) "mon_eval lsu_draw 1 lsu_check (of_nat (lb_time s1)) (lb_rng s1) (lm_core (lb_mon s1)) = Inl e"
    | (rcu) "lsu_commit (stale (lb_time s)) (rcu_front_stages lsu_next_index (lb_rcu s1)) = Inl e"
    | (cache) "cache_eval (lb_cache s1) (lb_mem s1) = Inl e" | (bus) m where "bus_eval (lb_bus s1) m = Inl e"
    using ev by (auto simp: lsu_eval_all_def lsu_mon_eval_def lsu_rcu_eval_def)
  then show ?thesis
  proof cases
    case fence
    then show ?thesis using d by (simp add: lsu_cause_def fence_step_def)
  next
    case mon
    then show ?thesis
      using lsu_lockstep.mon_tick(2) [OF cinv, of "of_nat (lb_time s1)" e] d s1(1)
      unfolding core by (auto simp: lsu_cause_def lsu_ref_bytes_def)
  next
    case rcu
    then show ?thesis by (auto simp: lsu_cause_def lsu_commit_def split: list.splits if_splits)
  next
    case cache
    then show ?thesis using cache_eval_wf(2) [OF s1(2,3)] by (auto simp: lsu_cause_def)
  next
    case bus
    then show ?thesis using bus_eval_fault by (auto simp: lsu_cause_def)
  qed
qed

section \<open>A run of one load\<close>

text \<open>
  A unit that reports the first request done as soon as it has seen it, with 0 as the data of the load; the bench
  draws the load of the word at \<open>0x80000000\<close> when every random number is 6. Cache, bus and TLB stay idle.
  With \<open>x\<close> the unit issues a fenced request that is not at the head of its queue.
\<close>

definition ack_dut :: "lsu_in \<Rightarrow> bool \<Rightarrow> bool" where
  "ack_dut i d \<longleftrightarrow> d \<or> rcu_lsu_vld_i i"

definition ack_ports :: "bool \<Rightarrow> bool \<Rightarrow> lsu_out" where
  "ack_ports x d =
     \<lparr>lsu_debug_head_o = 0, lsu_debug_tail_o = 0, lsu_debug_iss_vld_o = x, lsu_debug_iss_is_fenced_o = x,
      lsu_debug_iss_lsq_index_o = 1, lsu_rdy_o = True, lsu_rcu_comm_vld_o = d, lsu_rcu_comm_data_o = 0,
      lsu_rcu_comm_rob_index_o = 1, lsu_rcu_comm_rd_addr_o = 1, lsu_dtlb_iss_vld_o = False, lsu_dtlb_iss_vtag_o = 0,
      lsu_l1d_ld_req_vld_o = False, lsu_l1d_ld_req_index_o = 0, lsu_l1d_ld_req_offset_o = 0, lsu_l1d_ld_req_vtag_o = 0,
      lsu_l1d_ld_req_rob_index_o = 0, lsu_l1d_ld_req_rd_addr_o = 0, lsu_l1d_ld_req_opcode_o = 0,
      lsu_l1d_st_req_vld_o = False, lsu_l1d_st_req_paddr_o = 0, lsu_l1d_st_req_data_o = 0,
      lsu_l1d_st_req_rob_index_o = 0, lsu_l1d_st_req_rd_addr_o = 0, lsu_l1d_st_req_is_fence_o = False,
      lsu_l1d_st_req_opcode_o = 0, lsu_debug_l1d_s1_kill_o = False, lsu_debug_dtlb_miss_kill_o = False,
      lsu_wb_cyc_o = False, lsu_wb_adr_o = 0, lsu_wb_dat_o = 0, lsu_wb_we_o = False, lsu_wb_sel_o = 0\<rparr>"

text \<open>Monitor and reorder buffer without what the setters overwrite in every unit of time.\<close>

definition bare_mon :: "lsu_mem monitor \<Rightarrow> lsu_mem monitor" where
  "bare_mon m = m\<lparr>mn_rcu_ready := False, mn_resp_vld := False, mn_resp := req0, mn_visit_history := \<lambda>_. [], mn_mem := lsu_mem_init\<rparr>"

definition bare_rcu :: "rcu \<Rightarrow> rcu" where
  "bare_rcu c = c\<lparr>lsu_rdy := False, lsu_resp_vld := False, lsu_resp := line0, new_req_vld := False, new_req := req0\<rparr>"

definition idle_parts :: "bool lsu_bench \<Rightarrow> bool" where
  "idle_parts s \<longleftrightarrow>
     lb_rng s = (\<lambda>_. 6) \<and> ch_lines (lb_cache s) = [] \<and> \<not> ch_hsk_q (lb_cache s) \<and> \<not> bus_entry_vld (lb_bus s) \<and>
     \<not> fc_fenced_vld (lm_fence (lb_mon s)) \<and> lb_mem s = lsu_mem_init \<and>
     fm_mem (mn_mem (lm_core (lb_mon s))) = fm_mem lsu_mem_init"

definition ack_state :: "nat \<Rightarrow> bool \<Rightarrow> lsu_mem monitor \<Rightarrow> rcu \<Rightarrow> bool lsu_bench \<Rightarrow> bool" where
  "ack_state t d m c s \<longleftrightarrow>
     lb_time s = t \<and> lb_dut s = d \<and> idle_parts s \<and> bare_mon (lm_core (lb_mon s)) = m \<and> bare_rcu (lb_rcu s) = c"

lemma bare_set [simp]:
  "bare_mon (connect_mon c m) = bare_mon m" "bare_rcu (rcu_set i c) = bare_rcu c"
  "ut_done (bare_mon m) = ut_done m" "lsu_req_vld (bare_rcu c) = lsu_req_vld c"
  "mn_mem (connect_mon c m) = mn_mem m" "bare_mon (bare_mon m) = bare_mon m"
  by (simp_all add: bare_mon_def bare_rcu_def connect_mon_def mon_set_def rcu_set_def ut_done_def)

lemma rand_const: "rand (\<lambda>_. 6) = (6, \<lambda>_. 6)"
  by (simp add: rand_def)

lemma ack_drive:
  assumes "idle_parts s"
  shows "\<exists>s1. lsu_drive (ack_ports x d) s = Inr s1 \<and> idle_parts s1 \<and> lb_time s1 = lb_time s \<and> lb_dut s1 = lb_dut s \<and>
    rcu_lsu_vld_i (lb_in s1) = lsu_req_vld (lb_rcu s) \<and> \<not> ch_req_vld (lb_cache s1) \<and> \<not> ch_kill_req (lb_cache s1) \<and>
    \<not> bus_req_vld (lb_bus s1) \<and> lm_fence (lb_mon s1) = fence_set (lsu_fence_in (ack_ports x d)) (lm_fence (lb_mon s)) \<and>
    lm_core (lb_mon s1) = connect_mon (lb_rcu s) (lm_core (lb_mon s)) \<and>
    lb_rcu s1 = rcu_set (connect_rcu (lsu_unit_out (ack_ports x d)) (lm_core (lb_mon s))) (lb_rcu s)"
  using assms
  by (simp add: lsu_drive_def lsu_connect_core_def drive_rcu_ports_def drive_tlb_ports_def drive_cache_ports_def
      drive_bus_ports_def lsu_cache_args_def tlb_req_def bus_set_req_def bus_set_vld_def ack_ports_def lsu_fence_in_def
      idle_parts_def rand_const rcu_set_def fence_set_def Let_def)

lemma ack_start:
  assumes "ack_state t d m c s" and "t \<le> 100" and "\<not> rcu_lsu_vld_i (lb_in s)"
  shows "\<exists>s'. lsu_time_step ack_dut (ack_ports x) stale s = Inr s' \<and> ack_state (Suc t) d m c s' \<and> \<not> rcu_lsu_vld_i (lb_in s')"
  using assms by (auto simp: lsu_time_step_def drive_clock_def lsu_dut_eval_def ack_dut_def ack_state_def idle_parts_def RST_TIME_def Let_def)

lemma clock_idle: "idle_parts (drive_clock s) = idle_parts s"
  by (simp add: idle_parts_def drive_clock_def)

lemma ack_between:
  assumes "ack_state t d m c s" and "100 < t" and "t mod 10 \<noteq> 0"
  shows "\<exists>s'. lsu_time_step ack_dut (ack_ports x) stale s = Inr s' \<and> ack_state (Suc t) (d \<or> lsu_req_vld c) m c s'"
proof -
  have "idle_parts (drive_clock s)" using assms(1) by (simp add: ack_state_def clock_idle)
  from ack_drive [OF this, of x d] show ?thesis
    using assms
    by (auto simp: lsu_time_step_def lsu_dut_eval_def ack_dut_def ack_state_def idle_parts_def RST_TIME_def Let_def)
qed


lemma ack_loop_step:
  assumes "ack_state t d m c s" and "\<not> ut_done m" and "t < 1000"
    and "\<exists>s'. lsu_time_step ack_dut (ack_ports x) stale s = Inr s' \<and> Q s'"
  shows "\<exists>s'. Q s' \<and> lsu_loop ack_dut (ack_ports x) stale s = lsu_loop ack_dut (ack_ports x) stale s'"
proof -
  have "\<not> ut_done (lm_core (lb_mon s)) \<and> lb_time s < LSU_MAX_TIME"
    using assms(1-3) bare_set(3) by (auto simp: ack_state_def LSU_MAX_TIME_def)
  then show ?thesis using lsu_run.loop_step assms(4) by metis
qed

lemma ack_loop_start:
  assumes "ack_state t False m c s" and "\<not> rcu_lsu_vld_i (lb_in s)" and "\<not> ut_done m" and "t \<le> 101"
  shows "\<exists>s'. ack_state 101 False m c s' \<and> lsu_loop ack_dut (ack_ports x) stale s = lsu_loop ack_dut (ack_ports x) stale s'"
  using assms
proof (induction "101 - t" arbitrary: t s)
  case (Suc n)
  then have t: "t \<le> 100" "t < 1000" by simp_all
  obtain s1 where "ack_state (Suc t) False m c s1" "\<not> rcu_lsu_vld_i (lb_in s1)"
      "lsu_loop ack_dut (ack_ports x) stale s = lsu_loop ack_dut (ack_ports x) stale s1"
    using ack_loop_step [OF Suc.prems(1,3) t(2) ack_start [OF Suc.prems(1) t(1) Suc.prems(2)]] by blast
  then show ?case using Suc.hyps(1) [of "Suc t" s1] Suc.hyps(2) Suc.prems(3) t(1) by simp
qed auto

lemma ack_loop_between:
  assumes "ack_state (10 * k + i) d m c s" and "\<not> ut_done m" and "10 \<le> k" and "k < 90" and "1 \<le> i" and "i \<le> 9"
  shows "\<exists>s'. ack_state (10 * k + 10) (d \<or> lsu_req_vld c) m c s' \<and>
    lsu_loop ack_dut (ack_ports x) stale s = lsu_loop ack_dut (ack_ports x) stale s'"
  using assms
proof (induction "9 - i" arbitrary: i d s)
  case 0
  then have i: "i = 9" by simp
  show ?case
    using ack_loop_step [OF 0(2,3) _ ack_between [OF 0(2)], of x stale] 0(4,5) by (simp add: i add.commute)
next
  case (Suc n)
  have t: "10 * k + i < 1000" "100 < 10 * k + i" "(10 * k + i) mod 10 \<noteq> 0" using Suc.prems Suc.hyps(2) by auto
  obtain s1 where s1: "ack_state (10 * k + Suc i) (d \<or> lsu_req_vld c) m c s1"
      "lsu_loop ack_dut (ack_ports x) stale s = lsu_loop ack_dut (ack_ports x) stale s1"
    using ack_loop_step [OF Suc.prems(1,2) t(1) ack_between [OF Suc.prems(1) t(2,3)]] by auto
  show ?case using Suc.hyps(1) [OF _ s1(1)] Suc.prems Suc.hyps(2) s1(2) by fastforce
qed



definition free_regs :: "u8 list" where
  "free_regs = map of_nat [2..<64]"

definition ack_mon :: "req list \<Rightarrow> u32 \<Rightarrow> bool \<Rightarrow> req \<Rightarrow> u8 list \<Rightarrow> lsu_mem monitor" where
  "ack_mon q n v rq rds =
     \<lparr>mn_mem = lsu_mem_init, mn_iss_que = q, mn_rcu_ready = False, mn_req_vld = v, mn_req = rq,
      mn_resp_vld = False, mn_resp = req0, mn_req_iss_num = n, mn_resp_comm_num = 0,
      mn_visit_history = (\<lambda>_. []), mn_rd_free_list = rds, mn_testcase_max = 1\<rparr>"












lemma ack_begin:
  "\<exists>s. ack_state 110 False (ack_mon [] 0 False req0 (1 # free_regs)) rcu_init s \<and>
     lsu_loop ack_dut (ack_ports x) stale (lsu_bench_init 1 False 0 0 (\<lambda>_. 6)) = lsu_loop ack_dut (ack_ports x) stale s"
proof -
  let ?m = "ack_mon [] 0 False req0 (1 # free_regs)" and ?s = "lsu_bench_init 1 False 0 0 (\<lambda>_. 6) :: bool lsu_bench"
  have busy: "\<not> ut_done ?m" by (simp add: ut_done_def ack_mon_def)
  have "map of_nat [1..<64] = (1 :: u8) # free_regs"
    using upt_conv_Cons [of 1 64] by (simp add: free_regs_def numeral_2_eq_2)
  then have s: "ack_state 0 False ?m rcu_init ?s" "\<not> rcu_lsu_vld_i (lb_in ?s)"
    by (simp_all add: ack_state_def idle_parts_def lsu_bench_init_def lsu_mon_init_def mon_init_def ack_mon_def bare_mon_def
        bare_rcu_def rcu_init_def cache_init_def bus_init_def fence_init_def lsu_reset_def size_params)
  obtain s0 where "ack_state 101 False ?m rcu_init s0"
      "lsu_loop ack_dut (ack_ports x) stale ?s = lsu_loop ack_dut (ack_ports x) stale s0"
    using ack_loop_start [OF s busy] by auto
  then show ?thesis using ack_loop_between [of 10 1 False ?m rcu_init s0 x stale] busy by (auto simp: rcu_init_def)
qed



text \<open>The unit that issues the fenced request is caught at the first clock edge.\<close>

lemma ack_breach:
  "lsu_loop ack_dut (ack_ports True) (\<lambda>_. req0) (lsu_bench_init 1 False 0 0 (\<lambda>_. 6)) =
     Inl (Throw ''lsu issue fenced req before all previous requests have been committed'')"
proof -
  obtain s where s: "ack_state 110 False (ack_mon [] 0 False req0 (1 # free_regs)) rcu_init s" and
      run: "lsu_loop ack_dut (ack_ports True) (\<lambda>_. req0) (lsu_bench_init 1 False 0 0 (\<lambda>_. 6)) =
        lsu_loop ack_dut (ack_ports True) (\<lambda>_. req0) s"
    using ack_begin by blast
  have i: "idle_parts (drive_clock s)" using s by (simp add: ack_state_def clock_idle)
  have "\<not> ut_done (bare_mon (lm_core (lb_mon s)))" using s by (simp add: ack_state_def ut_done_def ack_mon_def)
  then show ?thesis
    unfolding run using s i ack_drive [OF i, of True False]
    by (subst lsu_loop.simps)
      (auto simp: ack_state_def lsu_time_step_def lsu_eval_all_def lsu_mon_eval_def fence_eval_def fence_retire_def fence_set_def
        lsu_fence_in_def ack_ports_def idle_parts_def RST_TIME_def LSU_MAX_TIME_def Let_def)
qed

section \<open>Properties\<close>



text \<open>
  C9. Which faults the bench can end with, whatever the unit under test does. When the main loop ends with a fault, the
  run passed through a state in which the fault has one of the causes of \<open>lsu_cause\<close>: the unit breaks the order of
  fences, the load just committed has wrong data, an access is misaligned, the cache answers twice, the
  empty reorder buffer is read as a finished request, or an opcode is drawn forever. The bench never stops because of its own
  bookkeeping: \<open>lsu commit in wrong order\<close> is never thrown, and neither the issue queue nor the list of
  free destination registers is ever read or popped while empty. Without a fault the test is done or the time is over.
\<close>

theorem lsu_bench_faults:
  assumes "unat tm < 2 ^ 32"
  shows "case lsu_loop dut ports stale (lsu_bench_init tm d jq j r) of
           Inl e \<Rightarrow> (\<exists>s. bench_reach (lsu_time_step dut ports stale) (lsu_bench_init tm d jq j r) s \<and>
             lsu_time_step dut ports stale s = Inl e \<and> lsu_cause (ports (lb_dut s)) (stale (lb_time s)) s e) \<and>
             \<not> monitor_fault e
         | Inr s \<Rightarrow> ut_done (lm_core (lb_mon s)) \<or> lb_time s = LSU_MAX_TIME"
proof (cases "lsu_loop dut ports stale (lsu_bench_init tm d jq j r)")
  case (Inl e)
  have "lsu_sane tm (lsu_bench_init tm d jq j r)"
    using lsu_inv_init [OF assms] by (simp add: lsu_sane_def lsu_bench_init_def cache_wf_def cache_init_def)
  from lsu_run.loop_fault [where I = "lsu_sane tm", OF Inl this]
  obtain s where "bench_reach (lsu_time_step dut ports stale) (lsu_bench_init tm d jq j r) s" "lsu_sane tm s"
      "lsu_time_step dut ports stale s = Inl e"
    using lsu_sane_step by blast
  moreover from this have cause: "lsu_cause (ports (lb_dut s)) (stale (lb_time s)) s e"
    by (intro lsu_time_step_cause)
  ultimately show ?thesis using Inl lsu_cause_other [OF cause] by auto
next
  case (Inr s)
  then show ?thesis using lsu_loop_inv [OF lsu_inv_init [OF assms] Inr] by simp
qed

lemma lsu_bench_faults_witness:
  "\<exists>s. bench_reach (lsu_time_step ack_dut (ack_ports True) (\<lambda>_. req0)) (lsu_bench_init 1 False 0 0 (\<lambda>_. 6)) s \<and>
     lsu_time_step ack_dut (ack_ports True) (\<lambda>_. req0) s =
       Inl (Throw ''lsu issue fenced req before all previous requests have been committed'') \<and>
     lsu_cause (ack_ports True (lb_dut s)) req0 s
       (Throw ''lsu issue fenced req before all previous requests have been committed'')"
  using lsu_bench_faults [of 1 ack_dut "ack_ports True" "\<lambda>_. req0" False 0 0 "\<lambda>_. 6"] by (simp add: ack_breach)

text \<open>
  The final comparison of the two memories holds exactly when they agree on every byte of
  the 16-bit address space.
\<close>

theorem lsu_mem_check_bytes: "lsu_mem_check p q \<longleftrightarrow> (\<forall>a. fm_get_byte p a = fm_get_byte q a)"
  by (auto simp: mem_check_bytes)

end
