(* ===== verification/L1d_Mem.thy ===== *)
theory L1d_Mem
  imports Byte_Store Params Fifo_Station
begin

unbundle bit_operations_syntax

text \<open>
  The memory of the L1 data cache bench, \<open>sim/l1d/fake_mem.hpp\<close> and \<open>sim/l1d/fake_mem.cpp\<close>,
  with the AXI messages of \<open>sim/l1d/util.hpp\<close>: two byte arrays behind the five AXI channels,
  a queue of requests that wait out a random delay, and a queue of responses.
\<close>

section \<open>Messages and state\<close>

record axi_aw_req =
  awid :: u32
  awaddr :: u64
  awlen :: u8

record axi_w_req =
  wdata :: u64
  wlast :: bool
  wid :: u32

record axi_ar_req =
  arid :: u32
  araddr :: u64

record axi_r_resp =
  rid :: u32
  rlast :: bool
  rdata :: u64

record axi_b_resp =
  bid :: u32

text \<open>The array \<open>w[BURST_NUM]\<close> of a request is a list of length \<open>BURST_NUM\<close>.\<close>

record mem_req =
  mq_aw_vld :: bool
  mq_aw :: axi_aw_req
  mq_w_vld_num :: nat
  mq_w :: "axi_w_req list"
  mq_ar_vld :: bool
  mq_ar :: axi_ar_req
  mq_delay :: nat

record mem_resp =
  ms_b_vld :: bool
  ms_b :: axi_b_resp
  ms_r_vld :: bool
  ms_r :: axi_r_resp

definition BURST_NUM :: nat where "BURST_NUM = 8"
definition BURST_SIZE :: nat where "BURST_SIZE = 512 div BURST_NUM"
definition MEM_BASE_DELAY :: nat where "MEM_BASE_DELAY = 3"
definition MEM_MAX_DELAY :: nat where "MEM_MAX_DELAY = 50"
definition PAGETABLE_PADDR_BASE :: u64 where "PAGETABLE_PADDR_BASE = 0x10000000"
definition PAGETABLE_PADDR_UPPER :: u64 where "PAGETABLE_PADDR_UPPER = 0x10010000"
definition DATA_PADDR_BASE :: u64 where "DATA_PADDR_BASE = 0x80000000"
definition DATA_PADDR_UPPER :: u64 where "DATA_PADDR_UPPER = 0x80010000"

lemmas burst_params = BURST_NUM_def BURST_SIZE_def

definition aw0 :: axi_aw_req where "aw0 = \<lparr>awid = 0, awaddr = 0, awlen = 0\<rparr>"
definition w0 :: axi_w_req where "w0 = \<lparr>wdata = 0, wlast = False, wid = 0\<rparr>"
definition ar0 :: axi_ar_req where "ar0 = \<lparr>arid = 0, araddr = 0\<rparr>"
definition r0 :: axi_r_resp where "r0 = \<lparr>rid = 0, rlast = False, rdata = 0\<rparr>"
definition b0 :: axi_b_resp where "b0 = \<lparr>bid = 0\<rparr>"

definition mem_req0 :: mem_req where
  "mem_req0 = \<lparr>mq_aw_vld = False, mq_aw = aw0, mq_w_vld_num = 0, mq_w = replicate BURST_NUM w0,
              mq_ar_vld = False, mq_ar = ar0, mq_delay = 0\<rparr>"

record l1d_mem =
  dm_mem :: "u16 \<Rightarrow> u8"
  dm_pagetable :: "u16 \<Rightarrow> u8"
  dm_visit_time :: u64
  dm_req_q :: "mem_req list"
  dm_req_wait_q :: "mem_req list"
  dm_resp_q :: "mem_resp list"
  dm_ar_vld :: bool
  dm_ar_req :: axi_ar_req
  dm_aw_vld :: bool
  dm_aw_req :: axi_aw_req
  dm_w_vld :: bool
  dm_w_req :: axi_w_req
  dm_r_vld :: bool
  dm_r_rdy :: bool
  dm_r_resp :: axi_r_resp
  dm_b_vld :: bool
  dm_b_rdy :: bool
  dm_b_resp :: axi_b_resp

text \<open>
  The constructor. \<open>pt\<close> is what opening and reading the page table file yields: \<open>None\<close> if it
  cannot be opened, else the sequence of values the read loop stores.
\<close>

definition l1d_mem_init :: "u8 list option \<Rightarrow> l1d_mem res" where
  "l1d_mem_init pt =
     (case pt of
        None \<Rightarrow> Inl (Throw ''wrong pagetable dir'')
      | Some vs \<Rightarrow>
          if 2 ^ 16 < length vs then Inl (Undefined ''_pagetable written past its end'')
          else Inr
            \<lparr>dm_mem = (\<lambda>a. ucast (drop_bit (unat a mod 4 * 8) (of_nat (unat a div 4 * 4) :: u32))),
             dm_pagetable = (\<lambda>a. if unat a < length vs then vs ! unat a else 0),
             dm_visit_time = 0, dm_req_q = [], dm_req_wait_q = [], dm_resp_q = [],
             dm_ar_vld = False, dm_ar_req = ar0, dm_aw_vld = False, dm_aw_req = aw0,
             dm_w_vld = False, dm_w_req = w0, dm_r_vld = False, dm_r_rdy = False, dm_r_resp = r0,
             dm_b_vld = False, dm_b_rdy = False, dm_b_resp = b0\<rparr>)"

section \<open>Direct access\<close>

definition dm_get_byte :: "l1d_mem \<Rightarrow> u16 \<Rightarrow> u8" where
  "dm_get_byte s a = dm_mem s a"

definition dm_set_byte :: "l1d_mem \<Rightarrow> u16 \<Rightarrow> u8 \<Rightarrow> l1d_mem" where
  "dm_set_byte s a v = s\<lparr>dm_mem := (dm_mem s)(a := v)\<rparr>"

definition dm_pagetable_get_byte :: "l1d_mem \<Rightarrow> u16 \<Rightarrow> u8" where
  "dm_pagetable_get_byte s a = dm_pagetable s a"

definition dm_pagetable_set_byte :: "l1d_mem \<Rightarrow> u16 \<Rightarrow> u8 \<Rightarrow> l1d_mem" where
  "dm_pagetable_set_byte s a v = s\<lparr>dm_pagetable := (dm_pagetable s)(a := v)\<rparr>"

text \<open>The setters that the bench calls before an evaluation, as one input.\<close>

record axi_in =
  ai_ar_vld :: bool
  ai_ar :: axi_ar_req
  ai_aw_vld :: bool
  ai_aw :: axi_aw_req
  ai_w_vld :: bool
  ai_w :: axi_w_req
  ai_r_rdy :: bool
  ai_b_rdy :: bool

definition dm_set :: "axi_in \<Rightarrow> l1d_mem \<Rightarrow> l1d_mem" where
  "dm_set i s =
     s\<lparr>dm_ar_vld := ai_ar_vld i, dm_ar_req := ai_ar i, dm_aw_vld := ai_aw_vld i,
       dm_aw_req := ai_aw i, dm_w_vld := ai_w_vld i, dm_w_req := ai_w i,
       dm_r_rdy := ai_r_rdy i, dm_b_rdy := ai_b_rdy i\<rparr>"

section \<open>The stages of an evaluation\<close>

definition mem_delay :: "nat \<Rightarrow> nat" where
  "mem_delay v = MEM_BASE_DELAY + v mod MEM_MAX_DELAY"

definition dm_enque_aw :: "rng \<Rightarrow> l1d_mem \<Rightarrow> l1d_mem \<times> rng" where
  "dm_enque_aw g s =
     (if dm_aw_vld s then
        (let (v, g') = rand g in
         (s\<lparr>dm_req_wait_q := dm_req_wait_q s @
              [mem_req0\<lparr>mq_aw_vld := True, mq_aw := dm_aw_req s, mq_delay := mem_delay v\<rparr>]\<rparr>, g'))
      else (s, g))"

definition dm_enque_ar :: "rng \<Rightarrow> l1d_mem \<Rightarrow> l1d_mem \<times> rng" where
  "dm_enque_ar g s =
     (if dm_ar_vld s then
        (let (v, g') = rand g in
         (s\<lparr>dm_req_wait_q := dm_req_wait_q s @
              [mem_req0\<lparr>mq_ar_vld := True, mq_ar := dm_ar_req s, mq_delay := mem_delay v\<rparr>]\<rparr>, g'))
      else (s, g))"

definition wants_w :: "mem_req \<Rightarrow> bool" where
  "wants_w r \<longleftrightarrow> mq_aw_vld r \<and> mq_w_vld_num r < 8"

definition add_w :: "axi_w_req \<Rightarrow> mem_req \<Rightarrow> mem_req" where
  "add_w w r = r\<lparr>mq_w := (mq_w r)[mq_w_vld_num r := w], mq_w_vld_num := mq_w_vld_num r + 1\<rparr>"

definition dm_take_w :: "l1d_mem \<Rightarrow> l1d_mem res" where
  "dm_take_w s =
     (if dm_w_vld s then
        if list_ex wants_w (dm_req_wait_q s) then
          Inr (s\<lparr>dm_req_wait_q := update_first wants_w (add_w (dm_w_req s)) (dm_req_wait_q s)\<rparr>)
        else Inl (Throw ''w vld while no aw is arrived first'')
      else Inr s)"

definition dm_count_down :: "l1d_mem \<Rightarrow> l1d_mem" where
  "dm_count_down s =
     s\<lparr>dm_req_wait_q := map (\<lambda>r. if mq_delay r > 0 then r\<lparr>mq_delay := mq_delay r - 1\<rparr> else r)
                          (dm_req_wait_q s)\<rparr>"

definition complete :: "mem_req \<Rightarrow> bool" where
  "complete r \<longleftrightarrow> mq_ar_vld r \<or> (mq_aw_vld r \<and> mq_w_vld_num r = 8)"

text \<open>
  The loop reads \<open>_req_wait_q->front()\<close> before it tests for emptiness; \<open>stale\<close> is what an empty
  \<open>std::list\<close> yields there.
\<close>

fun move_ready :: "mem_req \<Rightarrow> mem_req list \<Rightarrow> mem_req list \<Rightarrow> (mem_req list \<times> mem_req list) res" where
  "move_ready stale [] q =
     (if mq_delay stale = 0 \<and> complete stale then Inl (Undefined ''pop_front of an empty list'')
      else Inr ([], q))"
| "move_ready stale (r # rs) q =
     (if mq_delay r = 0 \<and> complete r then move_ready stale rs (q @ [r]) else Inr (r # rs, q))"

definition dm_move :: "mem_req \<Rightarrow> l1d_mem \<Rightarrow> l1d_mem res" where
  "dm_move stale s =
     res_map (\<lambda>(wait, q). s\<lparr>dm_req_wait_q := wait, dm_req_q := q\<rparr>)
       (move_ready stale (dm_req_wait_q s) (dm_req_q s))"

text \<open>A burst: eight beats of eight bytes, from the data array or from the page table.\<close>

definition beat_addr :: "u64 \<Rightarrow> nat \<Rightarrow> nat \<Rightarrow> u16" where
  "beat_addr a i j = ucast (a + of_nat (i * 8 + j))"

definition read_beat :: "(u16 \<Rightarrow> u8) \<Rightarrow> u64 \<Rightarrow> nat \<Rightarrow> u64" where
  "read_beat g a i =
     fold (\<lambda>j d. d + push_bit (j * 8) (ucast (g (beat_addr a i j)))) [0..<BURST_SIZE div 8] 0"

definition in_data :: "u64 \<Rightarrow> bool" where
  "in_data a \<longleftrightarrow> DATA_PADDR_BASE \<le> a \<and> a < DATA_PADDR_UPPER"

definition in_pagetable :: "u64 \<Rightarrow> bool" where
  "in_pagetable a \<longleftrightarrow> PAGETABLE_PADDR_BASE \<le> a \<and> a < PAGETABLE_PADDR_UPPER"

definition r_burst :: "(u16 \<Rightarrow> u8) \<Rightarrow> axi_ar_req \<Rightarrow> mem_resp list" where
  "r_burst g ar =
     map (\<lambda>i. \<lparr>ms_b_vld = False, ms_b = b0, ms_r_vld = True,
               ms_r = \<lparr>rid = arid ar, rlast = (i = BURST_NUM - 1), rdata = read_beat g (araddr ar) i\<rparr>\<rparr>)
       [0..<BURST_NUM]"

definition handle_read :: "axi_ar_req \<Rightarrow> l1d_mem \<Rightarrow> l1d_mem res" where
  "handle_read ar s =
     (if in_data (araddr ar) then Inr (s\<lparr>dm_resp_q := dm_resp_q s @ r_burst (dm_mem s) ar\<rparr>)
      else if in_pagetable (araddr ar) then
        Inr (s\<lparr>dm_resp_q := dm_resp_q s @ r_burst (dm_pagetable s) ar\<rparr>)
      else Inl (Throw ''invalid read access to memory''))"

definition write_beat :: "u64 \<Rightarrow> nat \<Rightarrow> u64 \<Rightarrow> (u16 \<Rightarrow> u8) \<Rightarrow> (u16 \<Rightarrow> u8)" where
  "write_beat a i d g =
     fold (\<lambda>j g. g(beat_addr a i j := ucast (drop_bit (j * 8) d))) [0..<BURST_SIZE div 8] g"

definition handle_write :: "mem_req \<Rightarrow> l1d_mem \<Rightarrow> l1d_mem res" where
  "handle_write r s =
     (if in_data (awaddr (mq_aw r)) then
        Inr (s\<lparr>dm_mem := fold (\<lambda>i. write_beat (awaddr (mq_aw r)) i (wdata (mq_w r ! i)))
                           [0..<BURST_NUM] (dm_mem s),
               dm_resp_q := dm_resp_q s @
                 [\<lparr>ms_b_vld = True, ms_b = \<lparr>bid = awid (mq_aw r)\<rparr>, ms_r_vld = False, ms_r = r0\<rparr>]\<rparr>)
      else Inl (Throw ''invalid write access to memory''))"

definition handle_one :: "mem_req \<Rightarrow> l1d_mem \<Rightarrow> l1d_mem res" where
  "handle_one r s = (if mq_ar_vld r then handle_read (mq_ar r) s else handle_write r s)"

text \<open>
  \<open>while (_req_q->size() > 0)\<close>: a front entry that is not complete is neither handled nor
  removed, so the loop would spin on it; that is the fault \<open>Spins\<close>.
\<close>

fun handle_loop :: "mem_req list \<Rightarrow> l1d_mem \<Rightarrow> l1d_mem res" where
  "handle_loop [] s = Inr (s\<lparr>dm_req_q := []\<rparr>)"
| "handle_loop (r # rs) s =
     (if complete r then res_bind (handle_one r s) (handle_loop rs) else Inl Spins)"

definition dm_send :: "l1d_mem \<Rightarrow> l1d_mem" where
  "dm_send s0 =
     (let s = s0\<lparr>dm_b_vld := False, dm_r_vld := False\<rparr> in
      case dm_resp_q s of
        [] \<Rightarrow> s
      | p # ps \<Rightarrow>
          if ms_b_vld p then
            (let s1 = s\<lparr>dm_b_vld := True, dm_b_resp := ms_b p\<rparr> in
             if dm_b_rdy s1 then s1\<lparr>dm_resp_q := ps\<rparr> else s1)
          else if ms_r_vld p then
            (let s1 = s\<lparr>dm_r_vld := True, dm_r_resp := ms_r p\<rparr> in
             if dm_r_rdy s1 then s1\<lparr>dm_resp_q := ps\<rparr> else s1)
          else s)"

definition dm_enque :: "rng \<Rightarrow> l1d_mem \<Rightarrow> l1d_mem \<times> rng" where
  "dm_enque g s = (let (s1, g1) = dm_enque_aw g s in dm_enque_ar g1 s1)"

definition dm_eval :: "mem_req \<Rightarrow> rng \<Rightarrow> l1d_mem \<Rightarrow> (l1d_mem \<times> rng) res" where
  "dm_eval stale g s =
     (let (s1, g1) = dm_enque g s in
      res_bind (dm_take_w s1) (\<lambda>s2.
      res_bind (dm_move stale (dm_count_down s2)) (\<lambda>s3.
      res_map (\<lambda>s4. (dm_send s4, g1)) (handle_loop (dm_req_q s3) s3))))"

section \<open>The byte store\<close>

interpretation l1d_bytes: byte_store dm_get_byte dm_set_byte
  by unfold_locales (simp add: dm_get_byte_def dm_set_byte_def)

interpretation pagetable_bytes: byte_store dm_pagetable_get_byte dm_pagetable_set_byte
  by unfold_locales (simp add: dm_pagetable_get_byte_def dm_pagetable_set_byte_def)

interpretation fun_bytes: byte_store "\<lambda>g. g" "\<lambda>g a v. g(a := v)"
  by unfold_locales simp

section \<open>Bursts\<close>

lemma ucast_add_of_nat: "ucast ((a::u64) + of_nat n) = (ucast a + of_nat n :: u16)"
  by (rule word_unat_eq_iff [THEN iffD2])
    (simp only: unat_word_ariths unsigned_ucast_eq take_bit_eq_mod,
     simp add: unsigned_of_nat take_bit_eq_mod mod_simps mod_mod_cancel)

lemma beat_addr_eq: "beat_addr a i j = ucast a + of_nat (8 * i) + of_nat j"
  by (simp only: beat_addr_def ucast_add_of_nat) (simp add: algebra_simps)

lemma read_beat_le_load: "read_beat g a i = le_load g (ucast a + of_nat (8 * i)) 8"
proof -
  have "read_beat g a i = add_loop g (ucast a + of_nat (8 * i)) 8"
    by (simp add: read_beat_def add_loop_def burst_params beat_addr_eq mult.commute)
  then show ?thesis by (simp add: add_loop_eq_le_load)
qed

lemma write_beat_le_store: "write_beat a i d g = le_store g (ucast a + of_nat (8 * i)) 8 d"
proof -
  have byte: "ucast (drop_bit (8 * k) d AND 0xff) = (ucast (drop_bit (8 * k) d) :: u8)" for k
    by (rule bit_word_eqI) (auto simp: bit_simps byte_mask)
  have "write_beat a i d g = store_loop (\<lambda>g a v. g(a := v)) 8 (ucast a + of_nat (8 * i)) d g"
    by (simp only: write_beat_def store_loop_def burst_params beat_addr_eq byte mult.commute [of _ 8]) simp
  then show ?thesis by (simp add: fun_bytes.get_store_loop)
qed

text \<open>Two beats of a burst do not overlap, even where the burst wraps around the array.\<close>

lemma beats_apart:
  assumes "i < 8" and "k < 8" and "i \<noteq> k" and "j < 8"
  shows "8 \<le> unat ((b::u16) + of_nat (8 * k) + of_nat j - (b + of_nat (8 * i)))"
proof (cases "i < k")
  case True
  have diff: "b + of_nat (8 * k) + of_nat j - (b + of_nat (8 * i)) = of_nat (8 * (k - i) + j)"
    using True by (simp add: of_nat_diff algebra_simps)
  have small: "unat (of_nat (8 * (k - i) + j) :: u16) = 8 * (k - i) + j"
    using assms by (intro unat_u16_of_nat) simp
  show ?thesis unfolding diff small using True by simp
next
  case False
  then have "k < i" using assms(3) by simp
  have diff: "b + of_nat (8 * k) + of_nat j - (b + of_nat (8 * i)) = - of_nat (8 * (i - k) - j)"
    using assms(4) \<open>k < i\<close> by (simp add: of_nat_diff algebra_simps)
  have small: "unat (of_nat (8 * (i - k) - j) :: u16) = 8 * (i - k) - j"
    using assms by (intro unat_u16_of_nat) simp
  have "0 < 8 * (i - k) - j" "8 * (i - k) - j \<le> 56" using assms \<open>k < i\<close> by auto
  then show ?thesis
    unfolding diff using unat_sub_if' [of "0 :: u16" "of_nat (8 * (i - k) - j)"] small by simp
qed

lemma read_after_burst:
  assumes "n \<le> 8" and "k < 8"
  shows "read_beat (fold (\<lambda>i. write_beat a i (d i)) [0..<n] g) a k =
         (if k < n then d k else read_beat g a k)"
  using assms(1)
proof (induction n)
  case 0
  then show ?case by simp
next
  case (Suc n)
  let ?h = "fold (\<lambda>i. write_beat a i (d i)) [0..<n] g"
  have last: "read_beat (write_beat a n (d n) ?h) a k = (if k = n then d n else read_beat ?h a k)"
  proof (cases "k = n")
    case True
    have "take_bit 64 (d n) = d n" by (rule bit_word_eqI) (simp add: bit_simps)
    then show ?thesis
      using True by (simp add: read_beat_le_load write_beat_le_store le_load_store)
  next
    case False
    then show ?thesis
      using beats_apart [of n k] Suc.prems assms(2)
      by (simp add: read_beat_le_load write_beat_le_store le_load_store_other)
  qed
  show ?case using Suc last by simp
qed

section \<open>The loops of an evaluation\<close>

lemma move_ready_split:
  "move_ready stale w q = Inr (w', q') \<Longrightarrow>
   \<exists>moved. w = moved @ w' \<and> q' = q @ moved \<and> list_all complete moved"
proof (induction stale w q arbitrary: w' q' rule: move_ready.induct)
  case (1 stale q)
  then show ?case by (simp split: if_splits)
next
  case (2 stale r rs q)
  show ?case
  proof (cases "mq_delay r = 0 \<and> complete r")
    case True
    then obtain moved where "rs = moved @ w'" "q' = (q @ [r]) @ moved" "list_all complete moved"
      using 2 by auto
    then show ?thesis using True by (intro exI [of _ "r # moved"]) simp
  next
    case False
    then show ?thesis using 2 by (auto split: if_splits)
  qed
qed

lemma move_ready_no_spin: "move_ready stale w q \<noteq> Inl Spins"
  by (induction stale w q rule: move_ready.induct) (auto split: if_splits)

lemma handle_one_faults:
  "handle_one r s = Inl e \<Longrightarrow>
   e = Throw ''invalid read access to memory'' \<or> e = Throw ''invalid write access to memory''"
  by (auto simp: handle_one_def handle_read_def handle_write_def split: if_splits)

lemma handle_loop_no_spin: "list_all complete q \<Longrightarrow> handle_loop q s \<noteq> Inl Spins"
  by (induction q s rule: handle_loop.induct) (auto dest: handle_one_faults)

lemma handle_loop_req_q: "handle_loop q s = Inr s' \<Longrightarrow> dm_req_q s' = []"
  by (induction q s rule: handle_loop.induct) (auto split: if_splits)

lemma dm_send_req_q [simp]: "dm_req_q (dm_send s) = dm_req_q s" "dm_req_wait_q (dm_send s) = dm_req_wait_q s"
  by (simp_all add: dm_send_def Let_def split: list.splits)

lemma enque_keeps [simp]:
  "dm_enque g s = (s1, g1) \<Longrightarrow> dm_req_q s1 = dm_req_q s"
  "dm_enque g s = (s1, g1) \<Longrightarrow> dm_resp_q s1 = dm_resp_q s"
  by (auto simp: dm_enque_def dm_enque_aw_def dm_enque_ar_def Let_def case_prod_beta split: if_splits)

text \<open>The inner steps of a successful evaluation.\<close>

lemma dm_eval_steps:
  assumes "dm_eval stale g s = Inr (s', g')"
  obtains s1 s2 s3 s4 where "dm_enque g s = (s1, g')" "dm_take_w s1 = Inr s2"
    "dm_move stale (dm_count_down s2) = Inr s3" "handle_loop (dm_req_q s3) s3 = Inr s4"
    "s' = dm_send s4"
  using assms by (auto simp: dm_eval_def Let_def split: prod.splits)

definition dm_step :: "mem_req \<Rightarrow> axi_in \<Rightarrow> l1d_mem \<times> rng \<Rightarrow> (l1d_mem \<times> rng) res" where
  "dm_step stale i sg = dm_eval stale (snd sg) (dm_set i (fst sg))"

lemma dm_step_req_q: "dm_step stale i sg = Inr sg' \<Longrightarrow> dm_req_q (fst sg') = []"
  by (cases sg') (auto simp: dm_step_def elim!: dm_eval_steps dest: handle_loop_req_q)

lemma take_w_keeps:
  "dm_take_w s = Inr s' \<Longrightarrow> dm_req_q s' = dm_req_q s \<and> dm_resp_q s' = dm_resp_q s"
  by (auto simp: dm_take_w_def split: if_splits)

lemma dm_step_no_spin: "dm_req_q (fst sg) = [] \<Longrightarrow> dm_step stale i sg \<noteq> Inl Spins"
proof
  assume q: "dm_req_q (fst sg) = []" and spin: "dm_step stale i sg = Inl Spins"
  obtain s1 g1 where e: "dm_enque (snd sg) (dm_set i (fst sg)) = (s1, g1)" by fastforce
  have q1: "dm_req_q s1 = []" using enque_keeps(1) [OF e] q by (simp add: dm_set_def)
  have no_w: "dm_take_w s1 \<noteq> Inl Spins" by (simp add: dm_take_w_def)
  have no_m: "dm_move stale t \<noteq> Inl Spins" for t
    using move_ready_no_spin by (simp add: dm_move_def)
  obtain s2 s3 where s2: "dm_take_w s1 = Inr s2" and s3: "dm_move stale (dm_count_down s2) = Inr s3"
    and h: "handle_loop (dm_req_q s3) s3 = Inl Spins"
    using spin e no_w no_m by (auto simp: dm_step_def dm_eval_def Let_def)
  have "dm_req_q (dm_count_down s2) = []"
    using take_w_keeps [OF s2] q1 by (simp add: dm_count_down_def)
  then have "list_all complete (dm_req_q s3)"
    using s3 by (auto simp: dm_move_def dest!: move_ready_split)
  then show False using h handle_loop_no_spin by blast
qed

section \<open>Order of the responses\<close>

text \<open>
  A transaction is a write or a read with its AXI identifier. A read is over with its last beat.
\<close>

datatype txn = TWrite u32 | TRead u32

definition req_txn :: "mem_req \<Rightarrow> txn" where
  "req_txn r = (if mq_ar_vld r then TRead (arid (mq_ar r)) else TWrite (awid (mq_aw r)))"

definition resp_txn :: "mem_resp \<Rightarrow> txn list" where
  "resp_txn p = (if ms_b_vld p then [TWrite (bid (ms_b p))]
                 else if ms_r_vld p \<and> rlast (ms_r p) then [TRead (rid (ms_r p))] else [])"

definition dm_held :: "l1d_mem \<times> rng \<Rightarrow> txn list" where
  "dm_held sg = concat (map resp_txn (dm_resp_q (fst sg))) @
                map req_txn (dm_req_q (fst sg) @ dm_req_wait_q (fst sg))"

definition dm_takes :: "axi_in \<Rightarrow> l1d_mem \<times> rng \<Rightarrow> txn list" where
  "dm_takes i sg = (if ai_aw_vld i then [TWrite (awid (ai_aw i))] else []) @
                   (if ai_ar_vld i then [TRead (arid (ai_ar i))] else [])"

definition dm_gives :: "l1d_mem \<times> rng \<Rightarrow> txn list" where
  "dm_gives sg = (if dm_b_vld (fst sg) \<and> dm_b_rdy (fst sg) then [TWrite (bid (dm_b_resp (fst sg)))]
                  else if dm_r_vld (fst sg) \<and> dm_r_rdy (fst sg) \<and> rlast (dm_r_resp (fst sg))
                  then [TRead (rid (dm_r_resp (fst sg)))] else [])"

lemma enque_txns:
  assumes "dm_enque g (dm_set i s) = (s1, g1)"
  shows "map req_txn (dm_req_wait_q s1) = map req_txn (dm_req_wait_q s) @ dm_takes i sg"
  using assms
  by (auto simp: dm_enque_def dm_enque_aw_def dm_enque_ar_def dm_set_def dm_takes_def req_txn_def
      mem_req0_def Let_def case_prod_beta split: if_splits)

lemma take_w_txns:
  "dm_take_w s = Inr s' \<Longrightarrow> map req_txn (dm_req_wait_q s') = map req_txn (dm_req_wait_q s)"
  by (auto simp: dm_take_w_def req_txn_def add_w_def split: if_splits)

lemma count_down_txns: "map req_txn (dm_req_wait_q (dm_count_down s)) = map req_txn (dm_req_wait_q s)"
  by (simp add: dm_count_down_def req_txn_def)

lemma move_txns:
  "dm_move stale s = Inr s' \<Longrightarrow>
   dm_req_q s' @ dm_req_wait_q s' = dm_req_q s @ dm_req_wait_q s \<and> dm_resp_q s' = dm_resp_q s"
  by (auto simp: dm_move_def dest!: move_ready_split)

lemma r_burst_txns: "concat (map resp_txn (r_burst g ar)) = [TRead (arid ar)]"
  by (simp add: r_burst_def resp_txn_def burst_params upt_rec)

lemma handle_one_txns:
  assumes "handle_one r s = Inr s'"
  shows "concat (map resp_txn (dm_resp_q s')) = concat (map resp_txn (dm_resp_q s)) @ [req_txn r]"
    and "dm_req_wait_q s' = dm_req_wait_q s"
  using assms
  by (auto simp: handle_one_def handle_read_def handle_write_def req_txn_def r_burst_txns
      resp_txn_def split: if_splits)

lemma handle_loop_txns:
  "handle_loop q s = Inr s' \<Longrightarrow>
   concat (map resp_txn (dm_resp_q s')) = concat (map resp_txn (dm_resp_q s)) @ map req_txn q \<and>
   dm_req_wait_q s' = dm_req_wait_q s"
proof (induction q s rule: handle_loop.induct)
  case (1 s)
  then show ?case by auto
next
  case (2 r rs s)
  then obtain t where t: "complete r" "handle_one r s = Inr t" "handle_loop rs t = Inr s'"
    by (auto split: if_splits)
  show ?case using 2(1) [OF t(1,3)] handle_one_txns [OF t(2)] by simp
qed

lemma send_txns:
  "concat (map resp_txn (dm_resp_q s)) =
   dm_gives (dm_send s, g) @ concat (map resp_txn (dm_resp_q (dm_send s)))"
  by (auto simp: dm_send_def dm_gives_def resp_txn_def Let_def split: list.splits)

interpretation l1d_mem_station: fifo_station "dm_step stale" dm_held dm_takes dm_gives
proof
  fix i :: axi_in and sg sg' :: "l1d_mem \<times> rng"
  assume "dm_step stale i sg = Inr sg'"
  then have "dm_eval stale (snd sg) (dm_set i (fst sg)) = Inr (fst sg', snd sg')"
    by (simp add: dm_step_def)
  then obtain s1 s2 s3 s4 where e: "dm_enque (snd sg) (dm_set i (fst sg)) = (s1, snd sg')"
    and w: "dm_take_w s1 = Inr s2" and m: "dm_move stale (dm_count_down s2) = Inr s3"
    and h: "handle_loop (dm_req_q s3) s3 = Inr s4" and f: "fst sg' = dm_send s4"
    by (rule dm_eval_steps)
  have q2: "dm_req_q (dm_count_down s2) = dm_req_q (fst sg)"
    "dm_resp_q (dm_count_down s2) = dm_resp_q (fst sg)"
    using take_w_keeps [OF w] enque_keeps [OF e] by (simp_all add: dm_count_down_def dm_set_def)
  have "dm_held sg @ dm_takes i sg =
      concat (map resp_txn (dm_resp_q (fst sg))) @ map req_txn (dm_req_q (fst sg)) @
      map req_txn (dm_req_wait_q (dm_count_down s2))"
    using enque_txns [OF e, of sg] take_w_txns [OF w] by (simp add: dm_held_def count_down_txns)
  also have "\<dots> = concat (map resp_txn (dm_resp_q s3)) @ map req_txn (dm_req_q s3 @ dm_req_wait_q s3)"
    using move_txns [OF m] by (simp add: q2 flip: map_append)
  also have "\<dots> = concat (map resp_txn (dm_resp_q s4)) @ map req_txn (dm_req_wait_q s4)"
    using handle_loop_txns [OF h] by simp
  also have "\<dots> = dm_gives sg' @ dm_held sg'"
    using send_txns [of s4 "snd sg'"] handle_loop_req_q [OF h] f
    by (simp add: dm_held_def prod_eq_iff [symmetric])
       (metis append.assoc prod.collapse)
  finally show "dm_held sg @ dm_takes i sg = dm_gives sg' @ dm_held sg'" .
qed

section \<open>Properties\<close>

text \<open>
  C10. The memory answers in the order of the requests: along any run that does not fault, the
  writes and reads accepted on the address channels are, in order, those whose response was
  handed over followed by those still inside; a write has one response, a read is over with the
  beat that carries the last flag.
\<close>

theorem l1d_mem_in_order:
  assumes "run_res (dm_step stale) is sg = Inr ss"
  shows "dm_held sg @ taken dm_takes is (sg # ss) = concat (map dm_gives ss) @ dm_held (last (sg # ss))"
  by (rule l1d_mem_station.run_order [OF assms])

definition demo_ar :: axi_in where
  "demo_ar = \<lparr>ai_ar_vld = True, ai_ar = \<lparr>arid = 5, araddr = 0x80000000\<rparr>, ai_aw_vld = False, ai_aw = aw0,
              ai_w_vld = False, ai_w = w0, ai_r_rdy = True, ai_b_rdy = True\<rparr>"

definition demo_mem :: l1d_mem where
  "demo_mem = projr (l1d_mem_init (Some []))"

lemma demo_mem_queues: "dm_req_wait_q demo_mem = []" "dm_req_q demo_mem = []" "dm_resp_q demo_mem = []"
  by (simp_all add: demo_mem_def l1d_mem_init_def)

lemma demo_step: "\<exists>t. dm_step mem_req0 demo_ar (demo_mem, \<lambda>_. 0) = Inr t"
proof -
  let ?r = "mem_req0\<lparr>mq_ar_vld := True, mq_ar := ai_ar demo_ar, mq_delay := 3\<rparr>"
  let ?s1 = "(dm_set demo_ar demo_mem)\<lparr>dm_req_wait_q := [?r]\<rparr>"
  have e: "\<exists>g. dm_enque (\<lambda>_. 0) (dm_set demo_ar demo_mem) = (?s1, g)"
    by (simp add: dm_enque_def dm_enque_aw_def dm_enque_ar_def dm_set_def demo_ar_def demo_mem_queues
        mem_delay_def MEM_BASE_DELAY_def rand_def)
  have w: "dm_take_w ?s1 = Inr ?s1" by (simp add: dm_take_w_def dm_set_def demo_ar_def)
  have m: "dm_move mem_req0 (dm_count_down ?s1) = Inr (dm_count_down ?s1)"
    by (simp add: dm_move_def dm_count_down_def dm_set_def)
  have q: "dm_req_q (dm_count_down ?s1) = []"
    by (simp add: dm_count_down_def dm_set_def demo_mem_queues)
  show ?thesis using e w m q by (auto simp: dm_step_def dm_eval_def)
qed

theorem l1d_mem_in_order_witness:
  "\<exists>ss. run_res (dm_step mem_req0) [demo_ar] (demo_mem, \<lambda>_. 0) = Inr ss \<and>
     dm_held (demo_mem, \<lambda>_. 0) @ taken dm_takes [demo_ar] ((demo_mem, \<lambda>_. 0) # ss) =
       concat (map dm_gives ss) @ dm_held (last ((demo_mem, \<lambda>_. 0) # ss))"
proof -
  obtain t where "dm_step mem_req0 demo_ar (demo_mem, \<lambda>_. 0) = Inr t" using demo_step by blast
  then have ss: "run_res (dm_step mem_req0) [demo_ar] (demo_mem, \<lambda>_. 0) = Inr [t]" by simp
  show ?thesis by (rule exI [of _ "[t]"]) (intro conjI ss l1d_mem_in_order [OF ss])
qed

text \<open>
  C39. The handling loop never spins: started with an empty request queue, as the constructor
  leaves it, no run of evaluations, whatever the channels carry, gets stuck in it.
\<close>

theorem l1d_mem_never_spins:
  assumes "dm_req_q s = []"
  shows "run_res (dm_step stale) is (s, g) \<noteq> Inl Spins"
proof -
  have "dm_req_q (fst sg) = [] \<Longrightarrow> run_res (dm_step stale) is sg \<noteq> Inl Spins" for sg
    by (induction "is" arbitrary: sg) (auto dest: dm_step_req_q dm_step_no_spin)
  then show ?thesis using assms by simp
qed

theorem l1d_mem_never_spins_witness:
  "run_res (dm_step mem_req0) [demo_ar, demo_ar] (demo_mem, \<lambda>_. 0) \<noteq> Inl Spins"
  by (rule l1d_mem_never_spins) (rule demo_mem_queues)

text \<open>
  C11. A burst read after a burst write to the same address, anywhere in the data window and even
  where the burst wraps around the array, returns the eight written beats in order, the last one
  flagged, and the write changes no byte outside its 64.
\<close>

theorem l1d_burst_roundtrip:
  assumes "in_data a" and "awaddr (mq_aw r) = a" and "araddr ar = a"
  shows "\<exists>s' s''. handle_write r s = Inr s' \<and> handle_read ar s' = Inr s'' \<and>
           dm_resp_q s'' = dm_resp_q s' @
             map (\<lambda>i. \<lparr>ms_b_vld = False, ms_b = b0, ms_r_vld = True,
                       ms_r = \<lparr>rid = arid ar, rlast = (i = 7), rdata = wdata (mq_w r ! i)\<rparr>\<rparr>) [0..<8] \<and>
           (\<forall>b. 64 \<le> unat (b - ucast a) \<longrightarrow> dm_mem s' b = dm_mem s b)"
proof -
  let ?g = "fold (\<lambda>i. write_beat a i (wdata (mq_w r ! i))) [0..<8] (dm_mem s)"
  have far: "fold (\<lambda>i. write_beat a i (wdata (mq_w r ! i))) [0..<n] (dm_mem s) b = dm_mem s b"
    if "n \<le> 8" "64 \<le> unat (b - ucast a)" for n b
    using that(1)
  proof (induction n)
    case (Suc n)
    have eq: "b - (ucast a + of_nat (8 * n)) = (b - ucast a) - of_nat (8 * n)" by simp
    have small: "unat (of_nat (8 * n) :: u16) = 8 * n"
      using Suc.prems by (intro unat_u16_of_nat) simp
    have "8 \<le> unat (b - (ucast a + of_nat (8 * n)))"
      unfolding eq unat_sub_if' [of "b - ucast a" "of_nat (8 * n)"] small using that(2) Suc.prems by simp
    then show ?case using Suc by (simp add: write_beat_le_store le_store_def)
  qed simp
  have "map (\<lambda>i. read_beat ?g a i) [0..<8] = map (\<lambda>i. wdata (mq_w r ! i)) [0..<8]"
    using read_after_burst [of 8] by simp
  then have "r_burst ?g ar = map (\<lambda>i. \<lparr>ms_b_vld = False, ms_b = b0, ms_r_vld = True,
      ms_r = \<lparr>rid = arid ar, rlast = (i = 7), rdata = wdata (mq_w r ! i)\<rparr>\<rparr>) [0..<8]"
    using assms(3) by (simp add: r_burst_def burst_params)
  then show ?thesis
    using assms far [of 8] by (auto simp: handle_write_def handle_read_def burst_params)
qed

theorem l1d_burst_roundtrip_witness:
  "\<exists>s' s''. handle_write (mem_req0\<lparr>mq_aw := \<lparr>awid = 1, awaddr = 0x8000fff8, awlen = 7\<rparr>\<rparr>)
              (projr (l1d_mem_init (Some []))) = Inr s' \<and>
            handle_read \<lparr>arid = 2, araddr = 0x8000fff8\<rparr> s' = Inr s''"
  using l1d_burst_roundtrip [of "0x8000fff8" "mem_req0\<lparr>mq_aw := \<lparr>awid = 1, awaddr = 0x8000fff8, awlen = 7\<rparr>\<rparr>"
      "\<lparr>arid = 2, araddr = 0x8000fff8\<rparr>" "projr (l1d_mem_init (Some []))"]
  by (auto simp: in_data_def DATA_PADDR_BASE_def DATA_PADDR_UPPER_def)

end
