(* ===== verification/L1d_Monitor.thy ===== *)
theory L1d_Monitor
  imports Monitor L1d_Mem
begin

unbundle bit_operations_syntax

text \<open>
  The parts of \<open>sim/l1d/monitor.cpp\<close> that the load/store unit bench does not share: the draw of
  a request (memory only, no I/O), the replay of a committed request byte by byte on the
  reference memory, and the final comparison of the two memories.
\<close>

section \<open>Operations\<close>

definition l1d_draw :: "rng \<Rightarrow> (draw \<times> rng) option" where
  "l1d_draw r =
     (let ((ls, fence, op, paddr_offset), r1) = draw_kind r in
      Some ((ls, fence, op, 0x80000000 + paddr_offset), r1))"

text \<open>The two \<open>switch\<close> statements; the size is a power of two exponent.\<close>

definition l1d_ld_shape :: "u8 \<Rightarrow> nat \<times> bool" where
  "l1d_ld_shape op =
     (if op = LDU_LB then (0, False) else if op = LDU_LH then (1, False)
      else if op = LDU_LW then (2, False) else if op = LDU_LD then (3, True)
      else if op = LDU_LBU then (0, True) else if op = LDU_LHU then (1, True)
      else if op = LDU_LWU then (2, True) else (0, False))"

definition l1d_st_shape :: "u8 \<Rightarrow> nat" where
  "l1d_st_shape op =
     (if op = STU_SB then 0 else if op = STU_SH then 1 else if op = STU_SW then 2
      else if op = STU_SD then 3 else 0)"

definition l1d_load :: "l1d_mem \<Rightarrow> req \<Rightarrow> u64" where
  "l1d_load m r =
     (let (size, unsign) = l1d_ld_shape (opcode r);
          d = fold (\<lambda>i d. d + push_bit (i * 8) (ucast (dm_get_byte m (ucast (paddr r + of_nat i)))))
                [0..<2 ^ size] 0
      in if \<not> unsign then
           if size = 0 \<and> d AND 0x80 = 0x80 then d OR 0xffffffffffffff00
           else if size = 1 \<and> d AND 0x8000 = 0x8000 then d OR 0xffffffffffff0000
           else if size = 2 \<and> d AND 0x80000000 = 0x80000000 then d OR 0xffffffff00000000
           else d
         else d)"

definition l1d_store :: "l1d_mem \<Rightarrow> req \<Rightarrow> l1d_mem" where
  "l1d_store m r =
     fold (\<lambda>i m. dm_set_byte m (ucast (paddr r + of_nat i)) (ucast (drop_bit (i * 8) (data r))))
       [0..<2 ^ l1d_st_shape (opcode r)] m"

definition l1d_check :: "l1d_mem \<Rightarrow> req \<Rightarrow> l1d_mem res" where
  "l1d_check m r =
     (if \<not> load_or_store r then
        if l1d_load m r \<noteq> data r then Inl (Throw ''load fail!'') else Inr m
      else Inr (l1d_store m r))"

definition l1d_mon_eval :: "u64 \<Rightarrow> rng \<Rightarrow> l1d_mem monitor \<Rightarrow> (l1d_mem monitor \<times> rng) res" where
  "l1d_mon_eval time r s = mon_eval l1d_draw 0 l1d_check time r s"

definition l1d_mem_check :: "l1d_mem \<Rightarrow> l1d_mem \<Rightarrow> bool" where
  "l1d_mem_check perfect real =
     list_all (\<lambda>i. dm_get_byte perfect (of_nat i) = dm_get_byte real (of_nat i)) [0..<2 ^ 16]"

section \<open>Refinement of the sequential memory\<close>

lemma and_pow_eq: "(x::u64) AND push_bit k 1 = push_bit k 1 \<longleftrightarrow> bit x k \<or> 64 \<le> k"
proof
  assume eq: "x AND push_bit k 1 = push_bit k 1"
  show "bit x k \<or> 64 \<le> k"
  proof (rule disjCI)
    assume "\<not> 64 \<le> k"
    then have "bit (x AND push_bit k 1) k" by (simp only: eq) (simp add: bit_simps)
    then show "bit x k" by (simp add: bit_simps)
  qed
next
  assume "bit x k \<or> 64 \<le> k"
  then show "x AND push_bit k 1 = push_bit k 1"
    by (intro bit_word_eqI) (auto simp: bit_simps)
qed

lemma l1d_load_sum:
  "n \<le> 8 \<Longrightarrow> fold (\<lambda>i d. d + push_bit (i * 8) (ucast (dm_get_byte m (ucast ((p::u64) + of_nat i)))))
     [0..<n] 0 = le_load (dm_get_byte m) (ucast p) n"
  by (simp add: ucast_add_of_nat add_loop_def mult.commute flip: add_loop_eq_le_load)

lemma sign_tests:
  "(x::u64) AND 0x80 = 0x80 \<longleftrightarrow> x AND 0x80 \<noteq> 0"
  "(x::u64) AND 0x8000 = 0x8000 \<longleftrightarrow> x AND 0x8000 \<noteq> 0"
  "(x::u64) AND 0x80000000 = 0x80000000 \<longleftrightarrow> bit x 31"
  unfolding sign_bits and_pow_eq and_pow_nonzero by simp_all

lemma sext8_eq:
  "(if le_load g a 1 AND 0x80 = 0x80 then le_load g a 1 OR 0xffffffffffffff00 else le_load g a 1) =
   load_value 1 True g a"
  unfolding sign_tests by (rule sext8)

lemma sext16_eq:
  "(if le_load g a 2 AND 0x8000 = 0x8000 then le_load g a 2 OR 0xffffffffffff0000 else le_load g a 2) =
   load_value 2 True g a"
  unfolding sign_tests by (rule sext16)

lemma sext32_eq:
  "(if le_load g a 4 AND 0x80000000 = 0x80000000 then le_load g a 4 OR 0xffffffff00000000
    else le_load g a 4) = load_value 4 True g a"
  unfolding sign_tests by (rule sext32)

lemma l1d_load_value:
  assumes "opcode r < 7"
  shows "l1d_load m r =
    load_value (ld_size (opcode r)) (ld_sign_extends (opcode r)) (dm_get_byte m) (ucast (paddr r))"
proof -
  let ?a = "ucast (paddr r) :: u16"
  note u = l1d_load_def l1d_ld_shape_def ld_size_def ld_sign_extends_def ldu_ops l1d_load_sum Let_def
  note v = load_value_def
  from legal_ops(2) [OF assms] show ?thesis
  proof (elim disjE)
    assume "opcode r = LDU_LB"
    then show ?thesis using sext8_eq [of "dm_get_byte m" ?a] by (auto simp add: u simp del: One_nat_def split: if_splits)
  next
    assume "opcode r = LDU_LH"
    then show ?thesis using sext16_eq [of "dm_get_byte m" ?a] by (auto simp add: u split: if_splits)
  next
    assume "opcode r = LDU_LW"
    then show ?thesis using sext32_eq [of "dm_get_byte m" ?a] by (auto simp add: u split: if_splits)
  next
    assume "opcode r = LDU_LD"
    then show ?thesis using sext64 [of "dm_get_byte m" ?a] by (simp add: u)
  qed (simp_all add: u v del: One_nat_def)
qed

lemma l1d_store_bytes:
  assumes "opcode r < 4"
  shows "dm_get_byte (l1d_store m r) =
         le_store (dm_get_byte m) (ucast (paddr r)) (st_size (opcode r)) (data r)"
proof -
  have byte: "ucast (drop_bit k (data r) AND 0xff) = (ucast (drop_bit k (data r)) :: u8)" for k
    by (rule bit_word_eqI) (auto simp: bit_simps byte_mask)
  have "l1d_store m r = store_loop dm_set_byte (2 ^ l1d_st_shape (opcode r)) (ucast (paddr r)) (data r) m"
    by (simp only: l1d_store_def store_loop_def byte ucast_add_of_nat mult.commute [of _ 8])
  moreover have "2 ^ l1d_st_shape (opcode r) = st_size (opcode r)" "st_size (opcode r) \<le> 8"
    using legal_ops(1) [OF assms] by (auto simp: l1d_st_shape_def st_size_def stu_ops)
  ultimately show ?thesis by (simp add: l1d_bytes.get_store_loop)
qed

interpretation l1d_checker: commit_checker dm_get_byte dm_set_byte l1d_check
  by unfold_locales
    (auto simp: l1d_check_def spec_commit_def req_key_def l1d_load_value l1d_store_bytes)

lemma l1d_draw_legal:
  "l1d_draw r = Some ((ls, f, op, pa), r') \<Longrightarrow> if ls then op < 4 else op < 7"
  using draw_kind_legal by (fastforce simp: l1d_draw_def Let_def split: prod.splits)

section \<open>Properties\<close>

text \<open>
  C13. The replay of the cache bench, written with byte loops and explicit sign extension, is the
  same sequential memory as the one of the load/store unit bench.
\<close>

theorem l1d_check_is_sequential:
  assumes "legal_key (req_key r)"
  shows "res_map dm_get_byte (l1d_check m r) = spec_commit (dm_get_byte m) r"
  by (rule l1d_checker.check_refines [OF assms])

theorem l1d_check_is_sequential_witness:
  "res_map dm_get_byte (l1d_check (projr (l1d_mem_init (Some []))) (mk_req 0x80000010 7 0 0 1 False True 2)) =
   spec_commit (dm_get_byte (projr (l1d_mem_init (Some [])))) (mk_req 0x80000010 7 0 0 1 False True 2)"
  by (rule l1d_check_is_sequential) (simp add: req_key_def mk_req_def)

end
