(* ===== verification/L1d_Bench.thy ===== *)
theory L1d_Bench
  imports L1d_Monitor Lockstep Bench_Loop
begin

unbundle bit_operations_syntax

text \<open>
  The bench of the L1 data cache, \<open>sim/l1d/l1d.cpp\<close>: the wiring between the cache, the monitor,
  the reorder buffer and the AXI memory, with the packing of the AXI channels into 32-bit words,
  the main loop, and the end of \<open>main\<close>. The cache is the Verilator model \<open>Vl1d_top\<close>, an argument
  here.
\<close>

section \<open>Packed channels\<close>

text \<open>A port wider than 64 bits is an array of 32-bit words, the lowest first.\<close>

type_synonym wide = "u32 \<times> u32 \<times> u32"

definition unpack_aw :: "wide \<Rightarrow> axi_aw_req" where
  "unpack_aw p =
     (case p of (p0, p1, p2) \<Rightarrow>
        aw0\<lparr>awaddr := (push_bit (64 - 13) (ucast p2) + push_bit (32 - 13) (ucast p1) +
                       drop_bit 13 (ucast p0)) AND 0xffffffffffffff\<rparr>)"

definition unpack_w :: "wide \<Rightarrow> axi_w_req" where
  "unpack_w p =
     (case p of (p0, p1, p2) \<Rightarrow>
        w0\<lparr>wdata := push_bit (64 - 9) (ucast p2) + push_bit (32 - 9) (ucast p1) + drop_bit 9 (ucast p0)\<rparr>)"

definition unpack_ar :: "wide \<Rightarrow> axi_ar_req" where
  "unpack_ar p =
     (case p of (p0, p1, p2) \<Rightarrow>
        \<lparr>arid = drop_bit 5 p2, araddr = (push_bit 32 (ucast p1) + ucast p0) AND 0xffffffffffffff\<rparr>)"

definition pack_r :: "axi_r_resp \<Rightarrow> wide" where
  "pack_r r =
     (ucast (push_bit 6 (rdata r) + of_flag (rlast r)),
      ucast (drop_bit 26 (rdata r)),
      ucast (ucast (push_bit 6 (rid r)) + drop_bit 58 (rdata r) :: u64))"

section \<open>Ports of the cache\<close>

record l1d_out =
  lsu_rcu_rdy_o :: bool
  l1d_comm_vld_o :: bool
  l1d_comm_data_o :: u64
  l1d_comm_rob_index_o :: u8
  l1d_comm_rd_addr_o :: u8
  l1d_l2_req_awvalid_o :: bool
  l1d_l2_req_aw_o :: wide
  l1d_l2_req_wvalid_o :: bool
  l1d_l2_req_w_o :: wide
  l1d_l2_req_arvalid_o :: bool
  l1d_l2_req_ar_o :: wide
  l2_l1d_resp_rready_o :: bool
  l2_l1d_resp_bready_o :: bool

record l1d_in =
  l1d_clk :: bool
  l1d_rst :: bool
  l1d_flush :: bool
  l1d_rcu_vld_i :: bool
  l1d_rcu_ls_i :: bool
  l1d_rcu_ld_opcode_i :: u8
  l1d_rcu_st_opcode_i :: u8
  l1d_rcu_fenced_i :: bool
  l1d_rcu_virt_base_i :: u64
  l1d_rcu_virt_offset_i :: u64
  l1d_rcu_rob_index_i :: u8
  l1d_rcu_rd_addr_i :: u8
  l1d_rcu_data_i :: u64
  l1d_rcu_wakeup_vld_i :: bool
  l1d_rcu_wakeup_rob_index_i :: u8
  l1d_l2_req_arready_i :: bool
  l1d_l2_req_awready_i :: bool
  l1d_l2_req_wready_i :: bool
  l2_l1d_resp_bvalid_i :: bool
  l2_l1d_resp_b_i :: u32
  l2_l1d_resp_rvalid_i :: bool
  l2_l1d_resp_r_i :: wide

definition l1d_reset :: l1d_in where
  "l1d_reset =
     \<lparr>l1d_clk = False, l1d_rst = True, l1d_flush = False, l1d_rcu_vld_i = False, l1d_rcu_ls_i = False,
      l1d_rcu_ld_opcode_i = 0, l1d_rcu_st_opcode_i = 0, l1d_rcu_fenced_i = False,
      l1d_rcu_virt_base_i = 0, l1d_rcu_virt_offset_i = 0, l1d_rcu_rob_index_i = 0,
      l1d_rcu_rd_addr_i = 0, l1d_rcu_data_i = 0, l1d_rcu_wakeup_vld_i = False,
      l1d_rcu_wakeup_rob_index_i = 0, l1d_l2_req_arready_i = False, l1d_l2_req_awready_i = False,
      l1d_l2_req_wready_i = False, l2_l1d_resp_bvalid_i = False, l2_l1d_resp_b_i = 0,
      l2_l1d_resp_rvalid_i = False, l2_l1d_resp_r_i = (0, 0, 0)\<rparr>"

section \<open>State of the bench\<close>

definition L1D_MAX_TIME :: nat where "L1D_MAX_TIME = 1000000000"
definition L1D_TEST_NUM :: u64 where "L1D_TEST_NUM = 100000"
definition L1D_RST_TIME :: nat where "L1D_RST_TIME = 100"

record 'd l1d_bench =
  db_time :: nat
  db_in :: l1d_in
  db_dut :: 'd
  db_mon :: "l1d_mem monitor"
  db_rcu :: rcu
  db_mem :: l1d_mem
  db_rng :: rng

definition l1d_bench_init :: "u64 \<Rightarrow> l1d_mem \<Rightarrow> 'd \<Rightarrow> rng \<Rightarrow> 'd l1d_bench" where
  "l1d_bench_init tm m d r =
     \<lparr>db_time = 0, db_in = l1d_reset, db_dut = d, db_mon = mon_init m tm, db_rcu = rcu_init,
      db_mem = m, db_rng = r\<rparr>"

section \<open>One unit of time\<close>

definition l1d_drive_clock :: "'d l1d_bench \<Rightarrow> 'd l1d_bench" where
  "l1d_drive_clock s =
     (if db_time s mod 10 = 0 then s\<lparr>db_in := (db_in s)\<lparr>l1d_clk := True\<rparr>\<rparr>
      else if db_time s mod 10 = 5 then s\<lparr>db_in := (db_in s)\<lparr>l1d_clk := False\<rparr>\<rparr>
      else s)"

definition l1d_unit_out :: "l1d_out \<Rightarrow> unit_out" where
  "l1d_unit_out q =
     \<lparr>uo_rdy = lsu_rcu_rdy_o q, uo_comm_vld = l1d_comm_vld_o q, uo_comm_data = l1d_comm_data_o q,
      uo_comm_rob_index = l1d_comm_rob_index_o q, uo_comm_rd_addr = l1d_comm_rd_addr_o q\<rparr>"

definition l1d_connect_core :: "l1d_out \<Rightarrow> 'd l1d_bench \<Rightarrow> 'd l1d_bench" where
  "l1d_connect_core q s =
     s\<lparr>db_rcu := rcu_set (connect_rcu (l1d_unit_out q) (db_mon s)) (db_rcu s),
       db_mon := connect_mon (db_rcu s) (db_mon s)\<rparr>"

definition l1d_drive_rcu :: "'d l1d_bench \<Rightarrow> 'd l1d_bench" where
  "l1d_drive_rcu s =
     (let rq = lsu_req (db_rcu s) in
      s\<lparr>db_in := (db_in s)\<lparr>l1d_rst := False, l1d_rcu_vld_i := lsu_req_vld (db_rcu s),
          l1d_rcu_ls_i := load_or_store rq, l1d_rcu_ld_opcode_i := opcode rq,
          l1d_rcu_st_opcode_i := opcode rq, l1d_rcu_fenced_i := False,
          l1d_rcu_virt_base_i := paddr rq, l1d_rcu_virt_offset_i := 0,
          l1d_rcu_rob_index_i := rob_index rq, l1d_rcu_rd_addr_i := rd_addr rq,
          l1d_rcu_data_i := data rq, l1d_rcu_wakeup_vld_i := wake_up_vld (db_rcu s),
          l1d_rcu_wakeup_rob_index_i := ucast (wake_up_rob_index (db_rcu s))\<rparr>\<rparr>)"

definition l1d_axi_in :: "l1d_out \<Rightarrow> axi_in" where
  "l1d_axi_in q =
     \<lparr>ai_ar_vld = l1d_l2_req_arvalid_o q, ai_ar = unpack_ar (l1d_l2_req_ar_o q),
      ai_aw_vld = l1d_l2_req_awvalid_o q, ai_aw = unpack_aw (l1d_l2_req_aw_o q),
      ai_w_vld = l1d_l2_req_wvalid_o q, ai_w = unpack_w (l1d_l2_req_w_o q),
      ai_r_rdy = l2_l1d_resp_rready_o q, ai_b_rdy = l2_l1d_resp_bready_o q\<rparr>"

definition l1d_drive_axi :: "l1d_out \<Rightarrow> 'd l1d_bench \<Rightarrow> 'd l1d_bench" where
  "l1d_drive_axi q s =
     s\<lparr>db_mem := dm_set (l1d_axi_in q) (db_mem s),
       db_in := (db_in s)\<lparr>l1d_l2_req_awready_i := True, l1d_l2_req_wready_i := True,
         l1d_l2_req_arready_i := True, l2_l1d_resp_rvalid_i := dm_r_vld (db_mem s),
         l2_l1d_resp_r_i := pack_r (dm_r_resp (db_mem s)), l2_l1d_resp_bvalid_i := dm_b_vld (db_mem s),
         l2_l1d_resp_b_i := push_bit 2 (bid (dm_b_resp (db_mem s)))\<rparr>\<rparr>"

definition l1d_drive :: "l1d_out \<Rightarrow> 'd l1d_bench \<Rightarrow> 'd l1d_bench" where
  "l1d_drive q s = l1d_drive_axi q (l1d_drive_rcu (l1d_connect_core q s))"

text \<open>
  \<open>monitor->eval(); rcu->eval(); real_mem->eval(); perfect_mem->eval();\<close> The reference memory is
  the monitor's. \<open>stale\<close> is what the two memories read from their empty waiting queues.
\<close>

definition l1d_eval_all :: "mem_req \<times> mem_req \<Rightarrow> 'd l1d_bench \<Rightarrow> 'd l1d_bench res" where
  "l1d_eval_all stale s =
     res_bind (l1d_mon_eval (of_nat (db_time s)) (db_rng s) (db_mon s)) (\<lambda>(m, r1).
     res_bind (dm_eval (fst stale) r1 (db_mem s)) (\<lambda>(real, r2).
     res_map (\<lambda>(perfect, r3).
       s\<lparr>db_mon := m\<lparr>mn_mem := perfect\<rparr>, db_rcu := l1d_rcu_eval (db_rcu s), db_mem := real, db_rng := r3\<rparr>)
       (dm_eval (snd stale) r2 (mn_mem m))))"

definition l1d_dut_eval :: "(l1d_in \<Rightarrow> 'd \<Rightarrow> 'd) \<Rightarrow> 'd l1d_bench \<Rightarrow> 'd l1d_bench" where
  "l1d_dut_eval dut s = s\<lparr>db_dut := dut (db_in s) (db_dut s), db_time := db_time s + 1\<rparr>"

definition l1d_time_step ::
    "(l1d_in \<Rightarrow> 'd \<Rightarrow> 'd) \<Rightarrow> ('d \<Rightarrow> l1d_out) \<Rightarrow> (nat \<Rightarrow> mem_req \<times> mem_req) \<Rightarrow> 'd l1d_bench \<Rightarrow> 'd l1d_bench res" where
  "l1d_time_step dut ports stale s0 =
     (let s = l1d_drive_clock s0 in
      if db_time s > L1D_RST_TIME then
        (let s1 = l1d_drive (ports (db_dut s)) s in
         res_map (l1d_dut_eval dut) (if db_time s mod 10 = 0 then l1d_eval_all (stale (db_time s)) s1 else Inr s1))
      else Inr (l1d_dut_eval dut s))"

lemma l1d_drive_simps [simp]:
  "db_time (l1d_drive q s) = db_time s"
  "db_rcu (l1d_drive q s) = rcu_set (connect_rcu (l1d_unit_out q) (db_mon s)) (db_rcu s)"
  "db_mon (l1d_drive q s) = connect_mon (db_rcu s) (db_mon s)"
  "db_rng (l1d_drive q s) = db_rng s"
  "db_mem (l1d_drive q s) = dm_set (l1d_axi_in q) (db_mem s)"
  by (simp_all add: l1d_drive_def l1d_drive_axi_def l1d_drive_rcu_def l1d_connect_core_def Let_def)

lemma l1d_drive_clock_simps [simp]:
  "db_time (l1d_drive_clock s) = db_time s" "db_mon (l1d_drive_clock s) = db_mon s"
  "db_rcu (l1d_drive_clock s) = db_rcu s" "db_mem (l1d_drive_clock s) = db_mem s"
  "db_dut (l1d_drive_clock s) = db_dut s" "db_rng (l1d_drive_clock s) = db_rng s"
  by (simp_all add: l1d_drive_clock_def)

lemma l1d_time_step_time:
  "l1d_time_step dut ports stale s = Inr s' \<Longrightarrow> db_time s' = Suc (db_time s)"
  by (auto simp: l1d_time_step_def l1d_dut_eval_def l1d_eval_all_def Let_def split: if_splits)

section \<open>The main loop and its end\<close>

function l1d_loop ::
    "(l1d_in \<Rightarrow> 'd \<Rightarrow> 'd) \<Rightarrow> ('d \<Rightarrow> l1d_out) \<Rightarrow> (nat \<Rightarrow> mem_req \<times> mem_req) \<Rightarrow> 'd l1d_bench \<Rightarrow> 'd l1d_bench res" where
  "l1d_loop dut ports stale s =
     (if \<not> ut_done (db_mon s) \<and> db_time s < L1D_MAX_TIME then
        (case l1d_time_step dut ports stale s of
           Inl e \<Rightarrow> Inl e
         | Inr s' \<Rightarrow> l1d_loop dut ports stale s')
      else Inr s)"
  by pat_completeness auto
termination
  by (relation "measure (\<lambda>(_, _, _, s). L1D_MAX_TIME - db_time s)") (auto dest: l1d_time_step_time)

declare l1d_loop.simps [simp del]

text \<open>
  \<open>main\<close> catches what the constructors throw, deletes what exists and goes on, with a null
  monitor. After the loop, on either path, it deletes the monitor and then asks it whether the
  test is done.
\<close>

definition l1d_finish :: "'d l1d_bench res \<Rightarrow> bool res" where
  "l1d_finish r =
     (case r of
        Inl (Throw msg) \<Rightarrow> Inl (Undefined ''double delete'')
      | Inl e \<Rightarrow> Inl e
      | Inr s \<Rightarrow> Inl (Undefined ''use of a deleted monitor''))"

definition l1d_main ::
    "(l1d_in \<Rightarrow> 'd \<Rightarrow> 'd) \<Rightarrow> ('d \<Rightarrow> l1d_out) \<Rightarrow> (nat \<Rightarrow> mem_req \<times> mem_req) \<Rightarrow> u8 list option \<Rightarrow> 'd \<Rightarrow> rng \<Rightarrow> bool res" where
  "l1d_main dut ports stale pt d r =
     (case l1d_mem_init pt of
        Inl (Throw msg) \<Rightarrow> Inl (Undefined ''null monitor dereferenced'')
      | Inl e \<Rightarrow> Inl e
      | Inr m \<Rightarrow>
          l1d_finish (l1d_loop dut ports stale (l1d_bench_init L1D_TEST_NUM m d r)))"

section \<open>The reference memory stays idle\<close>

definition dm_idle :: "l1d_mem \<Rightarrow> bool" where
  "dm_idle m \<longleftrightarrow> dm_req_q m = [] \<and> dm_req_wait_q m = [] \<and> dm_resp_q m = [] \<and>
     \<not> dm_ar_vld m \<and> \<not> dm_aw_vld m \<and> \<not> dm_w_vld m"


lemma dm_idle_set_byte [simp]: "dm_idle (dm_set_byte m a v) = dm_idle m"
  by (simp add: dm_idle_def dm_set_byte_def)




section \<open>The invariant of the bench\<close>















section \<open>The faults of a run\<close>







section \<open>Properties\<close>



text \<open>
  \<open>main\<close> of the cache bench has no defined end: whatever the page table file holds and the
  cache does, it dereferences a null or deleted monitor or deletes twice, unless it stopped
  earlier with undefined behaviour or in an endless loop.
\<close>

theorem l1d_main_undefined: "\<exists>e. l1d_main dut ports stale pt d r = Inl e \<and> (\<forall>msg. e \<noteq> Throw msg)"
  by (auto simp: l1d_main_def l1d_finish_def split: sum.splits fault.splits)

section \<open>The packed channels\<close>

text \<open>The 96 bits of a wide port.\<close>

definition wide_bits :: "wide \<Rightarrow> 96 word" where
  "wide_bits p = (case p of (p0, p1, p2) \<Rightarrow> push_bit 64 (ucast p2) OR push_bit 32 (ucast p1) OR ucast p0)"

lemma bit_wide:
  "bit (wide_bits (p0, p1, p2)) k \<longleftrightarrow>
     (if k < 32 then bit p0 k else if k < 64 then bit p1 (k - 32) else bit p2 (k - 64))"
  by (auto simp: wide_bits_def bit_simps dest: bit_imp_le_length)

lemma mask_56: "(0xffffffffffffff :: u64) = mask 56"
  by (simp add: mask_eq_exp_minus_1)

lemma add3_is_or:
  fixes x y z :: "'a::len word"
  assumes "\<And>n. bit x n \<Longrightarrow> bit y n \<Longrightarrow> False" "\<And>n. bit x n \<Longrightarrow> bit z n \<Longrightarrow> False"
    "\<And>n. bit y n \<Longrightarrow> bit z n \<Longrightarrow> False"
  shows "x + y + z = x OR y OR z"
proof -
  have "x + y = x OR y" by (rule or_is_add_if_disjoint) (rule assms(1))
  moreover have "(x OR y) + z = (x OR y) OR z"
    by (rule or_is_add_if_disjoint) (auto simp: bit_simps dest: assms)
  ultimately show ?thesis by (simp add: or.assoc)
qed

lemma shifted_words:
  fixes p0 p1 p2 :: u32
  assumes "0 < k" "k < 32"
  shows "push_bit (64 - k) (ucast p2) + push_bit (32 - k) (ucast p1) + drop_bit k (ucast p0) =
         (ucast (drop_bit k (wide_bits (p0, p1, p2))) :: u64)"
proof -
  have "push_bit (64 - k) (ucast p2) + push_bit (32 - k) (ucast p1) + drop_bit k (ucast p0) =
      (push_bit (64 - k) (ucast p2) OR push_bit (32 - k) (ucast p1) OR drop_bit k (ucast p0) :: u64)"
    using assms by (intro add3_is_or) (auto simp: bit_simps dest: bit_imp_le_length)
  also have "\<dots> = ucast (drop_bit k (wide_bits (p0, p1, p2)))"
  proof (rule bit_word_eqI)
    fix n :: nat
    assume "n < LENGTH(64)"
    then show "bit (push_bit (64 - k) (ucast p2) OR push_bit (32 - k) (ucast p1) OR
        drop_bit k (ucast p0) :: u64) n \<longleftrightarrow> bit (ucast (drop_bit k (wide_bits (p0, p1, p2))) :: u64) n"
      using assms bit_imp_le_length [of p0 "k + n"] bit_imp_le_length [of p1 "n + k - 32"]
      by (auto simp: bit_simps bit_wide add.commute split: if_splits)
  qed
  finally show ?thesis .
qed

lemma unpack_ar_bits:
  "araddr (unpack_ar (p0, p1, p2)) = take_bit 56 (ucast (wide_bits (p0, p1, p2)))"
  "arid (unpack_ar (p0, p1, p2)) = ucast (drop_bit 69 (wide_bits (p0, p1, p2)))"
proof -
  have sum: "push_bit 32 (ucast p1) + ucast p0 = (push_bit 32 (ucast p1) OR ucast p0 :: u64)"
    by (rule or_is_add_if_disjoint) (auto simp: bit_simps dest: bit_imp_le_length)
  have "(push_bit 32 (ucast p1) OR ucast p0 :: u64) AND mask 56 = take_bit 56 (ucast (wide_bits (p0, p1, p2)))"
    by (rule bit_word_eqI) (auto simp: bit_simps bit_wide dest: bit_imp_le_length)
  then show "araddr (unpack_ar (p0, p1, p2)) = take_bit 56 (ucast (wide_bits (p0, p1, p2)))"
    by (simp add: unpack_ar_def sum mask_56)
  show "arid (unpack_ar (p0, p1, p2)) = ucast (drop_bit 69 (wide_bits (p0, p1, p2)))"
    by (rule bit_word_eqI) (auto simp: unpack_ar_def bit_simps bit_wide dest: bit_imp_le_length)
qed

lemma pack_r_bits:
  "wide_bits (pack_r p) = push_bit 70 (ucast (rid p)) OR push_bit 6 (ucast (rdata p)) OR of_flag (rlast p)"
proof -
  have low: "push_bit 6 (rdata p) + of_flag (rlast p) = (push_bit 6 (rdata p) OR of_flag (rlast p))"
    by (rule or_is_add_if_disjoint) (auto simp: bit_simps of_flag_def split: if_splits)
  have high: "ucast (push_bit 6 (rid p)) + drop_bit 58 (rdata p) =
      (ucast (push_bit 6 (rid p)) OR drop_bit 58 (rdata p) :: u64)"
    by (rule or_is_add_if_disjoint) (auto simp: bit_simps dest: bit_imp_le_length)
  show ?thesis
  proof (rule bit_word_eqI)
    fix k :: nat
    assume "k < LENGTH(96)"
    then show "bit (wide_bits (pack_r p)) k \<longleftrightarrow>
        bit (push_bit 70 (ucast (rid p)) OR push_bit 6 (ucast (rdata p)) OR of_flag (rlast p) :: 96 word) k"
      unfolding pack_r_def low high
      by (auto simp: bit_wide bit_simps of_flag_def split: if_splits dest: bit_imp_le_length)
  qed
qed

text \<open>
  C40. The shifts and sums of the bench cut the AXI fields where the packed structures of the
  cache put them: the write address is the 56 bits from bit 13, the write data the 64 bits from
  bit 9, the read address the low 56 bits and the read identifier the bits from 69; and a read
  response is packed with its last flag at bit 0, its data from bit 6 and its identifier from
  bit 70.
\<close>

theorem l1d_axi_packing:
  "awaddr (unpack_aw p) = take_bit 56 (ucast (drop_bit 13 (wide_bits p))) \<and>
   wdata (unpack_w p) = ucast (drop_bit 9 (wide_bits p)) \<and>
   araddr (unpack_ar p) = take_bit 56 (ucast (wide_bits p)) \<and>
   arid (unpack_ar p) = ucast (drop_bit 69 (wide_bits p)) \<and>
   wide_bits (pack_r q) = push_bit 70 (ucast (rid q)) OR push_bit 6 (ucast (rdata q)) OR of_flag (rlast q)"
proof -
  obtain p0 p1 p2 where p: "p = (p0, p1, p2)" by (cases p)
  have "awaddr (unpack_aw p) = take_bit 56 (ucast (drop_bit 13 (wide_bits p)))"
    using shifted_words [of 13 p2 p1 p0] by (simp add: p unpack_aw_def mask_56 take_bit_eq_mask)
  moreover have "wdata (unpack_w p) = ucast (drop_bit 9 (wide_bits p))"
    using shifted_words [of 9 p2 p1 p0] by (simp add: p unpack_w_def)
  ultimately show ?thesis by (simp add: p unpack_ar_bits pack_r_bits)
qed

end
