(* ===== verification/Perfect_Mem.thy ===== *)
theory Perfect_Mem
  imports Byte_Store
begin

unbundle bit_operations_syntax

text \<open>
  The memory of the self-check benches, \<open>sim/perfect_mem.hpp\<close>: an array of 32-bit words behind
  16-bit byte addresses, with direct reads (\<open>peek\<close>) and writes of 8, 16, 32 and 64 bits and two
  ways to answer a read later. A memory built with \<open>random = 0\<close> answers one read at a time after
  a fixed delay; one built with \<open>random = 1\<close> keeps its reads in a queue of \<open>MSHR_DEPTH\<close> entries
  with random delays.
\<close>

section \<open>State\<close>

definition PERFECT_MEM_MAX_SIZE :: nat where
  "PERFECT_MEM_MAX_SIZE = push_bit (16 - 2) 2"

definition DELAY :: nat where "DELAY = 3"

definition MSHR_DEPTH :: nat where "MSHR_DEPTH = 2"

record req_entry =
  re_data :: u64
  re_lsq_index :: u32
  re_addr :: u16
  re_valid :: bool
  re_delay :: u16

definition req_entry0 :: req_entry where
  "req_entry0 = \<lparr>re_data = 0, re_lsq_index = 0, re_addr = 0, re_valid = False, re_delay = 0\<rparr>"

text \<open>\<open>pm_req_que\<close> is empty when the queue is not allocated.\<close>

record perfect_mem =
  pm_mem :: "nat \<Rightarrow> u32"
  pm_clk :: bool
  pm_random_return :: bool
  pm_req_que :: "req_entry list"
  pm_lsu_ready :: bool
  pm_addr :: u16
  pm_lsq_index :: u32
  pm_delay :: u32
  pm_lock :: bool
  pm_resp_valid :: bool
  pm_wb_ack :: u32

text \<open>The constructor leaves \<open>_clk\<close> and \<open>_lsu_ready\<close> uninitialised: \<open>jclk\<close> and \<open>jrdy\<close>.\<close>

definition perfect_mem_init :: "bool \<Rightarrow> bool \<Rightarrow> bool \<Rightarrow> perfect_mem" where
  "perfect_mem_init random jclk jrdy =
     \<lparr>pm_mem = (\<lambda>i. if i < PERFECT_MEM_MAX_SIZE then push_bit 2 (of_nat i) else 0),
      pm_clk = jclk, pm_random_return = random,
      pm_req_que = (if random then replicate MSHR_DEPTH req_entry0 else []),
      pm_lsu_ready = jrdy, pm_addr = 0, pm_lsq_index = 0, pm_delay = 0, pm_lock = False,
      pm_resp_valid = False, pm_wb_ack = 0\<rparr>"

section \<open>Direct access\<close>

definition pm_idx :: "u16 \<Rightarrow> nat" where
  "pm_idx addr = unat (drop_bit 2 addr)"

definition pm_peek64 :: "perfect_mem \<Rightarrow> u16 \<Rightarrow> u64 res" where
  "pm_peek64 s addr =
     (if unat addr mod 8 \<noteq> 0 then Inl (Throw ''addr misaligned'')
      else Inr (push_bit 32 (ucast (pm_mem s (pm_idx addr + 1))) + ucast (pm_mem s (pm_idx addr))))"

definition pm_peek32 :: "perfect_mem \<Rightarrow> u16 \<Rightarrow> u32 res" where
  "pm_peek32 s addr =
     (if unat addr mod 4 \<noteq> 0 then Inl (Throw ''addr misaligned'')
      else Inr (pm_mem s (pm_idx addr)))"

definition pm_peek16 :: "perfect_mem \<Rightarrow> u16 \<Rightarrow> u16 res" where
  "pm_peek16 s addr =
     (if unat addr mod 2 \<noteq> 0 then Inl (Throw ''addr misaligned'')
      else if unat addr mod 4 = 0 then Inr (ucast (pm_mem s (pm_idx addr)))
      else Inr (ucast (drop_bit 16 (pm_mem s (pm_idx addr)))))"

definition pm_peek8 :: "perfect_mem \<Rightarrow> u16 \<Rightarrow> u8" where
  "pm_peek8 s addr = ucast (drop_bit (8 * (unat addr mod 4)) (pm_mem s (pm_idx addr)))"

definition pm_get :: "perfect_mem \<Rightarrow> nat \<Rightarrow> u32 res" where
  "pm_get s index =
     (if index < PERFECT_MEM_MAX_SIZE then Inr (pm_mem s index)
      else Inl (Undefined ''_mem read past its end''))"

text \<open>Every write starts the acknowledge counter unless it already runs.\<close>

definition pm_put_ack :: "nat \<Rightarrow> u32 \<Rightarrow> perfect_mem \<Rightarrow> perfect_mem" where
  "pm_put_ack i v s =
     s\<lparr>pm_mem := (pm_mem s)(i := v), pm_wb_ack := (if pm_wb_ack s = 0 then 1 else pm_wb_ack s)\<rparr>"

definition pm_write64 :: "u16 \<Rightarrow> u64 \<Rightarrow> perfect_mem \<Rightarrow> perfect_mem res" where
  "pm_write64 addr data s =
     (if unat addr mod 8 \<noteq> 0 then Inl (Throw ''addr misaligned'')
      else let s1 = s\<lparr>pm_mem := (pm_mem s)(pm_idx addr + 1 := ucast (drop_bit 32 data))\<rparr> in
           Inr (pm_put_ack (pm_idx addr) (ucast data) s1))"

definition pm_write32 :: "u16 \<Rightarrow> u32 \<Rightarrow> perfect_mem \<Rightarrow> perfect_mem res" where
  "pm_write32 addr data s =
     (if unat addr mod 4 \<noteq> 0 then Inl (Throw ''addr misaligned'')
      else Inr (pm_put_ack (pm_idx addr) data s))"

definition pm_write16 :: "u16 \<Rightarrow> u16 \<Rightarrow> perfect_mem \<Rightarrow> perfect_mem res" where
  "pm_write16 addr data s =
     (if unat addr mod 2 \<noteq> 0 then Inl (Throw ''addr misaligned'')
      else let old = pm_mem s (pm_idx addr) in
           if unat addr mod 4 = 0 then
             Inr (pm_put_ack (pm_idx addr) (ucast data + (old AND 0xffff0000)) s)
           else Inr (pm_put_ack (pm_idx addr) (push_bit 16 (ucast data) + (old AND 0x0000ffff)) s))"

definition pm_write8 :: "u16 \<Rightarrow> u8 \<Rightarrow> perfect_mem \<Rightarrow> perfect_mem" where
  "pm_write8 addr data s =
     (let mask = 0xffffffff XOR push_bit (unat addr mod 4 * 8) 0xff in
      pm_put_ack (pm_idx addr)
        (push_bit (unat addr mod 4 * 8) (ucast data) + (pm_mem s (pm_idx addr) AND mask)) s)"

text \<open>\<open>other->get(i)\<close> stays inside the other array: both have the same size.\<close>

definition pm_final_check :: "perfect_mem \<Rightarrow> perfect_mem \<Rightarrow> bool" where
  "pm_final_check s other =
     list_all (\<lambda>i. Inr (pm_mem s i) = pm_get other i) [0..<PERFECT_MEM_MAX_SIZE]"

section \<open>Reads that are answered later\<close>

text \<open>
  \<open>ready\<close> of a memory with a queue: the loop leaves after its first round whatever it found
  there, so only entry 0 is looked at.
\<close>

definition pm_ready :: "perfect_mem \<Rightarrow> bool" where
  "pm_ready s =
     (if \<not> pm_random_return s then \<not> pm_lock s
      else (case pm_req_que s of [] \<Rightarrow> False | e # es \<Rightarrow> \<not> re_valid e))"

fun first_free :: "nat \<Rightarrow> req_entry list \<Rightarrow> nat option" where
  "first_free i [] = None"
| "first_free i (e # es) = (if \<not> re_valid e then Some i else first_free (i + 1) es)"

definition pm_new_entry :: "perfect_mem \<Rightarrow> nat res" where
  "pm_new_entry s =
     (if \<not> pm_ready s then Inl (Throw ''read req come in when queue is not ready'')
      else (case first_free 0 (pm_req_que s) of
              None \<Rightarrow> Inl (Undefined ''end of new_entry reached without a return'')
            | Some i \<Rightarrow> Inr i))"

text \<open>
  \<open>handle_delay_conflict\<close>: the delay of entry \<open>index\<close> is incremented until no other entry, valid
  or not, has the same one.
\<close>

definition delay_clash :: "nat \<Rightarrow> req_entry list \<Rightarrow> bool" where
  "delay_clash index q =
     list_ex (\<lambda>i. i \<noteq> index \<and> re_delay (q ! index) = re_delay (q ! i)) [0..<MSHR_DEPTH]"

partial_function (option) handle_delay_conflict :: "nat \<Rightarrow> req_entry list \<Rightarrow> req_entry list option" where
  "handle_delay_conflict index q =
     (if delay_clash index q
      then handle_delay_conflict index (q[index := (q ! index)\<lparr>re_delay := re_delay (q ! index) + 1\<rparr>])
      else Some q)"

text \<open>The part that \<open>read64\<close>, \<open>read32\<close>, \<open>read16\<close> and \<open>read8\<close> have in common after their alignment check.\<close>

definition pm_read :: "u64 res \<Rightarrow> rng \<Rightarrow> u16 \<Rightarrow> u32 \<Rightarrow> perfect_mem \<Rightarrow> (perfect_mem \<times> rng) res" where
  "pm_read d r addr lsq_id s =
     (if \<not> pm_random_return s then
        Inr (s\<lparr>pm_addr := addr, pm_delay := of_nat DELAY, pm_lsq_index := lsq_id, pm_lock := True\<rparr>, r)
      else
        res_bind (pm_new_entry s) (\<lambda>index.
        res_bind d (\<lambda>v.
          let (n, r') = rand r;
              e = \<lparr>re_data = v, re_lsq_index = lsq_id, re_addr = addr, re_valid = True,
                   re_delay = of_nat (1 + n mod DELAY)\<rparr>
          in (case handle_delay_conflict index ((pm_req_que s)[index := e]) of
                None \<Rightarrow> Inl Spins
              | Some q \<Rightarrow> Inr (s\<lparr>pm_req_que := q\<rparr>, r')))))"

definition pm_read64 :: "rng \<Rightarrow> u16 \<Rightarrow> u32 \<Rightarrow> perfect_mem \<Rightarrow> (perfect_mem \<times> rng) res" where
  "pm_read64 r addr lsq_id s =
     (if unat addr mod 8 \<noteq> 0 then Inl (Throw ''addr misaligned'')
      else pm_read (pm_peek64 s addr) r addr lsq_id s)"

definition pm_read32 :: "rng \<Rightarrow> u16 \<Rightarrow> u32 \<Rightarrow> perfect_mem \<Rightarrow> (perfect_mem \<times> rng) res" where
  "pm_read32 r addr lsq_id s =
     (if unat addr mod 4 \<noteq> 0 then Inl (Throw ''addr misaligned'')
      else pm_read (res_map ucast (pm_peek32 s addr)) r addr lsq_id s)"

definition pm_read16 :: "rng \<Rightarrow> u16 \<Rightarrow> u32 \<Rightarrow> perfect_mem \<Rightarrow> (perfect_mem \<times> rng) res" where
  "pm_read16 r addr lsq_id s =
     (if unat addr mod 2 \<noteq> 0 then Inl (Throw ''addr misaligned'')
      else pm_read (res_map ucast (pm_peek16 s addr)) r addr lsq_id s)"

definition pm_read8 :: "rng \<Rightarrow> u16 \<Rightarrow> u32 \<Rightarrow> perfect_mem \<Rightarrow> (perfect_mem \<times> rng) res" where
  "pm_read8 r addr lsq_id s = pm_read (Inr (ucast (pm_peek8 s addr))) r addr lsq_id s"

text \<open>The answers: the first entry whose delay has run out.\<close>

definition answering :: "req_entry \<Rightarrow> bool" where
  "answering e \<longleftrightarrow> re_delay e = 0 \<and> re_valid e"

definition pm_resp :: "perfect_mem \<Rightarrow> u64" where
  "pm_resp s =
     (if \<not> pm_random_return s
      then push_bit 32 (ucast (pm_mem s (pm_idx (pm_addr s) + 1))) + ucast (pm_mem s (pm_idx (pm_addr s)))
      else (case find answering (pm_req_que s) of None \<Rightarrow> 0 | Some e \<Rightarrow> re_data e))"

definition pm_resp_lsq_index :: "perfect_mem \<Rightarrow> u32" where
  "pm_resp_lsq_index s =
     (if \<not> pm_random_return s then pm_lsq_index s
      else (case find answering (pm_req_que s) of None \<Rightarrow> 0 | Some e \<Rightarrow> re_lsq_index e))"

definition pm_resp32 :: "perfect_mem \<Rightarrow> u32" where
  "pm_resp32 s =
     (if \<not> pm_random_return s then (if pm_delay s = 0 then pm_mem s (pm_idx (pm_addr s)) else 0)
      else (case find answering (pm_req_que s) of None \<Rightarrow> 0 | Some e \<Rightarrow> ucast (re_data e)))"

definition pm_resp_vld :: "perfect_mem \<Rightarrow> bool" where
  "pm_resp_vld s =
     (if \<not> pm_random_return s then pm_resp_valid s else list_ex answering (pm_req_que s))"

definition pm_ack :: "perfect_mem \<Rightarrow> bool" where
  "pm_ack s \<longleftrightarrow> pm_wb_ack s = 2"

section \<open>Evaluation\<close>

text \<open>Without a queue: only a rising clock counts.\<close>

definition pm_tick :: "perfect_mem \<Rightarrow> perfect_mem" where
  "pm_tick s0 =
     (let s1 = (if pm_resp_valid s0 then s0\<lparr>pm_lock := False, pm_resp_valid := False\<rparr> else s0);
          s2 = (if pm_wb_ack s1 \<noteq> 0
                then s1\<lparr>pm_wb_ack := (if pm_wb_ack s1 < 2 then pm_wb_ack s1 + 1 else 0)\<rparr> else s1);
          s3 = (if pm_delay s2 = 0 \<and> pm_lock s2 then s2\<lparr>pm_resp_valid := True\<rparr> else s2)
      in if pm_delay s3 > 0 then s3\<lparr>pm_delay := pm_delay s3 - 1\<rparr> else s3)"

text \<open>With a queue: an answer the unit takes frees its entry, then the others count down.\<close>

fun count_down :: "req_entry list \<Rightarrow> req_entry list res" where
  "count_down [] = Inr []"
| "count_down (e # es) =
     (if \<not> re_valid e then res_map (Cons e) (count_down es)
      else if re_delay e = 0 then Inl (Throw ''no entry should be both delay == 0 and valid when eval'')
      else res_map (Cons (e\<lparr>re_delay := re_delay e - 1\<rparr>)) (count_down es))"

definition pm_eval :: "perfect_mem \<Rightarrow> perfect_mem res" where
  "pm_eval s =
     (if \<not> pm_random_return s then Inr (if pm_clk s then pm_tick s else s)
      else res_map (\<lambda>q. s\<lparr>pm_req_que := q\<rparr>)
             (count_down (update_first (\<lambda>e. pm_lsu_ready s \<and> re_valid e \<and> re_delay e = 0)
                            (\<lambda>e. e\<lparr>re_valid := False\<rparr>) (pm_req_que s))))"

section \<open>The byte view\<close>

lemma pm_idx_div: "pm_idx a = unat a div 4"
  by (simp add: pm_idx_def unat_drop_bit_eq drop_bit_eq_div [where ?'a = nat])

lemma bit_peek8:
  "bit (pm_peek8 s a) k \<longleftrightarrow> k < 8 \<and> bit (pm_mem s (unat a div 4)) (8 * (unat a mod 4) + k)"
  by (auto simp: pm_peek8_def bit_simps pm_idx_div)

lemma offset_less_iff:
  fixes a b :: u16
  assumes "unat a + n \<le> 65536"
  shows "unat (b - a) < n \<longleftrightarrow> unat a \<le> unat b \<and> unat b < unat a + n"
  using assms unat_u16_less [of b] by (auto simp: unat_sub_if')

lemma offset_unat: "unat a \<le> unat b \<Longrightarrow> unat (b - a :: u16) = unat b - unat a"
  by (simp add: unat_sub_if')

text \<open>
  \<open>patched s s' A n d\<close>: bit for bit, the words of \<open>s'\<close> are those of \<open>s\<close> with the bytes at
  \<open>A, \<dots>, A + n - 1\<close> replaced by the low bytes of \<open>d\<close>.
\<close>

definition patched :: "perfect_mem \<Rightarrow> perfect_mem \<Rightarrow> nat \<Rightarrow> nat \<Rightarrow> u64 \<Rightarrow> bool" where
  "patched s s' A n d \<longleftrightarrow>
     (\<forall>j k. k < 32 \<longrightarrow>
        bit (pm_mem s' j) k =
          (if A \<le> 4 * j + k div 8 \<and> 4 * j + k div 8 < A + n then bit d (32 * j + k - 8 * A)
           else bit (pm_mem s j) k))"

lemma peek8_patched:
  assumes "patched s s' (unat a) n d" and "unat a + n \<le> 65536"
  shows "pm_peek8 s' = le_store (pm_peek8 s) a n d"
proof
  fix b
  show "pm_peek8 s' b = le_store (pm_peek8 s) a n d b"
  proof (rule bit_word_eqI)
    fix k :: nat
    assume "k < LENGTH(8)"
    then have k: "k < 8" by simp
    let ?k = "8 * (unat b mod 4) + k"
    have byte: "4 * (unat b div 4) + ?k div 8 = unat b" using k by simp
    have lt: "?k < 32" using k mod_less_divisor [of 4 "unat b"] by linarith
    have pos: "32 * (unat b div 4) + ?k = 8 * unat b + k"
      using mult_div_mod_eq [of 4 "unat b"] by linarith
    have "bit (pm_peek8 s' b) k \<longleftrightarrow>
        (if unat a \<le> unat b \<and> unat b < unat a + n then bit d (8 * unat b + k - 8 * unat a)
         else bit (pm_mem s (unat b div 4)) ?k)"
      using assms(1) lt k by (simp add: patched_def bit_peek8 byte pos)
    also have "\<dots> \<longleftrightarrow> bit (le_store (pm_peek8 s) a n d b) k"
      using k offset_less_iff [OF assms(2), of b] offset_unat [of a b]
      by (auto simp: le_store_def bit_simps bit_peek8 diff_mult_distrib2)
    finally show "bit (pm_peek8 s' b) k \<longleftrightarrow> bit (le_store (pm_peek8 s) a n d b) k" .
  qed
qed

lemma aligned_fits:
  assumes "unat (a::u16) mod n = 0" and "n dvd 65536" and "0 < n"
  shows "unat a + n \<le> 65536"
proof -
  obtain q where q: "65536 = n * q" using assms(2) by (rule dvdE)
  obtain p where p: "unat a = n * p" using assms(1) by (auto elim: dvdE simp: mod_eq_0_iff_dvd)
  have "p < q" using unat_u16_less [of a] p q assms(3) by (metis nat_mult_less_cancel1)
  then have "n * Suc p \<le> n * q" by (metis Suc_leI mult_le_mono2)
  then show ?thesis using p q by simp
qed

lemma byte_of_word:
  fixes A j k :: nat
  assumes "k < 32"
  shows "A \<le> 4 * j + k div 8 \<and> 4 * j + k div 8 < A + 1 \<longleftrightarrow>
         j = A div 4 \<and> A mod 4 * 8 \<le> k \<and> k < A mod 4 * 8 + 8"
    and "A mod 4 = 0 \<Longrightarrow> A \<le> 4 * j + k div 8 \<and> 4 * j + k div 8 < A + 2 \<longleftrightarrow> j = A div 4 \<and> k < 16"
    and "A mod 4 = 2 \<Longrightarrow> A \<le> 4 * j + k div 8 \<and> 4 * j + k div 8 < A + 2 \<longleftrightarrow> j = A div 4 \<and> 16 \<le> k"
    and "A mod 4 = 0 \<Longrightarrow> A \<le> 4 * j + k div 8 \<and> 4 * j + k div 8 < A + 4 \<longleftrightarrow> j = A div 4"
    and "A mod 4 = 0 \<Longrightarrow> A \<le> 4 * j + k div 8 \<and> 4 * j + k div 8 < A + 8 \<longleftrightarrow>
         j = A div 4 \<or> j = A div 4 + 1"
proof -
  obtain p r where A: "A = 4 * p + r" "r < 4" "A div 4 = p" "A mod 4 = r"
    by (rule that [of "A div 4" "A mod 4"]) simp_all
  obtain c t where k: "k = 8 * c + t" "t < 8" "k div 8 = c"
    by (rule that [of "k div 8" "k mod 8"]) simp_all
  have c: "c < 4" using assms k by linarith
  have same: "4 * j + c = 4 * p + r \<longleftrightarrow> j = p \<and> c = r" using c A(2) by (cases j p rule: linorder_cases) auto
  have slot: "r * 8 \<le> k \<and> k < r * 8 + 8 \<longleftrightarrow> c = r" using k(1,2) by (cases c r rule: linorder_cases) auto
  have half: "k < 16 \<longleftrightarrow> c < 2" "16 \<le> k \<longleftrightarrow> 2 \<le> c" using k(1,2) by auto
  have split: "A \<le> 4 * j + c \<and> 4 * j + c < A + 1 \<longleftrightarrow> 4 * j + c = 4 * p + r" using A(1) by auto
  show "A \<le> 4 * j + k div 8 \<and> 4 * j + k div 8 < A + 1 \<longleftrightarrow>
         j = A div 4 \<and> A mod 4 * 8 \<le> k \<and> k < A mod 4 * 8 + 8"
    unfolding k(3) A(3,4) split same slot ..
  show "A \<le> 4 * j + k div 8 \<and> 4 * j + k div 8 < A + 2 \<longleftrightarrow> j = A div 4 \<and> k < 16" if "A mod 4 = 0"
  proof -
    have "A = 4 * p" using that A(1,4) by simp
    then show ?thesis unfolding k(3) A(3) half(1) using c by (cases j p rule: linorder_cases) auto
  qed
  show "A \<le> 4 * j + k div 8 \<and> 4 * j + k div 8 < A + 2 \<longleftrightarrow> j = A div 4 \<and> 16 \<le> k" if "A mod 4 = 2"
  proof -
    have "A = 4 * p + 2" using that A(1,4) by simp
    then show ?thesis unfolding k(3) A(3) half(2) using c by (cases j p rule: linorder_cases) auto
  qed
  show "A \<le> 4 * j + k div 8 \<and> 4 * j + k div 8 < A + 4 \<longleftrightarrow> j = A div 4" if "A mod 4 = 0"
  proof -
    have "A = 4 * p" using that A(1,4) by simp
    then show ?thesis unfolding k(3) A(3) using c by (cases j p rule: linorder_cases) auto
  qed
  show "A \<le> 4 * j + k div 8 \<and> 4 * j + k div 8 < A + 8 \<longleftrightarrow> j = A div 4 \<or> j = A div 4 + 1" if "A mod 4 = 0"
  proof -
    have "A = 4 * p" using that A(1,4) by simp
    then show ?thesis unfolding k(3) A(3) using c by (cases j p rule: linorder_cases) auto
  qed
qed

lemma masks32:
  "(0xffff0000::u32) = NOT (mask 16)" "(0x0000ffff::u32) = mask 16" "(0xffffffff::u32) = mask 32"
  by (simp_all add: mask_eq_exp_minus_1)

lemma add_parts:
  fixes x :: u32
  shows "ucast (v::u16) + (x AND NOT (mask 16)) = (ucast v OR (x AND NOT (mask 16)))"
    and "push_bit 16 (ucast (v::u16)) + (x AND mask 16) = (push_bit 16 (ucast v) OR (x AND mask 16))"
    and "push_bit t (ucast (w::u8)) + (x AND (mask 32 XOR push_bit t (mask 8))) =
         (push_bit t (ucast w) OR (x AND (mask 32 XOR push_bit t (mask 8))))"
  by (rule or_is_add_if_disjoint; auto simp: bit_simps dest: bit_imp_le_length)+

lemma write8_patched: "patched s (pm_write8 a v s) (unat a) 1 (ucast v)"
  unfolding patched_def
proof (intro allI impI)
  fix j k :: nat
  assume k: "k < 32"
  let ?o = "unat a mod 4 * 8"
  have o: "?o \<le> 24" using mod_less_divisor [of 4 "unat a"] by linarith
  have here: "unat a \<le> 4 * j + k div 8 \<and> 4 * j + k div 8 < unat a + 1 \<longleftrightarrow>
        j = unat a div 4 \<and> ?o \<le> k \<and> k < ?o + 8"
    by (rule byte_of_word(1) [OF k])
  have pos: "32 * (unat a div 4) + k - 8 * unat a = k - ?o" if "?o \<le> k"
    using that mult_div_mod_eq [of 4 "unat a"] by linarith
  show "bit (pm_mem (pm_write8 a v s) j) k =
      (if unat a \<le> 4 * j + k div 8 \<and> 4 * j + k div 8 < unat a + 1
       then bit (ucast v :: u64) (32 * j + k - 8 * unat a) else bit (pm_mem s j) k)"
    unfolding here using k o
    by (auto simp: pm_write8_def pm_put_ack_def Let_def byte_mask masks32 add_parts bit_simps pm_idx_div pos
        dest: bit_imp_le_length)
qed

lemma write16_patched:
  assumes "pm_write16 a v s = Inr s'"
  shows "patched s s' (unat a) 2 (ucast v)"
  unfolding patched_def
proof (intro allI impI)
  fix j k :: nat
  assume k: "k < 32"
  have v: "i < 16" if "bit v i" for i using bit_imp_le_length [OF that] by simp
  have al: "unat a mod 2 = 0" using assms by (auto simp: pm_write16_def split: if_splits)
  show "bit (pm_mem s' j) k =
      (if unat a \<le> 4 * j + k div 8 \<and> 4 * j + k div 8 < unat a + 2
       then bit (ucast v :: u64) (32 * j + k - 8 * unat a) else bit (pm_mem s j) k)"
  proof (cases "unat a mod 4 = 0")
    case True
    have here: "unat a \<le> 4 * j + k div 8 \<and> 4 * j + k div 8 < unat a + 2 \<longleftrightarrow> j = unat a div 4 \<and> k < 16"
      by (rule byte_of_word(2) [OF k True])
    have pos: "32 * (unat a div 4) + k - 8 * unat a = k" using True by auto
    show ?thesis unfolding here using k assms True al
      by (auto simp: pm_write16_def pm_put_ack_def Let_def masks32 add_parts bit_simps pm_idx_div pos
          dest: v split: if_splits)
  next
    case False
    then have two: "unat a mod 4 = 2" using al by presburger
    have here: "unat a \<le> 4 * j + k div 8 \<and> 4 * j + k div 8 < unat a + 2 \<longleftrightarrow> j = unat a div 4 \<and> 16 \<le> k"
      by (rule byte_of_word(3) [OF k two])
    have pos: "32 * (unat a div 4) + k - 8 * unat a = k - 16" if "16 \<le> k"
      using that two mult_div_mod_eq [of 4 "unat a"] by linarith
    show ?thesis unfolding here using k assms False al
      by (auto simp: pm_write16_def pm_put_ack_def Let_def masks32 add_parts bit_simps pm_idx_div pos
          dest: v split: if_splits)
  qed
qed

lemma write32_patched:
  assumes "pm_write32 a v s = Inr s'"
  shows "patched s s' (unat a) 4 (ucast v)"
  unfolding patched_def
proof (intro allI impI)
  fix j k :: nat
  assume k: "k < 32"
  have al: "unat a mod 4 = 0" using assms by (auto simp: pm_write32_def split: if_splits)
  have here: "unat a \<le> 4 * j + k div 8 \<and> 4 * j + k div 8 < unat a + 4 \<longleftrightarrow> j = unat a div 4"
    by (rule byte_of_word(4) [OF k al])
  have pos: "32 * (unat a div 4) + k - 8 * unat a = k" using al by auto
  show "bit (pm_mem s' j) k =
      (if unat a \<le> 4 * j + k div 8 \<and> 4 * j + k div 8 < unat a + 4
       then bit (ucast v :: u64) (32 * j + k - 8 * unat a) else bit (pm_mem s j) k)"
    unfolding here using k assms al
    by (auto simp: pm_write32_def pm_put_ack_def bit_simps pm_idx_div pos)
qed

lemma write64_patched:
  assumes "pm_write64 a v s = Inr s'"
  shows "patched s s' (unat a) 8 v"
  unfolding patched_def
proof (intro allI impI)
  fix j k :: nat
  assume k: "k < 32"
  have al: "unat a mod 8 = 0" using assms by (auto simp: pm_write64_def split: if_splits)
  then have al4: "unat a mod 4 = 0" by presburger
  have here: "unat a \<le> 4 * j + k div 8 \<and> 4 * j + k div 8 < unat a + 8 \<longleftrightarrow>
      j = unat a div 4 \<or> j = unat a div 4 + 1"
    by (rule byte_of_word(5) [OF k al4])
  have pos: "32 * (unat a div 4) + k - 8 * unat a = k" using al4 by auto
  have pos': "32 * (unat a div 4 + 1) + k - 8 * unat a = 32 + k" using al4 by auto
  show "bit (pm_mem s' j) k =
      (if unat a \<le> 4 * j + k div 8 \<and> 4 * j + k div 8 < unat a + 8
       then bit v (32 * j + k - 8 * unat a) else bit (pm_mem s j) k)"
    unfolding here using k assms al pos pos'
    by (auto simp: pm_write64_def pm_put_ack_def Let_def bit_simps pm_idx_div)
qed

lemma quot4: "r < 4 \<Longrightarrow> (4 * p + r) div 4 = p \<and> (4 * p + r) mod 4 = (r::nat)"
  by simp

lemma le_store_one: "le_store g a 1 (ucast (v::u8)) = g(a := v)"
proof
  fix b
  have "unat (b - a) = 0 \<longleftrightarrow> b = a" by (simp add: unat_eq_0)
  moreover have "ucast (ucast v :: u64) = v" by (rule bit_word_eqI) (auto simp: bit_simps)
  ultimately show "le_store g a 1 (ucast v) b = (g(a := v)) b"
    by (auto simp: le_store_def)
qed

lemma peek8_write8: "pm_peek8 (pm_write8 a v s) = (pm_peek8 s)(a := v)"
proof -
  have "unat a + 1 \<le> 65536" using unat_u16_less [of a] by simp
  then have "pm_peek8 (pm_write8 a v s) = le_store (pm_peek8 s) a 1 (ucast v)"
    by (rule peek8_patched [OF write8_patched])
  then show ?thesis unfolding le_store_one .
qed

interpretation perfect_bytes: byte_store pm_peek8 "\<lambda>s a v. pm_write8 a v s"
  by unfold_locales (simp add: peek8_write8)

text \<open>Words of the array are the little-endian values of their bytes.\<close>

lemma bit_le_load_peek8:
  assumes "unat a + n \<le> 65536" and "n \<le> 8"
  shows "bit (le_load (pm_peek8 s) a n) k \<longleftrightarrow>
     k < 8 * n \<and> bit (pm_mem s ((unat a + k div 8) div 4)) (8 * ((unat a + k div 8) mod 4) + k mod 8)"
proof (cases "k < 8 * n")
  case True
  then have "k div 8 < n" by auto
  then have "unat a + k div 8 < 65536" using assms(1) by linarith
  then have "unat (a + of_nat (k div 8)) = unat a + k div 8"
    by (simp add: unat_word_ariths unat_u16_of_nat)
  then show ?thesis using True assms(2) by (simp add: bit_le_load bit_peek8)
next
  case False
  then show ?thesis using assms(2) by (simp add: bit_le_load)
qed

lemma word_is_le_load:
  assumes "unat a mod 4 = 0"
  shows "ucast (pm_mem s (pm_idx a)) = le_load (pm_peek8 s) a 4"
proof (rule bit_word_eqI)
  fix k :: nat
  have fits: "unat a + 4 \<le> 65536" by (rule aligned_fits) (use assms in simp_all)
  have "(unat a + k div 8) div 4 = unat a div 4 \<and> (unat a + k div 8) mod 4 = k div 8" if "k < 32"
  proof -
    have "k div 8 < 4" using that by auto
    then show ?thesis using quot4 [of "k div 8" "unat a div 4"] assms by auto
  qed
  then show "bit (ucast (pm_mem s (pm_idx a)) :: u64) k \<longleftrightarrow> bit (le_load (pm_peek8 s) a 4) k"
    by (cases "k < 32")
      (auto simp: bit_le_load_peek8 [OF fits] pm_idx_div bit_simps dest: bit_imp_le_length)
qed

lemma half_is_le_load:
  assumes "pm_peek16 s a = Inr v"
  shows "ucast v = le_load (pm_peek8 s) a 2"
proof (rule bit_word_eqI)
  fix k :: nat
  have al: "unat a mod 2 = 0" using assms by (auto simp: pm_peek16_def split: if_splits)
  have fits: "unat a + 2 \<le> 65536" by (rule aligned_fits) (use al in simp_all)
  have k: "k div 8 < 2" if "k < 16" using that by auto
  have pos: "(unat a + k div 8) div 4 = unat a div 4 \<and> (unat a + k div 8) mod 4 = unat a mod 4 + k div 8"
    if "k < 16"
  proof -
    obtain p r where A: "unat a = 4 * p + r" "r < 4" by (rule that [of "unat a div 4" "unat a mod 4"]) simp_all
    then have "r = 0 \<or> r = 2" using al by presburger
    then have "r + k div 8 < 4" using k [OF that] by auto
    then show ?thesis
      using quot4 [of "r + k div 8" p] quot4 [OF A(2), of p] by (simp add: A(1) add.assoc)
  qed
  have vb: "bit v k \<longleftrightarrow> k < 16 \<and> bit (pm_mem s (unat a div 4)) (8 * (unat a mod 4) + k)"
  proof (cases "unat a mod 4 = 0")
    case False
    then have "unat a mod 4 = 2" using al by presburger
    then show ?thesis using assms al by (auto simp: pm_peek16_def pm_idx_div bit_simps add.commute)
  qed (use assms al in \<open>auto simp: pm_peek16_def pm_idx_div bit_simps\<close>)
  show "bit (ucast v :: u64) k \<longleftrightarrow> bit (le_load (pm_peek8 s) a 2) k"
  proof (cases "k < 16")
    case True
    have "8 * (unat a mod 4 + k div 8) + k mod 8 = 8 * (unat a mod 4) + k" by simp
    then show ?thesis using True pos vb by (simp add: bit_le_load_peek8 [OF fits] bit_simps add.commute)
  qed (simp add: bit_le_load_peek8 [OF fits] bit_simps vb)
qed

lemma double_is_le_load:
  assumes "unat a mod 8 = 0"
  shows "push_bit 32 (ucast (pm_mem s (pm_idx a + 1))) + ucast (pm_mem s (pm_idx a)) =
         le_load (pm_peek8 s) a 8"
proof -
  have fits: "unat a + 8 \<le> 65536" by (rule aligned_fits) (use assms in simp_all)
  have "push_bit 32 (ucast (pm_mem s (pm_idx a + 1))) + ucast (pm_mem s (pm_idx a)) =
      (push_bit 32 (ucast (pm_mem s (pm_idx a + 1))) OR ucast (pm_mem s (pm_idx a)) :: u64)"
    by (rule or_is_add_if_disjoint) (auto simp: bit_simps dest: bit_imp_le_length)
  also have "\<dots> = le_load (pm_peek8 s) a 8"
  proof (rule bit_word_eqI)
    fix k :: nat
    assume "k < LENGTH(64)"
    then have k: "k < 64" by simp
    obtain p where A: "unat a = 8 * p" using assms by (auto simp: mod_eq_0_iff_dvd elim: dvdE)
    obtain c t where kc: "k = 8 * c + t" "t < 8" "k div 8 = c" "k mod 8 = t"
      by (rule that [of "k div 8" "k mod 8"]) simp_all
    have hi: "(8 * p + c) div 4 = 2 * p + 1 \<and> 8 * ((8 * p + c) mod 4) + t = k - 32" if "4 \<le> c" "c < 8"
      using quot4 [of "c - 4" "2 * p + 1"] that kc(1) by simp
    have lo: "(8 * p + c) div 4 = 2 * p \<and> 8 * ((8 * p + c) mod 4) + t = k" if "c < 4"
      using quot4 [OF that, of "2 * p"] kc(1) by simp
    show "bit (push_bit 32 (ucast (pm_mem s (pm_idx a + 1))) OR ucast (pm_mem s (pm_idx a)) :: u64) k \<longleftrightarrow>
        bit (le_load (pm_peek8 s) a 8) k"
      using k kc hi lo
      by (cases "c < 4") (auto simp: bit_le_load_peek8 [OF fits] bit_simps pm_idx_div A dest: bit_imp_le_length)
  qed
  finally show ?thesis .
qed

section \<open>Operations in sequence\<close>

text \<open>What a bench does with a memory, one call at a time.\<close>

datatype pm_op =
    Read64 u16 u32 | Read32 u16 u32 | Read16 u16 u32 | Read8 u16 u32
  | Write64 u16 u64 | Write32 u16 u32 | Write16 u16 u16 | Write8 u16 u8
  | Set_clk bool | Lsu_ready bool | Eval

fun pm_step :: "pm_op \<Rightarrow> perfect_mem \<times> rng \<Rightarrow> (perfect_mem \<times> rng) res" where
  "pm_step (Read64 a i) (s, r) = pm_read64 r a i s"
| "pm_step (Read32 a i) (s, r) = pm_read32 r a i s"
| "pm_step (Read16 a i) (s, r) = pm_read16 r a i s"
| "pm_step (Read8 a i) (s, r) = pm_read8 r a i s"
| "pm_step (Write64 a d) (s, r) = res_map (\<lambda>t. (t, r)) (pm_write64 a d s)"
| "pm_step (Write32 a d) (s, r) = res_map (\<lambda>t. (t, r)) (pm_write32 a d s)"
| "pm_step (Write16 a d) (s, r) = res_map (\<lambda>t. (t, r)) (pm_write16 a d s)"
| "pm_step (Write8 a d) (s, r) = Inr (pm_write8 a d s, r)"
| "pm_step (Set_clk c) (s, r) = Inr (s\<lparr>pm_clk := c\<rparr>, r)"
| "pm_step (Lsu_ready b) (s, r) = Inr (s\<lparr>pm_lsu_ready := b\<rparr>, r)"
| "pm_step Eval (s, r) = res_map (\<lambda>t. (t, r)) (pm_eval s)"

lemmas pm_read_defs = pm_read64_def pm_read32_def pm_read16_def pm_read8_def
lemmas pm_write_defs = pm_write64_def pm_write32_def pm_write16_def pm_write8_def pm_put_ack_def

lemma pm_tick_simps [simp]:
  "pm_mem (pm_tick s) = pm_mem s" "pm_random_return (pm_tick s) = pm_random_return s"
  "pm_req_que (pm_tick s) = pm_req_que s" "pm_addr (pm_tick s) = pm_addr s"
  "pm_lsq_index (pm_tick s) = pm_lsq_index s" "pm_clk (pm_tick s) = pm_clk s"
  by (simp_all add: pm_tick_def Let_def)

lemma pm_eval_same:
  assumes "pm_eval s = Inr s'"
  shows "pm_mem s' = pm_mem s" "pm_random_return s' = pm_random_return s"
  using assms by (auto simp: pm_eval_def split: if_splits)

lemma pm_read_same:
  assumes "pm_read d r a i s = Inr (s', r')"
  shows "pm_mem s' = pm_mem s" "pm_random_return s' = pm_random_return s"
  using assms by (cases "rand r"; auto simp: pm_read_def split: if_splits option.splits)+

lemma pm_reads_same:
  assumes "pm_step op (s, r) = Inr (s', r')" and "op \<in> {Read64 a i, Read32 a i, Read16 a i, Read8 a i}"
  shows "pm_mem s' = pm_mem s" "pm_random_return s' = pm_random_return s"
  using assms by (auto simp: pm_read_defs dest: pm_read_same split: if_splits)

section \<open>The array beyond the addresses\<close>

text \<open>
  The array has twice the words that 16-bit byte addresses reach; no operation leaves its lower
  half.
\<close>

lemma write_index:
  "pm_idx a < 16384" "unat a mod 8 = 0 \<Longrightarrow> pm_idx a + 1 < 16384"
proof -
  show "pm_idx a < 16384" using unat_u16_less [of a] by (simp add: pm_idx_div less_mult_imp_div_less)
  assume "unat a mod 8 = 0"
  then have "unat a + 8 \<le> 65536" by (rule aligned_fits) simp_all
  then show "pm_idx a + 1 < 16384" by (simp add: pm_idx_div)
qed

definition upper_intact :: "perfect_mem \<Rightarrow> bool" where
  "upper_intact s \<longleftrightarrow> (\<forall>i\<ge>16384. i < PERFECT_MEM_MAX_SIZE \<longrightarrow> pm_mem s i = push_bit 2 (of_nat i))"

lemma pm_step_upper:
  assumes "pm_step op (s, r) = Inr (s', r')" and "upper_intact s"
  shows "upper_intact s'"
proof (cases op)
  case (Write64 a d)
  then show ?thesis using assms write_index [of a]
    by (auto simp: upper_intact_def pm_write64_def pm_put_ack_def Let_def split: if_splits)
next
  case (Write32 a d)
  then show ?thesis using assms write_index(1) [of a]
    by (auto simp: upper_intact_def pm_write32_def pm_put_ack_def split: if_splits)
next
  case (Write16 a d)
  then show ?thesis using assms write_index(1) [of a]
    by (auto simp: upper_intact_def pm_write16_def pm_put_ack_def Let_def split: if_splits)
next
  case (Write8 a d)
  then show ?thesis using assms write_index(1) [of a]
    by (auto simp: upper_intact_def pm_write8_def pm_put_ack_def Let_def)
next
  case Eval
  then show ?thesis using assms by (auto simp: upper_intact_def dest!: pm_eval_same(1))
qed (use assms pm_reads_same(1) [OF assms(1)] in \<open>auto simp: upper_intact_def\<close>)

lemma pm_run_upper:
  assumes "run_res pm_step ops (perfect_mem_init random jc jr, r) = Inr ss"
  shows "upper_intact (fst (last ((perfect_mem_init random jc jr, r) # ss)))"
proof (rule run_res_invariant [OF assms])
  show "upper_intact (fst (perfect_mem_init random jc jr, r))"
    by (simp add: upper_intact_def perfect_mem_init_def)
  show "upper_intact (fst t')" if "pm_step i t = Inr t'" "upper_intact (fst t)" for i t t'
    using that pm_step_upper by (cases t; cases t') auto
qed

lemma max_size: "PERFECT_MEM_MAX_SIZE = 32768"
  by (simp add: PERFECT_MEM_MAX_SIZE_def)

lemma words_from_bytes:
  assumes "pm_peek8 s = pm_peek8 t" and "i < 16384"
  shows "pm_mem s i = pm_mem t i"
proof -
  define a :: u16 where "a = of_nat (4 * i)"
  have "4 * i < 65536" using assms(2) by simp
  then have a: "unat a = 4 * i" unfolding a_def by (rule unat_u16_of_nat)
  then have i: "pm_idx a = i" by (simp add: pm_idx_div)
  have "(ucast (pm_mem s i) :: u64) = ucast (pm_mem t i)"
    using word_is_le_load [of a s] word_is_le_load [of a t] assms(1) a i by simp
  then have "unat (ucast (pm_mem s i) :: u64) = unat (ucast (pm_mem t i) :: u64)" by simp
  then show ?thesis unfolding unat_ucast_32_64 by (simp add: word_unat_eq_iff)
qed

lemma final_check_bytes:
  assumes "upper_intact s" and "upper_intact t"
  shows "pm_final_check s t \<longleftrightarrow> pm_peek8 s = pm_peek8 t"
proof
  assume "pm_final_check s t"
  then have eq: "pm_mem s i = pm_mem t i" if "i < 32768" for i
    using that by (auto simp: pm_final_check_def list_all_iff pm_get_def max_size)
  show "pm_peek8 s = pm_peek8 t"
  proof
    fix a :: u16
    have "pm_idx a < 32768" using write_index(1) [of a] by simp
    then show "pm_peek8 s a = pm_peek8 t a" by (simp add: pm_peek8_def eq)
  qed
next
  assume eq: "pm_peek8 s = pm_peek8 t"
  have "pm_mem s i = pm_mem t i" if "i < 32768" for i
  proof (cases "i < 16384")
    case True
    then show ?thesis by (rule words_from_bytes [OF eq])
  next
    case False
    then show ?thesis using assms that by (simp add: upper_intact_def max_size)
  qed
  then show "pm_final_check s t"
    by (simp add: pm_final_check_def list_all_iff pm_get_def max_size)
qed

section \<open>The queue holds one read\<close>

definition mshr_inv :: "perfect_mem \<Rightarrow> bool" where
  "mshr_inv s \<longleftrightarrow> pm_random_return s \<and> (\<exists>e. pm_req_que s = [e, req_entry0])"

lemma no_clash:
  assumes "re_delay e \<noteq> 0"
  shows "handle_delay_conflict 0 [e, req_entry0] = Some [e, req_entry0]"
  using assms
  by (subst handle_delay_conflict.simps) (auto simp: delay_clash_def MSHR_DEPTH_def req_entry0_def upt_rec)

lemma drawn_delay: "(of_nat (1 + n mod DELAY) :: u16) \<noteq> 0" "unat (of_nat (1 + n mod DELAY) :: u16) = 1 + n mod DELAY"
proof -
  have "n mod DELAY < 3" using mod_less_divisor [of DELAY n] by (simp add: DELAY_def)
  then have "1 + n mod DELAY < 65536" by simp
  then show "unat (of_nat (1 + n mod DELAY) :: u16) = 1 + n mod DELAY" by (rule unat_u16_of_nat)
  then show "(of_nat (1 + n mod DELAY) :: u16) \<noteq> 0" by (metis add_is_0 one_neq_zero unsigned_0)
qed

text \<open>A read that finds entry 0 free uses it; one that does not throws.\<close>

lemma pm_read_queue:
  assumes "mshr_inv s" and "pm_req_que s = [e, req_entry0]"
  shows "pm_read (Inr d) r a i s =
    (if re_valid e then Inl (Throw ''read req come in when queue is not ready'')
     else Inr (s\<lparr>pm_req_que := [\<lparr>re_data = d, re_lsq_index = i, re_addr = a, re_valid = True,
                                 re_delay = of_nat (1 + fst (rand r) mod DELAY)\<rparr>, req_entry0]\<rparr>,
               snd (rand r)))"
proof -
  have "pm_random_return s" using assms(1) by (simp add: mshr_inv_def)
  moreover have "handle_delay_conflict 0
        [\<lparr>re_data = d, re_lsq_index = i, re_addr = a, re_valid = True,
          re_delay = of_nat (1 + fst (rand r) mod DELAY)\<rparr>, req_entry0] =
      Some [\<lparr>re_data = d, re_lsq_index = i, re_addr = a, re_valid = True,
          re_delay = of_nat (1 + fst (rand r) mod DELAY)\<rparr>, req_entry0]"
    by (rule no_clash) (use drawn_delay(1) in simp)
  ultimately show ?thesis
    using assms(2) by (simp add: pm_read_def pm_new_entry_def pm_ready_def case_prod_beta Let_def)
qed

lemma pm_read_mshr:
  assumes "mshr_inv s" and "pm_read (Inr d) r a i s = Inr (s', r')"
  shows "mshr_inv s'"
proof -
  obtain e where "pm_req_que s = [e, req_entry0]" using assms(1) by (auto simp: mshr_inv_def)
  with assms show ?thesis by (auto simp: pm_read_queue mshr_inv_def split: if_splits)
qed

lemma pm_eval_mshr:
  assumes "mshr_inv s" and "pm_req_que s = [e, req_entry0]"
  shows "pm_eval s =
    (if re_valid e \<and> re_delay e = 0 \<and> \<not> pm_lsu_ready s
     then Inl (Throw ''no entry should be both delay == 0 and valid when eval'')
     else Inr (s\<lparr>pm_req_que :=
       [if \<not> re_valid e then e else if re_delay e = 0 then e\<lparr>re_valid := False\<rparr>
        else e\<lparr>re_delay := re_delay e - 1\<rparr>, req_entry0]\<rparr>))"
  using assms by (auto simp: mshr_inv_def pm_eval_def req_entry0_def)

lemma pm_step_mshr:
  assumes "pm_step op (s, r) = Inr (s', r')" and "mshr_inv s"
  shows "mshr_inv s'"
proof -
  obtain e where e: "pm_req_que s = [e, req_entry0]" using assms(2) by (auto simp: mshr_inv_def)
  show ?thesis
  proof (cases op)
    case (Read64 a i)
    then show ?thesis using assms
      by (auto simp: pm_read64_def pm_peek64_def split: if_splits dest: pm_read_mshr)
  next
    case (Read32 a i)
    then show ?thesis using assms
      by (auto simp: pm_read32_def pm_peek32_def split: if_splits dest: pm_read_mshr)
  next
    case (Read16 a i)
    then show ?thesis using assms
      by (auto simp: pm_read16_def pm_peek16_def split: if_splits dest: pm_read_mshr)
  next
    case (Read8 a i)
    then show ?thesis using assms by (auto simp: pm_read8_def dest: pm_read_mshr)
  next
    case Eval
    then show ?thesis using assms pm_eval_mshr [OF assms(2) e]
      by (auto simp: mshr_inv_def split: if_splits)
  qed (use assms in \<open>auto simp: mshr_inv_def pm_write_defs Let_def split: if_splits\<close>)
qed

section \<open>Latency of a memory without a queue\<close>

text \<open>\<open>n\<close> clock cycles: an evaluation with the clock low, one with it high.\<close>

fun pm_clocks :: "nat \<Rightarrow> perfect_mem \<Rightarrow> perfect_mem res" where
  "pm_clocks 0 s = Inr s"
| "pm_clocks (Suc n) s =
     res_bind (pm_clocks n s) (\<lambda>s1.
     res_bind (pm_eval (s1\<lparr>pm_clk := False\<rparr>)) (\<lambda>s2. pm_eval (s2\<lparr>pm_clk := True\<rparr>)))"

lemma pm_cycle_tick:
  "\<not> pm_random_return s \<Longrightarrow>
   res_bind (pm_eval (s\<lparr>pm_clk := False\<rparr>)) (\<lambda>s2. pm_eval (s2\<lparr>pm_clk := True\<rparr>)) = Inr (pm_tick (s\<lparr>pm_clk := True\<rparr>))"
  by (simp add: pm_eval_def)

lemma pm_clocks_total:
  "\<not> pm_random_return s \<Longrightarrow>
   \<exists>t. pm_clocks n s = Inr t \<and> \<not> pm_random_return t \<and> pm_mem t = pm_mem s \<and> pm_addr t = pm_addr s \<and>
       pm_lsq_index t = pm_lsq_index s"
  by (induction n) (auto simp: pm_eval_def)

lemma pm_clocks_read:
  assumes "\<not> pm_random_return s" "pm_lock s" "\<not> pm_resp_valid s" "pm_delay s = 3"
  shows "\<exists>t. pm_clocks n s = Inr t \<and> \<not> pm_random_return t \<and> pm_delay t = of_nat (3 - n) \<and>
           (pm_lock t \<longleftrightarrow> n < 5) \<and> (pm_resp_valid t \<longleftrightarrow> n = 4)"
proof (induction n)
  case 0
  then show ?case using assms by simp
next
  case (Suc n)
  then obtain t where t: "pm_clocks n s = Inr t" "\<not> pm_random_return t" "pm_delay t = of_nat (3 - n)"
    "pm_lock t \<longleftrightarrow> n < 5" "pm_resp_valid t \<longleftrightarrow> n = 4" by auto
  have "n = 0 \<or> n = 1 \<or> n = 2 \<or> n = 3 \<or> n = 4 \<or> 5 \<le> n" by linarith
  then have "pm_delay (pm_tick (t\<lparr>pm_clk := True\<rparr>)) = of_nat (3 - Suc n) \<and>
      (pm_lock (pm_tick (t\<lparr>pm_clk := True\<rparr>)) \<longleftrightarrow> Suc n < 5) \<and>
      (pm_resp_valid (pm_tick (t\<lparr>pm_clk := True\<rparr>)) \<longleftrightarrow> Suc n = 4)"
    using t(3-5) by (elim disjE) (simp_all add: pm_tick_def Let_def)
  then show ?case using t(1,2) by (simp add: pm_cycle_tick)
qed

lemma pm_clocks_ack:
  assumes "\<not> pm_random_return s" "pm_wb_ack s = 1"
  shows "\<exists>t. pm_clocks n s = Inr t \<and> \<not> pm_random_return t \<and>
           pm_wb_ack t = (if n = 0 then 1 else if n = 1 then 2 else 0)"
proof (induction n)
  case 0
  then show ?case using assms by simp
next
  case (Suc n)
  then obtain t where t: "pm_clocks n s = Inr t" "\<not> pm_random_return t"
    "pm_wb_ack t = (if n = 0 then 1 else if n = 1 then 2 else 0)" by auto
  have "pm_wb_ack (pm_tick (t\<lparr>pm_clk := True\<rparr>)) = (if Suc n = 0 then 1 else if Suc n = 1 then 2 else 0)"
    using t(3) by (auto simp: pm_tick_def Let_def split: if_splits)
  then show ?case using t(1,2) by (simp add: pm_cycle_tick)
qed

section \<open>The acknowledge counter of a memory with a queue\<close>

lemma pm_read_ack: "pm_read d r a i s = Inr (s', r') \<Longrightarrow> pm_wb_ack s' = pm_wb_ack s"
  by (cases "rand r") (auto simp: pm_read_def split: if_splits option.splits)

lemma pm_step_ack:
  assumes "pm_step op (s, r) = Inr (s', r')" and "pm_random_return s" and "pm_wb_ack s \<in> {0, 1}"
  shows "pm_random_return s' \<and> pm_wb_ack s' \<in> {0, 1}"
proof (cases op)
  case (Read64 a i)
  then show ?thesis using assms
    by (auto simp: pm_read64_def split: if_splits dest: pm_read_ack pm_read_same(2))
next
  case (Read32 a i)
  then show ?thesis using assms
    by (auto simp: pm_read32_def split: if_splits dest: pm_read_ack pm_read_same(2))
next
  case (Read16 a i)
  then show ?thesis using assms
    by (auto simp: pm_read16_def split: if_splits dest: pm_read_ack pm_read_same(2))
next
  case (Read8 a i)
  then show ?thesis using assms by (auto simp: pm_read8_def dest: pm_read_ack pm_read_same(2))
next
  case Eval
  then show ?thesis using assms by (auto simp: pm_eval_def)
qed (use assms in \<open>auto simp: pm_write_defs Let_def split: if_splits\<close>)

section \<open>Properties\<close>

text \<open>
  C16. The memory is a byte memory: on the byte view \<open>peek8\<close>, the writes of 8, 16, 32 and 64 bits
  store the little-endian bytes of their data at consecutive addresses and nothing else, the
  \<open>peek\<close>s of 16, 32 and 64 bits return the little-endian value of the bytes, and a misaligned
  address throws in each of them.
\<close>

theorem perfect_mem_is_bytes:
  "pm_peek8 (pm_write8 a v8 s) = le_store (pm_peek8 s) a 1 (ucast v8) \<and>
   res_map pm_peek8 (pm_write16 a v16 s) =
     (if unat a mod 2 = 0 then Inr (le_store (pm_peek8 s) a 2 (ucast v16)) else Inl (Throw ''addr misaligned'')) \<and>
   res_map pm_peek8 (pm_write32 a v32 s) =
     (if unat a mod 4 = 0 then Inr (le_store (pm_peek8 s) a 4 (ucast v32)) else Inl (Throw ''addr misaligned'')) \<and>
   res_map pm_peek8 (pm_write64 a v64 s) =
     (if unat a mod 8 = 0 then Inr (le_store (pm_peek8 s) a 8 v64) else Inl (Throw ''addr misaligned'')) \<and>
   res_map ucast (pm_peek16 s a) =
     (if unat a mod 2 = 0 then Inr (le_load (pm_peek8 s) a 2) else Inl (Throw ''addr misaligned'')) \<and>
   res_map ucast (pm_peek32 s a) =
     (if unat a mod 4 = 0 then Inr (le_load (pm_peek8 s) a 4) else Inl (Throw ''addr misaligned'')) \<and>
   pm_peek64 s a =
     (if unat a mod 8 = 0 then Inr (le_load (pm_peek8 s) a 8) else Inl (Throw ''addr misaligned''))"
proof (intro conjI)
  have fits: "unat a mod n = 0 \<Longrightarrow> n \<in> {2, 4, 8} \<Longrightarrow> unat a + n \<le> 65536" for n
    by (rule aligned_fits) auto
  show "pm_peek8 (pm_write8 a v8 s) = le_store (pm_peek8 s) a 1 (ucast v8)"
    unfolding le_store_one by (rule peek8_write8)
  show "res_map pm_peek8 (pm_write16 a v16 s) =
     (if unat a mod 2 = 0 then Inr (le_store (pm_peek8 s) a 2 (ucast v16)) else Inl (Throw ''addr misaligned''))"
    using peek8_patched [OF write16_patched, of a v16 s] fits [of 2]
    by (cases "pm_write16 a v16 s") (auto simp: pm_write16_def Let_def split: if_splits)
  show "res_map pm_peek8 (pm_write32 a v32 s) =
     (if unat a mod 4 = 0 then Inr (le_store (pm_peek8 s) a 4 (ucast v32)) else Inl (Throw ''addr misaligned''))"
    using peek8_patched [OF write32_patched, of a v32 s] fits [of 4]
    by (cases "pm_write32 a v32 s") (auto simp: pm_write32_def split: if_splits)
  show "res_map pm_peek8 (pm_write64 a v64 s) =
     (if unat a mod 8 = 0 then Inr (le_store (pm_peek8 s) a 8 v64) else Inl (Throw ''addr misaligned''))"
    using peek8_patched [OF write64_patched, of a v64 s] fits [of 8]
    by (cases "pm_write64 a v64 s") (auto simp: pm_write64_def Let_def split: if_splits)
  show "res_map ucast (pm_peek16 s a) =
     (if unat a mod 2 = 0 then Inr (le_load (pm_peek8 s) a 2) else Inl (Throw ''addr misaligned''))"
    using half_is_le_load [of s a]
    by (cases "pm_peek16 s a") (auto simp: pm_peek16_def split: if_splits)
qed (simp_all add: pm_peek32_def pm_peek64_def word_is_le_load double_is_le_load [simplified])

text \<open>
  A read of a memory without a queue is answered after a fixed time: from the call on the
  memory is not ready, the answer is valid in the fourth clock cycle after it and in no other,
  with the word at the address and the index of the read, and the memory is ready again from
  the fifth cycle on.
\<close>

theorem perfect_mem_read_latency:
  assumes "\<not> pm_random_return s" and "pm_ready s" and "\<not> pm_resp_valid s" and "unat a mod 4 = 0"
  shows "\<exists>s1. pm_read32 r a i s = Inr (s1, r) \<and>
    (\<forall>n. \<exists>t. pm_clocks n s1 = Inr t \<and> (pm_ready t \<longleftrightarrow> 5 \<le> n) \<and> (pm_resp_vld t \<longleftrightarrow> n = 4) \<and>
       (n = 4 \<longrightarrow> Inr (pm_resp32 t) = pm_peek32 s a \<and> pm_resp_lsq_index t = i))"
proof -
  define s1 where "s1 = s\<lparr>pm_addr := a, pm_delay := of_nat DELAY, pm_lsq_index := i, pm_lock := True\<rparr>"
  have s1: "\<not> pm_random_return s1" "pm_lock s1" "\<not> pm_resp_valid s1" "pm_delay s1 = 3"
    using assms(1,3) by (simp_all add: s1_def DELAY_def)
  have "pm_read32 r a i s = Inr (s1, r)"
    using assms(1,4) by (simp add: pm_read32_def pm_read_def s1_def)
  moreover have "\<exists>t. pm_clocks n s1 = Inr t \<and> (pm_ready t \<longleftrightarrow> 5 \<le> n) \<and> (pm_resp_vld t \<longleftrightarrow> n = 4) \<and>
       (n = 4 \<longrightarrow> Inr (pm_resp32 t) = pm_peek32 s a \<and> pm_resp_lsq_index t = i)" for n
  proof -
    obtain t where t: "pm_clocks n s1 = Inr t" "\<not> pm_random_return t" "pm_delay t = of_nat (3 - n)"
      "pm_lock t \<longleftrightarrow> n < 5" "pm_resp_valid t \<longleftrightarrow> n = 4"
      using pm_clocks_read [OF s1, of n] by auto
    have "pm_mem t = pm_mem s1 \<and> pm_addr t = pm_addr s1 \<and> pm_lsq_index t = pm_lsq_index s1"
      using pm_clocks_total [OF s1(1), of n] t(1) by auto
    then show ?thesis using t assms(4)
      by (auto simp: pm_ready_def pm_resp_vld_def pm_resp32_def pm_resp_lsq_index_def pm_peek32_def s1_def)
  qed
  ultimately show ?thesis by blast
qed

theorem perfect_mem_read_latency_witness:
  "\<exists>s1. pm_read32 (\<lambda>_. 0) 0x40 7 (perfect_mem_init False False False) = Inr (s1, \<lambda>_. 0) \<and>
    (\<forall>n. \<exists>t. pm_clocks n s1 = Inr t \<and> (pm_ready t \<longleftrightarrow> 5 \<le> n) \<and> (pm_resp_vld t \<longleftrightarrow> n = 4) \<and>
       (n = 4 \<longrightarrow> Inr (pm_resp32 t) = pm_peek32 (perfect_mem_init False False False) 0x40 \<and>
                  pm_resp_lsq_index t = 7))"
  by (rule perfect_mem_read_latency) (simp_all add: perfect_mem_init_def pm_ready_def)

text \<open>
  The acknowledge of a write: in a memory without a queue that has none pending, it is raised
  in the first clock cycle after an aligned \<open>write32\<close> and in no other. A memory with a queue never
  moves the counter, so no sequence of operations ever raises it there.
\<close>

theorem perfect_mem_write_ack:
  "(\<not> pm_random_return s \<longrightarrow> pm_wb_ack s = 0 \<longrightarrow> unat a mod 4 = 0 \<longrightarrow>
      (\<exists>s1. pm_write32 a d s = Inr s1 \<and> (\<forall>n. \<exists>t. pm_clocks n s1 = Inr t \<and> (pm_ack t \<longleftrightarrow> n = 1)))) \<and>
   (run_res pm_step ops (perfect_mem_init True jc jr, r) = Inr ss \<longrightarrow> \<not> pm_ack (fst (last ((perfect_mem_init True jc jr, r) # ss))))"
proof (intro conjI impI)
  assume s: "\<not> pm_random_return s" "pm_wb_ack s = 0" "unat a mod 4 = 0"
  define s1 where "s1 = pm_put_ack (pm_idx a) d s"
  have s1: "\<not> pm_random_return s1" "pm_wb_ack s1 = 1" using s by (simp_all add: s1_def pm_put_ack_def)
  have "\<exists>t. pm_clocks n s1 = Inr t \<and> (pm_ack t \<longleftrightarrow> n = 1)" for n
    using pm_clocks_ack [OF s1, of n] by (auto simp: pm_ack_def)
  then show "\<exists>s1. pm_write32 a d s = Inr s1 \<and> (\<forall>n. \<exists>t. pm_clocks n s1 = Inr t \<and> (pm_ack t \<longleftrightarrow> n = 1))"
    using s(3) by (auto simp: pm_write32_def s1_def)
next
  let ?P = "\<lambda>t :: perfect_mem \<times> rng. pm_random_return (fst t) \<and> pm_wb_ack (fst t) \<in> {0, 1}"
  assume "run_res pm_step ops (perfect_mem_init True jc jr, r) = Inr ss"
  then have "?P (last ((perfect_mem_init True jc jr, r) # ss))"
  proof (rule run_res_invariant)
    show "?P (perfect_mem_init True jc jr, r)" by (simp add: perfect_mem_init_def)
    show "?P t'" if "pm_step i t = Inr t'" "?P t" for i t t'
      using pm_step_ack [of i "fst t" "snd t" "fst t'" "snd t'"] that by simp
  qed
  then show "\<not> pm_ack (fst (last ((perfect_mem_init True jc jr, r) # ss)))" by (auto simp: pm_ack_def)
qed

theorem perfect_mem_write_ack_witness:
  "(\<exists>s1. pm_write32 8 5 (perfect_mem_init False False False) = Inr s1 \<and>
      (\<forall>n. \<exists>t. pm_clocks n s1 = Inr t \<and> (pm_ack t \<longleftrightarrow> n = 1))) \<and>
   \<not> pm_ack (fst (last [(perfect_mem_init True False False, \<lambda>_. 0),
                    (pm_write8 3 9 (perfect_mem_init True False False), \<lambda>_. 0)]))"
  using perfect_mem_write_ack [of "perfect_mem_init False False False" 8 5 "[Write8 3 9]" False False
      "\<lambda>_. 0" "[(pm_write8 3 9 (perfect_mem_init True False False), \<lambda>_. 0)]"]
  by (simp add: perfect_mem_init_def)

text \<open>
  C31. The queue of \<open>MSHR_DEPTH\<close> entries never holds more than one read: \<open>ready\<close> looks at entry 0
  only, so whatever sequence of operations ran, entry 1 is still as constructed. An evaluation
  fails exactly when the answer of entry 0 is due and the unit does not take it, and the search
  for a free delay always ends.
\<close>

theorem perfect_mem_one_outstanding:
  assumes "run_res pm_step ops (perfect_mem_init True jc jr, r) = Inr ss"
    and "(s, r') = last ((perfect_mem_init True jc jr, r) # ss)"
  shows "\<exists>e. pm_req_que s = [e, req_entry0] \<and> (pm_ready s \<longleftrightarrow> \<not> re_valid e) \<and>
    ((\<exists>f. pm_eval s = Inl f) \<longleftrightarrow> re_valid e \<and> re_delay e = 0 \<and> \<not> pm_lsu_ready s) \<and>
    pm_step (Read8 a i) (s, r') \<noteq> Inl Spins"
proof -
  have "mshr_inv (fst (last ((perfect_mem_init True jc jr, r) # ss)))"
  proof (rule run_res_invariant [OF assms(1)])
    show "mshr_inv (fst (perfect_mem_init True jc jr, r))"
      by (simp add: mshr_inv_def perfect_mem_init_def MSHR_DEPTH_def numeral_2_eq_2)
    show "mshr_inv (fst t')" if "pm_step i t = Inr t'" "mshr_inv (fst t)" for i t t'
      using that pm_step_mshr by (cases t; cases t') auto
  qed
  then have inv: "mshr_inv s" using assms(2) by (metis fst_conv)
  then obtain e where e: "pm_req_que s = [e, req_entry0]" by (auto simp: mshr_inv_def)
  have "pm_step (Read8 a i) (s, r') \<noteq> Inl Spins"
    by (simp add: pm_read8_def pm_read_queue [OF inv e])
  moreover have "pm_ready s \<longleftrightarrow> \<not> re_valid e"
    using inv e by (simp add: pm_ready_def mshr_inv_def)
  moreover have "(\<exists>f. pm_eval s = Inl f) \<longleftrightarrow> re_valid e \<and> re_delay e = 0 \<and> \<not> pm_lsu_ready s"
    by (simp add: pm_eval_mshr [OF inv e])
  ultimately show ?thesis using e by blast
qed

theorem perfect_mem_one_outstanding_witness:
  "\<exists>e. pm_req_que ((perfect_mem_init True False False)\<lparr>pm_lsu_ready := True\<rparr>) = [e, req_entry0] \<and>
    (pm_ready ((perfect_mem_init True False False)\<lparr>pm_lsu_ready := True\<rparr>) \<longleftrightarrow> \<not> re_valid e) \<and>
    ((\<exists>f. pm_eval ((perfect_mem_init True False False)\<lparr>pm_lsu_ready := True\<rparr>) = Inl f) \<longleftrightarrow>
       re_valid e \<and> re_delay e = 0 \<and> \<not> pm_lsu_ready ((perfect_mem_init True False False)\<lparr>pm_lsu_ready := True\<rparr>)) \<and>
    pm_step (Read8 3 1) ((perfect_mem_init True False False)\<lparr>pm_lsu_ready := True\<rparr>, \<lambda>_. 0) \<noteq> Inl Spins"
  by (rule perfect_mem_one_outstanding [of "[Lsu_ready True]" False False "\<lambda>_. 0"
        "[((perfect_mem_init True False False)\<lparr>pm_lsu_ready := True\<rparr>, \<lambda>_. 0)]"]) simp_all

text \<open>
  The search for a free delay ends on any queue of two entries, valid or not, whatever their
  delays: it adds at most one, modulo 2^16, to the delay of its entry, changes nothing else, and
  leaves no clash.
\<close>

theorem handle_delay_conflict_terminates:
  assumes "length q = MSHR_DEPTH" and "index < MSHR_DEPTH"
  shows "\<exists>d \<in> {re_delay (q ! index), re_delay (q ! index) + 1}.
    handle_delay_conflict index q = Some (q[index := (q ! index)\<lparr>re_delay := d\<rparr>]) \<and>
    \<not> delay_clash index (q[index := (q ! index)\<lparr>re_delay := d\<rparr>])"
proof (cases "delay_clash index q")
  case False
  then show ?thesis by (subst handle_delay_conflict.simps) simp
next
  case True
  let ?q = "q[index := (q ! index)\<lparr>re_delay := re_delay (q ! index) + 1\<rparr>]"
  have "\<not> delay_clash index ?q"
    using True assms less_2_cases [of index]
    by (auto simp: delay_clash_def MSHR_DEPTH_def upt_rec numeral_2_eq_2)
  then have "handle_delay_conflict index ?q = Some ?q"
    by (subst handle_delay_conflict.simps) simp
  then have "handle_delay_conflict index q = Some ?q"
    using True by (subst handle_delay_conflict.simps) simp
  then show ?thesis using \<open>\<not> delay_clash index ?q\<close> by blast
qed

theorem handle_delay_conflict_terminates_witness:
  "\<exists>d \<in> {re_delay ([req_entry0, req_entry0] ! 1), re_delay ([req_entry0, req_entry0] ! 1) + 1}.
    handle_delay_conflict 1 [req_entry0, req_entry0] =
      Some ([req_entry0, req_entry0][1 := ([req_entry0, req_entry0] ! 1)\<lparr>re_delay := d\<rparr>]) \<and>
    \<not> delay_clash 1 ([req_entry0, req_entry0][1 := ([req_entry0, req_entry0] ! 1)\<lparr>re_delay := d\<rparr>])"
  by (rule handle_delay_conflict_terminates) (simp_all add: MSHR_DEPTH_def)

text \<open>
  \<open>final_check\<close> decides byte equality: although it compares twice as many words as 16-bit
  addresses reach, for two memories reached by any sequences of operations it holds exactly when
  every byte at every address agrees.
\<close>

theorem perfect_mem_final_check:
  assumes "run_res pm_step ops (perfect_mem_init b jc jr, r) = Inr ss"
    and "run_res pm_step ops' (perfect_mem_init b' jc' jr', r') = Inr ss'"
    and "(s, g) = last ((perfect_mem_init b jc jr, r) # ss)"
    and "(t, g') = last ((perfect_mem_init b' jc' jr', r') # ss')"
  shows "pm_final_check s t \<longleftrightarrow> pm_peek8 s = pm_peek8 t"
proof (rule final_check_bytes)
  show "upper_intact s" using pm_run_upper [OF assms(1)] assms(3) by (metis fst_conv)
  show "upper_intact t" using pm_run_upper [OF assms(2)] assms(4) by (metis fst_conv)
qed

theorem perfect_mem_final_check_witness:
  "pm_final_check (pm_write8 1 0 (perfect_mem_init False False False)) (perfect_mem_init True False False) \<longleftrightarrow>
   pm_peek8 (pm_write8 1 0 (perfect_mem_init False False False)) = pm_peek8 (perfect_mem_init True False False)"
  by (rule perfect_mem_final_check [of "[Write8 1 0]" False False False "\<lambda>_. 0"
        "[(pm_write8 1 0 (perfect_mem_init False False False), \<lambda>_. 0)]" "[]" True False False "\<lambda>_. 0" "[]"])
    simp_all

end
