(* ===== verification/Replay.thy ===== *)
theory Replay
  imports Perfect_Mem
begin

unbundle bit_operations_syntax

text \<open>
  What the self-check benches of the load/store units share (\<open>sim/selfcheck/lsu_dcache.cpp\<close>,
  \<open>sim/selfcheck/nblsu.cpp\<close>): the requests, the replay of a finished request on the reference
  memory with the comparison of loaded data, and the two queues a request passes through. The
  sequential specification of a list of finished requests is stated on bytes, and a locale
  derives from one bench step what a whole run of a bench shows.
\<close>

section \<open>Requests\<close>

text \<open>\<open>struct request\<close> of \<open>sim/perfect_mem.hpp\<close>; \<open>opcode\<close> is set for a store, \<open>sign\<close> for an unsigned load.\<close>

record request =
  rq_data :: u64
  rq_address :: u32
  rq_size :: u8
  rq_sign :: bool
  rq_opcode :: bool

section \<open>Replay of a finished request\<close>

definition replay_store :: "request \<Rightarrow> perfect_mem \<Rightarrow> perfect_mem res" where
  "replay_store q m =
     (if rq_size q = 0 then Inr (pm_write8 (ucast (rq_address q)) (ucast (rq_data q)) m)
      else if rq_size q = 1 then pm_write16 (ucast (rq_address q AND 0xfffe)) (ucast (rq_data q)) m
      else if rq_size q = 2 then pm_write32 (ucast (rq_address q AND 0xfffc)) (ucast (rq_data q)) m
      else pm_write64 (ucast (rq_address q AND 0xfff8)) (rq_data q) m)"

text \<open>
  The comparison of \<open>nblsu.cpp\<close>, and of \<open>lsu_dcache.cpp\<close> for unsigned loads: only the loaded bytes
  count. The condition of each branch is evaluated for its own size only.
\<close>

definition check_low :: "request \<Rightarrow> u64 \<Rightarrow> perfect_mem \<Rightarrow> unit res" where
  "check_low q d m =
     (let a = ucast (rq_address q) in
      if rq_size q = 0 then
        if ucast d \<noteq> pm_peek8 m a then Inl (Throw ''\<newline>load byte (8) wrong'') else Inr ()
      else if rq_size q = 1 then
        res_bind (pm_peek16 m a) (\<lambda>v. if ucast d \<noteq> v then Inl (Throw ''\<newline>load half word (16) wrong'') else Inr ())
      else if rq_size q = 2 then
        res_bind (pm_peek32 m a) (\<lambda>v. if ucast d \<noteq> v then Inl (Throw ''\<newline>load word (32) wrong'') else Inr ())
      else if rq_size q = 3 then
        res_bind (pm_peek64 m a) (\<lambda>v. if d \<noteq> v then Inl (Throw ''\<newline>load double word (64) wrong'') else Inr ())
      else Inr ())"

text \<open>The comparison of \<open>lsu_dcache.cpp\<close> for signed loads: all 64 bits, sign extension included.\<close>

definition check_signed :: "request \<Rightarrow> u64 \<Rightarrow> perfect_mem \<Rightarrow> unit res" where
  "check_signed q d m =
     (let a = ucast (rq_address q) in
      if rq_size q = 0 then
        (let v = pm_peek8 m a in
         if d \<noteq> (if v AND 0x80 \<noteq> 0 then 0xffffffffffffff00 + ucast v else ucast v)
         then Inl (Throw ''\<newline>load signed byte (8) wrong'') else Inr ())
      else if rq_size q = 1 then
        res_bind (pm_peek16 m a) (\<lambda>v.
          if d \<noteq> (if v AND 0x8000 \<noteq> 0 then 0xffffffffffff0000 + ucast v else ucast v)
          then Inl (Throw ''\<newline>load signed half word (16) wrong'') else Inr ())
      else if rq_size q = 2 then
        res_bind (pm_peek32 m a) (\<lambda>v.
          if d \<noteq> (if v AND 0x80000000 \<noteq> 0 then 0xffffffff00000000 + ucast v else ucast v)
          then Inl (Throw ''\<newline>load signed word (32) wrong'') else Inr ())
      else if rq_size q = 3 then
        res_bind (pm_peek64 m a) (\<lambda>v. if d \<noteq> v then Inl (Throw ''\<newline>load double word (64) wrong'') else Inr ())
      else Inr ())"

definition check_dcache :: "request \<Rightarrow> u64 \<Rightarrow> perfect_mem \<Rightarrow> unit res" where
  "check_dcache q d m = (if \<not> rq_sign q then check_signed q d m else check_low q d m)"

text \<open>
  What happens to the front of the waiting queue when the unit reports that it is done: a store
  is replayed, the data of a load compared.
\<close>

definition retire ::
    "string \<Rightarrow> (request \<Rightarrow> u64 \<Rightarrow> perfect_mem \<Rightarrow> unit res) \<Rightarrow> bool \<Rightarrow> u64 \<Rightarrow> request \<Rightarrow> perfect_mem \<Rightarrow>
     perfect_mem res" where
  "retire unit_name check vld d q m =
     (if rq_opcode q then replay_store q m
      else if \<not> vld then Inl (Throw (unit_name @ ''->load_data_valid_o should be zero''))
      else res_map (\<lambda>_. m) (check q d m))"

section \<open>The sequential specification\<close>

definition rq_bytes :: "request \<Rightarrow> nat" where
  "rq_bytes q = (if rq_size q < 3 then 2 ^ unat (rq_size q) else 8)"

text \<open>A store goes to the address rounded down to a multiple of its size.\<close>

definition store_addr :: "request \<Rightarrow> u16" where
  "store_addr q = ucast (rq_address q) AND NOT (of_nat (rq_bytes q - 1))"

definition low_ok :: "request \<Rightarrow> u64 \<Rightarrow> (u16 \<Rightarrow> u8) \<Rightarrow> bool" where
  "low_ok q d g \<longleftrightarrow>
     (rq_size q \<le> 3 \<longrightarrow> unat (ucast (rq_address q) :: u16) mod rq_bytes q = 0 \<and>
        take_bit (8 * rq_bytes q) d = le_load g (ucast (rq_address q)) (rq_bytes q))"

definition signed_ok :: "request \<Rightarrow> u64 \<Rightarrow> (u16 \<Rightarrow> u8) \<Rightarrow> bool" where
  "signed_ok q d g \<longleftrightarrow>
     (rq_size q \<le> 3 \<longrightarrow> unat (ucast (rq_address q) :: u16) mod rq_bytes q = 0 \<and>
        d = load_value (rq_bytes q) True g (ucast (rq_address q)))"

definition dcache_ok :: "request \<Rightarrow> u64 \<Rightarrow> (u16 \<Rightarrow> u8) \<Rightarrow> bool" where
  "dcache_ok q d g = (if rq_sign q then low_ok q d g else signed_ok q d g)"

text \<open>
  A list of finished requests, each with the data the unit returned for it, is accepted if every
  load returned what the stores before it left in memory; the result is the memory at the end.
\<close>

fun sequential ::
    "(request \<Rightarrow> u64 \<Rightarrow> (u16 \<Rightarrow> u8) \<Rightarrow> bool) \<Rightarrow> (request \<times> u64) list \<Rightarrow> (u16 \<Rightarrow> u8) \<Rightarrow> (u16 \<Rightarrow> u8) option" where
  "sequential ok [] g = Some g"
| "sequential ok ((q, d) # qs) g =
     (if rq_opcode q then sequential ok qs (le_store g (store_addr q) (rq_bytes q) (rq_data q))
      else if ok q d g then sequential ok qs g else None)"

lemma sequential_append:
  "sequential ok (qs @ rs) g = Option.bind (sequential ok qs g) (sequential ok rs)"
  by (induction ok qs g rule: sequential.induct) auto

section \<open>The replay implements the specification\<close>

lemma le_store_low:
  assumes "\<And>i. i < 8 * n \<Longrightarrow> bit d i = bit d' i"
  shows "le_store g a n d = le_store g a n d'"
proof
  fix b
  show "le_store g a n d b = le_store g a n d' b"
  proof (cases "unat (b - a) < n")
    case True
    have "bit (ucast (drop_bit (8 * unat (b - a)) d) :: u8) k = bit (ucast (drop_bit (8 * unat (b - a)) d') :: u8) k" for k
    proof (cases "k < 8")
      case k: True
      have "8 * unat (b - a) + k < 8 * n" using True k by linarith
      then show ?thesis using assms by (simp add: bit_simps)
    qed (simp add: bit_simps)
    then show ?thesis using True by (simp add: le_store_def bit_eq_iff)
  qed (simp add: le_store_def)
qed

lemma size_cases:
  "rq_size q = 0 \<or> rq_size q = 1 \<or> rq_size q = 2 \<or> rq_size q = 3 \<or> \<not> rq_size q \<le> 3"
proof -
  have "rq_size q \<le> 3 \<longleftrightarrow> unat (rq_size q) \<le> 3" by (simp add: word_le_nat_alt)
  moreover have "rq_size q = n \<longleftrightarrow> unat (rq_size q) = unat n" for n by (simp add: word_unat_eq_iff)
  moreover have "unat (0::u8) = 0" "unat (1::u8) = 1" "unat (2::u8) = 2" "unat (3::u8) = 3" by simp_all
  ultimately show ?thesis by presburger
qed

lemma size_ne: "rq_size q > 3 \<Longrightarrow> rq_size q \<noteq> 0 \<and> rq_size q \<noteq> 1 \<and> rq_size q \<noteq> 2 \<and> rq_size q \<noteq> 3 \<and> \<not> rq_size q < 3"
  by auto

lemma rq_bytes_simps:
  "rq_size q = 0 \<Longrightarrow> rq_bytes q = 1" "rq_size q = 1 \<Longrightarrow> rq_bytes q = 2"
  "rq_size q = 2 \<Longrightarrow> rq_bytes q = 4" "\<not> rq_size q < 3 \<Longrightarrow> rq_bytes q = 8"
  by (simp_all add: rq_bytes_def)

lemma round_down:
  fixes x :: u32
  shows "ucast (x AND 0xfffe) = (ucast x AND NOT (of_nat (2 - 1)) :: u16)"
    and "ucast (x AND 0xfffc) = (ucast x AND NOT (of_nat (4 - 1)) :: u16)"
    and "ucast (x AND 0xfff8) = (ucast x AND NOT (of_nat (8 - 1)) :: u16)"
proof -
  have m: "(0xfffe::u32) = mask 16 AND NOT (mask 1)" "(0xfffc::u32) = mask 16 AND NOT (mask 2)"
    "(0xfff8::u32) = mask 16 AND NOT (mask 3)" by (simp_all add: mask_eq_exp_minus_1)
  have n: "(of_nat (2 - 1) :: u16) = mask 1" "(of_nat (4 - 1) :: u16) = mask 2" "(of_nat (8 - 1) :: u16) = mask 3"
    by (simp_all add: mask_eq_exp_minus_1)
  show "ucast (x AND 0xfffe) = (ucast x AND NOT (of_nat (2 - 1)) :: u16)"
    unfolding m n by (rule bit_word_eqI) (auto simp: bit_simps)
  show "ucast (x AND 0xfffc) = (ucast x AND NOT (of_nat (4 - 1)) :: u16)"
    unfolding m n by (rule bit_word_eqI) (auto simp: bit_simps)
  show "ucast (x AND 0xfff8) = (ucast x AND NOT (of_nat (8 - 1)) :: u16)"
    unfolding m n by (rule bit_word_eqI) (auto simp: bit_simps)
qed

lemma mask_clear_aligned: "unat ((x::u16) AND NOT (mask k)) mod 2 ^ k = 0"
proof -
  have "take_bit k (x AND NOT (mask k)) = 0" by (rule bit_word_eqI) (auto simp: bit_simps)
  then have "take_bit k (unat (x AND NOT (mask k))) = 0" by (simp flip: unsigned_take_bit_eq)
  then show ?thesis by (simp add: take_bit_eq_mod)
qed

lemma round_down_aligned:
  "unat ((x::u16) AND NOT (of_nat (2 - 1))) mod 2 = 0" "unat ((x::u16) AND NOT (of_nat (4 - 1))) mod 4 = 0"
  "unat ((x::u16) AND NOT (of_nat (8 - 1))) mod 8 = 0"
  using mask_clear_aligned [of x 1] mask_clear_aligned [of x 2] mask_clear_aligned [of x 3]
  by (simp_all add: mask_eq_exp_minus_1)

lemma write16_defined: "unat a mod 2 = 0 \<Longrightarrow> \<exists>m'. pm_write16 a v m = Inr m'"
  by (simp add: pm_write16_def Let_def)

lemma replay_store_bytes:
  obtains m' where "replay_store q m = Inr m'"
    and "pm_peek8 m' = le_store (pm_peek8 m) (store_addr q) (rq_bytes q) (rq_data q)"
proof -
  let ?a = "ucast (rq_address q) :: u16"
  have fits: "unat a mod n = 0 \<Longrightarrow> n \<in> {2, 4, 8} \<Longrightarrow> unat a + n \<le> 65536" for a :: u16 and n
    by (rule aligned_fits) auto
  have byte: "pm_peek8 (pm_write8 ?a (ucast (rq_data q)) m) = le_store (pm_peek8 m) ?a 1 (rq_data q)"
    unfolding peek8_write8 le_store_one [symmetric] by (rule le_store_low) (simp add: bit_simps)
  consider "rq_size q = 0" | "rq_size q = 1" | "rq_size q = 2" | "\<not> rq_size q < 3"
    using size_cases [of q] by fastforce
  then show ?thesis
  proof cases
    case 1
    then show ?thesis using that byte by (simp add: replay_store_def store_addr_def rq_bytes_simps)
  next
    case 2
    let ?b = "?a AND NOT (of_nat (2 - 1))"
    obtain m' where m': "pm_write16 ?b (ucast (rq_data q)) m = Inr m'"
      using write16_defined [OF round_down_aligned(1)] by blast
    have "pm_peek8 m' = le_store (pm_peek8 m) ?b 2 (ucast (ucast (rq_data q) :: u16))"
      by (rule peek8_patched [OF write16_patched [OF m'] fits]) (use round_down_aligned(1) in simp_all)
    also have "\<dots> = le_store (pm_peek8 m) ?b 2 (rq_data q)" by (rule le_store_low) (simp add: bit_simps)
    finally show ?thesis
      using that m' 2 by (simp add: replay_store_def store_addr_def rq_bytes_simps round_down)
  next
    case 3
    let ?b = "?a AND NOT (of_nat (4 - 1))"
    obtain m' where m': "pm_write32 ?b (ucast (rq_data q)) m = Inr m'"
      using round_down_aligned(2) [of ?a] by (simp add: pm_write32_def)
    have "pm_peek8 m' = le_store (pm_peek8 m) ?b 4 (ucast (ucast (rq_data q) :: u32))"
      by (rule peek8_patched [OF write32_patched [OF m'] fits]) (use round_down_aligned(2) in simp_all)
    also have "\<dots> = le_store (pm_peek8 m) ?b 4 (rq_data q)" by (rule le_store_low) (simp add: bit_simps)
    finally show ?thesis
      using that m' 3 by (simp add: replay_store_def store_addr_def rq_bytes_simps round_down)
  next
    case 4
    let ?b = "?a AND NOT (of_nat (8 - 1))"
    obtain m' where m': "pm_write64 ?b (rq_data q) m = Inr m'"
      using round_down_aligned(3) [of ?a] by (simp add: pm_write64_def Let_def)
    have "pm_peek8 m' = le_store (pm_peek8 m) ?b 8 (rq_data q)"
      by (rule peek8_patched [OF write64_patched [OF m'] fits]) (use round_down_aligned(3) in simp_all)
    moreover have "rq_size q \<noteq> 0 \<and> rq_size q \<noteq> 1 \<and> rq_size q \<noteq> 2" using 4 by auto
    ultimately show ?thesis
      using that m' 4 by (simp add: replay_store_def store_addr_def rq_bytes_simps round_down)
  qed
qed

lemma low_bits_iff:
  fixes d :: u64
  shows "ucast d = (v8::u8) \<longleftrightarrow> take_bit 8 d = ucast v8"
    and "ucast d = (v16::u16) \<longleftrightarrow> take_bit 16 d = ucast v16"
    and "ucast d = (v32::u32) \<longleftrightarrow> take_bit 32 d = ucast v32"
proof -
  have up: "ucast (ucast d :: u8) = take_bit 8 d" "ucast (ucast d :: u16) = take_bit 16 d"
    "ucast (ucast d :: u32) = take_bit 32 d"
    by (rule bit_word_eqI; auto simp: bit_simps)+
  have down: "ucast (ucast v8 :: u64) = v8" "ucast (ucast v16 :: u64) = v16" "ucast (ucast v32 :: u64) = v32"
    by (rule bit_word_eqI; auto simp: bit_simps)+
  have trunc: "ucast (take_bit 8 d) = (ucast d :: u8)" "ucast (take_bit 16 d) = (ucast d :: u16)"
    "ucast (take_bit 32 d) = (ucast d :: u32)"
    by (rule bit_word_eqI; auto simp: bit_simps)+
  show "ucast d = v8 \<longleftrightarrow> take_bit 8 d = ucast v8" using up(1) down(1) trunc(1) by metis
  show "ucast d = v16 \<longleftrightarrow> take_bit 16 d = ucast v16" using up(2) down(2) trunc(2) by metis
  show "ucast d = v32 \<longleftrightarrow> take_bit 32 d = ucast v32" using up(3) down(3) trunc(3) by metis
qed

lemma sign_bit_iff:
  "(v8::u8) AND 0x80 \<noteq> 0 \<longleftrightarrow> (ucast v8 :: u64) AND 0x80 \<noteq> 0"
  "(v16::u16) AND 0x8000 \<noteq> 0 \<longleftrightarrow> (ucast v16 :: u64) AND 0x8000 \<noteq> 0"
  "(v32::u32) AND 0x80000000 \<noteq> 0 \<longleftrightarrow> bit (ucast v32 :: u64) 31"
proof -
  have m: "(0x80::u8) = 2 ^ 7" "(0x8000::u16) = 2 ^ 15" "(0x80000000::u32) = 2 ^ 31"
    "(0x80::u64) = 2 ^ 7" "(0x8000::u64) = 2 ^ 15" by simp_all
  show "v8 AND 0x80 \<noteq> 0 \<longleftrightarrow> (ucast v8 :: u64) AND 0x80 \<noteq> 0"
    unfolding m and_exp_eq_0_iff_not_bit by (simp add: bit_simps)
  show "v16 AND 0x8000 \<noteq> 0 \<longleftrightarrow> (ucast v16 :: u64) AND 0x8000 \<noteq> 0"
    unfolding m and_exp_eq_0_iff_not_bit by (simp add: bit_simps)
  show "v32 AND 0x80000000 \<noteq> 0 \<longleftrightarrow> bit (ucast v32 :: u64) 31"
    unfolding m and_exp_eq_0_iff_not_bit by (simp add: bit_simps)
qed

lemma extend_is_or:
  "(0xffffffffffffff00::u64) + ucast (v8::u8) = ucast v8 OR 0xffffffffffffff00"
  "(0xffffffffffff0000::u64) + ucast (v16::u16) = ucast v16 OR 0xffffffffffff0000"
  "(0xffffffff00000000::u64) + ucast (v32::u32) = ucast v32 OR 0xffffffff00000000"
  unfolding sext_masks
  by (subst or_is_add_if_disjoint; auto simp: bit_simps or.commute dest: bit_imp_le_length)+

lemma peek_cases:
  "pm_peek16 m a = (if unat a mod 2 = 0 then Inr (ucast (le_load (pm_peek8 m) a 2)) else Inl (Throw ''addr misaligned''))"
  "pm_peek32 m a = (if unat a mod 4 = 0 then Inr (ucast (le_load (pm_peek8 m) a 4)) else Inl (Throw ''addr misaligned''))"
  "pm_peek64 m a = (if unat a mod 8 = 0 then Inr (le_load (pm_peek8 m) a 8) else Inl (Throw ''addr misaligned''))"
proof -
  have down: "ucast (ucast (v16::u16) :: u64) = v16" "ucast (ucast (v32::u32) :: u64) = v32" for v16 v32
    by (auto simp: bit_eq_iff bit_simps)
  show "pm_peek16 m a = (if unat a mod 2 = 0 then Inr (ucast (le_load (pm_peek8 m) a 2)) else Inl (Throw ''addr misaligned''))"
    using half_is_le_load [of m a, symmetric] down(1) by (auto simp: pm_peek16_def)
  show "pm_peek32 m a = (if unat a mod 4 = 0 then Inr (ucast (le_load (pm_peek8 m) a 4)) else Inl (Throw ''addr misaligned''))"
    using word_is_le_load [of a m, symmetric] down(2) by (simp add: pm_peek32_def)
  show "pm_peek64 m a = (if unat a mod 8 = 0 then Inr (le_load (pm_peek8 m) a 8) else Inl (Throw ''addr misaligned''))"
    using double_is_le_load [of a m] by (simp add: pm_peek64_def)
qed

lemma le_load_ucast:
  "ucast (ucast (le_load g a 2) :: u16) = le_load g a 2" "ucast (ucast (le_load g a 4) :: u32) = le_load g a 4"
  by (rule bit_word_eqI; auto simp: bit_simps bit_le_load)+

lemma le_load_one: "le_load g a 1 = ucast (g a)"
  by (simp add: le_load_def)

lemma check_low_iff: "check_low q d m = Inr () \<longleftrightarrow> low_ok q d (pm_peek8 m)"
proof -
  have full: "take_bit 64 d = d" by (rule bit_word_eqI) (auto simp: bit_simps)
  let ?a = "ucast (rq_address q) :: u16"
  consider "rq_size q = 0" | "rq_size q = 1" | "rq_size q = 2" | "rq_size q = 3" | "\<not> rq_size q \<le> 3"
    using size_cases [of q] by blast
  then show ?thesis
  proof cases
    case 1
    then show ?thesis using low_bits_iff(1) [of d "pm_peek8 m ?a"]
      by (simp add: check_low_def low_ok_def rq_bytes_simps le_load_one [simplified] Let_def)
  next
    case 2
    then show ?thesis using low_bits_iff(2) [of d "ucast (le_load (pm_peek8 m) ?a 2)"]
      by (simp add: check_low_def low_ok_def rq_bytes_simps peek_cases le_load_ucast Let_def)
  next
    case 3
    then show ?thesis using low_bits_iff(3) [of d "ucast (le_load (pm_peek8 m) ?a 4)"]
      by (simp add: check_low_def low_ok_def rq_bytes_simps peek_cases le_load_ucast Let_def)
  next
    case 4
    then show ?thesis
      by (simp add: check_low_def low_ok_def rq_bytes_simps peek_cases full Let_def)
  next
    case 5
    then have "rq_size q \<noteq> 0 \<and> rq_size q \<noteq> 1 \<and> rq_size q \<noteq> 2 \<and> rq_size q \<noteq> 3" by auto
    with 5 show ?thesis by (simp add: check_low_def low_ok_def)
  qed
qed

lemma check_signed_iff: "check_signed q d m = Inr () \<longleftrightarrow> signed_ok q d (pm_peek8 m)"
proof -
  let ?a = "ucast (rq_address q) :: u16"
  consider "rq_size q = 0" | "rq_size q = 1" | "rq_size q = 2" | "rq_size q = 3" | "\<not> rq_size q \<le> 3"
    using size_cases [of q] by blast
  then show ?thesis
  proof cases
    case 1
    then show ?thesis 
      unfolding check_signed_def signed_ok_def Let_def sign_bit_iff extend_is_or
      by (auto simp: rq_bytes_simps sext8 [symmetric, simplified] le_load_one [simplified])
  next
    case 2
    then show ?thesis 
      unfolding check_signed_def signed_ok_def Let_def sign_bit_iff extend_is_or
      by (auto simp: rq_bytes_simps peek_cases le_load_ucast sext16 [symmetric])
  next
    case 3
    then show ?thesis 
      unfolding check_signed_def signed_ok_def Let_def sign_bit_iff extend_is_or
      by (auto simp: rq_bytes_simps peek_cases le_load_ucast sext32 [symmetric])
  next
    case 4
    then show ?thesis
      by (simp add: check_signed_def signed_ok_def rq_bytes_simps peek_cases sext64 Let_def)
  next
    case 5
    then have "rq_size q \<noteq> 0 \<and> rq_size q \<noteq> 1 \<and> rq_size q \<noteq> 2 \<and> rq_size q \<noteq> 3" by auto
    with 5 show ?thesis by (simp add: check_signed_def signed_ok_def)
  qed
qed

lemma check_dcache_iff: "check_dcache q d m = Inr () \<longleftrightarrow> dcache_ok q d (pm_peek8 m)"
  by (simp add: check_dcache_def dcache_ok_def check_low_iff check_signed_iff)

section \<open>The queues of a bench\<close>

record replay_core =
  rp_req_que :: "request list"
  rp_wait_que :: "request list"
  rp_correct :: perfect_mem
  rp_test_cnt :: u32

text \<open>
  The unit reports that its oldest request is done. Without a waiting request, \<open>front()\<close> reads and
  \<open>pop()\<close> removes from an empty queue.
\<close>

definition rp_done ::
    "string \<Rightarrow> (request \<Rightarrow> u64 \<Rightarrow> perfect_mem \<Rightarrow> unit res) \<Rightarrow> bool \<Rightarrow> u64 \<Rightarrow> replay_core \<Rightarrow> replay_core res" where
  "rp_done unit_name check vld d s =
     (case rp_wait_que s of
        [] \<Rightarrow> Inl (Undefined ''wait_que is empty'')
      | q # qs \<Rightarrow>
          res_map (\<lambda>m. s\<lparr>rp_correct := m, rp_test_cnt := rp_test_cnt s + 1, rp_wait_que := qs\<rparr>)
            (retire unit_name check vld d q (rp_correct s)))"

text \<open>The unit is ready: the front of the request queue moves to the waiting queue.\<close>

definition rp_accept :: "replay_core \<Rightarrow> replay_core" where
  "rp_accept s =
     (case rp_req_que s of
        [] \<Rightarrow> s
      | q # qs \<Rightarrow> s\<lparr>rp_wait_que := rp_wait_que s @ [q], rp_req_que := qs\<rparr>)"

definition rp_idle :: "replay_core \<Rightarrow> bool" where
  "rp_idle s \<longleftrightarrow> rp_req_que s = [] \<and> rp_wait_que s = []"

text \<open>
  How the \<open>main\<close> of a bench ends: with its last message, in a failed assertion, or in a handler that
  prints what was thrown and exits.
\<close>

datatype self_outcome = Self_done | Self_failed | Self_caught string

text \<open>The front of a queue; on an empty one \<open>front()\<close> reads a stale request.\<close>

definition front_or :: "request \<Rightarrow> request list \<Rightarrow> request" where
  "front_or stale q = (case q of [] \<Rightarrow> stale | x # xs \<Rightarrow> x)"

text \<open>
  What the bench observes of a cycle in which the unit reports \<open>done\<close> with \<open>d\<close> on its data port: the
  oldest waiting request is finished with this data.
\<close>

definition rp_finishes :: "bool \<Rightarrow> u64 \<Rightarrow> replay_core \<Rightarrow> (request \<times> u64) list" where
  "rp_finishes dn d s = (if dn \<and> rp_wait_que s \<noteq> [] then [(hd (rp_wait_que s), d)] else [])"

lemma rp_finishes_False [simp]: "rp_finishes False d s = []"
  by (simp add: rp_finishes_def)

text \<open>
  From \<open>s\<close> to \<open>s'\<close> the requests \<open>os\<close> were finished, each with the data the unit returned: they left the queues
  in order, and they are a sequential execution from the bytes of one reference memory to the other.
\<close>

definition replays ::
    "(request \<Rightarrow> u64 \<Rightarrow> (u16 \<Rightarrow> u8) \<Rightarrow> bool) \<Rightarrow> replay_core \<Rightarrow> (request \<times> u64) list \<Rightarrow> replay_core \<Rightarrow> bool" where
  "replays ok s os s' \<longleftrightarrow>
     map fst os @ rp_wait_que s' @ rp_req_que s' = rp_wait_que s @ rp_req_que s \<and>
     sequential ok os (pm_peek8 (rp_correct s)) = Some (pm_peek8 (rp_correct s'))"

lemma replays_refl [intro, simp]: "replays ok s [] s"
  by (simp add: replays_def)

lemma replays_trans: "replays ok s os s1 \<Longrightarrow> replays ok s1 os' s2 \<Longrightarrow> replays ok s (os @ os') s2"
  by (auto simp: replays_def sequential_append)

lemma replays_accept [simp]: "replays ok s os (rp_accept s1) = replays ok s os s1"
  by (auto simp: replays_def rp_accept_def split: list.splits)

lemma replays_mem: "pm_peek8 m = pm_peek8 (rp_correct s1) \<Longrightarrow> replays ok s os (s1\<lparr>rp_correct := m\<rparr>) = replays ok s os s1"
  by (simp add: replays_def)

text \<open>
  What a unit that reports a finished request can be blamed for: it was given none, or it finished a
  load without valid data or with data the earlier stores did not write.
\<close>

definition replay_blame :: "(request \<Rightarrow> u64 \<Rightarrow> (u16 \<Rightarrow> u8) \<Rightarrow> bool) \<Rightarrow> bool \<Rightarrow> u64 \<Rightarrow> replay_core \<Rightarrow> bool" where
  "replay_blame ok vld d s \<longleftrightarrow>
     (case rp_wait_que s of
        [] \<Rightarrow> True
      | q # qs \<Rightarrow> \<not> rq_opcode q \<and> (\<not> vld \<or> \<not> ok q d (pm_peek8 (rp_correct s))))"

text \<open>
  The contract between a bench's comparison of loaded data and its specification, and what one
  finished request adds to a run under it.
\<close>

locale replay_bench =
  fixes unit_name :: string
    and check :: "request \<Rightarrow> u64 \<Rightarrow> perfect_mem \<Rightarrow> unit res"
    and ok :: "request \<Rightarrow> u64 \<Rightarrow> (u16 \<Rightarrow> u8) \<Rightarrow> bool"
  assumes check_ok: "check q d m = Inr () \<longleftrightarrow> ok q d (pm_peek8 m)"
begin

lemma retire_sequential:
  assumes "retire unit_name check vld d q m = Inr m'"
  shows "sequential ok [(q, d)] (pm_peek8 m) = Some (pm_peek8 m')"
proof (cases "rq_opcode q")
  case True
  obtain m1 where "replay_store q m = Inr m1"
    and "pm_peek8 m1 = le_store (pm_peek8 m) (store_addr q) (rq_bytes q) (rq_data q)"
    by (rule replay_store_bytes)
  then show ?thesis using assms True by (simp add: retire_def)
next
  case False
  then have "m' = m" and "check q d m = Inr ()" using assms by (auto simp: retire_def split: if_splits)
  then show ?thesis using False by (simp add: check_ok)
qed

lemma done_replays:
  assumes "rp_done unit_name check vld d s = Inr s'"
  shows "replays ok s (rp_finishes True d s) s'"
proof -
  obtain q qs m where q: "rp_wait_que s = q # qs" "retire unit_name check vld d q (rp_correct s) = Inr m"
    "s' = s\<lparr>rp_correct := m, rp_test_cnt := rp_test_cnt s + 1, rp_wait_que := qs\<rparr>"
    using assms by (auto simp: rp_done_def split: list.splits)
  then show ?thesis using retire_sequential [OF q(2)] by (simp add: replays_def rp_finishes_def)
qed

text \<open>A fault of a finished request is to blame on the unit.\<close>

lemma rp_done_blame:
  assumes "rp_done unit_name check vld d s = Inl e"
  shows "replay_blame ok vld d s"
proof -
  have "\<not> rq_opcode q \<and> (\<not> vld \<or> \<not> ok q d (pm_peek8 m))" if "retire unit_name check vld d q m = Inl e" for q m
    using that check_ok [of q d m] by (rule_tac replay_store_bytes [of q m]) (auto simp: retire_def split: if_splits)
  then show ?thesis using assms by (auto simp: rp_done_def replay_blame_def split: list.splits)
qed

end

interpretation dcache_replay: replay_bench "''lsu_dcache''" check_dcache dcache_ok
  by unfold_locales (rule check_dcache_iff)

interpretation nblsu_replay: replay_bench "''nblsu''" check_low low_ok
  by unfold_locales (rule check_low_iff)

lemma pm_eval_peek8: "pm_eval m = Inr m' \<Longrightarrow> pm_peek8 m' = pm_peek8 m"
  by (rule ext) (simp add: pm_peek8_def pm_eval_same)

lemma replay_store_upper:
  assumes "replay_store q m = Inr m'" and "upper_intact m"
  shows "upper_intact m'"
proof -
  have "\<exists>op. pm_step op (m, r) = Inr (m', r)" for r
    using assms(1) unfolding replay_store_def
    by (auto split: if_splits intro: exI [of _ "Write8 _ _"] exI [of _ "Write16 _ _"] exI [of _ "Write32 _ _"]
        exI [of _ "Write64 _ _"])
  then show ?thesis using pm_step_upper [OF _ assms(2)] by blast
qed

lemma upper_intact_same: "pm_mem m' = pm_mem m \<Longrightarrow> upper_intact m' = upper_intact m"
  by (simp add: upper_intact_def)

lemma rp_done_upper:
  assumes "rp_done nm check vld d c = Inr c'" and "upper_intact (rp_correct c)"
  shows "upper_intact (rp_correct c')"
  using assms replay_store_upper
  by (auto simp: rp_done_def retire_def split: list.splits if_splits)

lemma rp_accept_correct [simp]: "rp_correct (rp_accept c) = rp_correct c"
  by (simp add: rp_accept_def split: list.splits)

text \<open>No operation changes the mode of a memory.\<close>

lemma pm_ops_mode:
  "pm_write32 a v m = Inr m' \<Longrightarrow> pm_random_return m' = pm_random_return m"
  "pm_read32 r a i m = Inr (m', r') \<Longrightarrow> pm_random_return m' = pm_random_return m"
  "pm_eval m = Inr m' \<Longrightarrow> pm_random_return m' = pm_random_return m"
  "replay_store q m = Inr m' \<Longrightarrow> pm_random_return m' = pm_random_return m"
  by (auto simp: pm_write_defs pm_read32_def pm_read_def pm_eval_def replay_store_def pm_tick_def Let_def case_prod_beta
      split: if_splits option.splits)

lemma rp_done_mode:
  "rp_done nm check vld d c = Inr c' \<Longrightarrow> pm_random_return (rp_correct c') = pm_random_return (rp_correct c)"
  by (auto simp: rp_done_def retire_def split: list.splits if_splits dest: pm_ops_mode(4))

end
