(* ===== verification/Dcache_Bench.thy ===== *)
theory Dcache_Bench
  imports Replay Bench_Loop
begin

unbundle bit_operations_syntax

text \<open>
  The self-check bench of the load/store unit with its data cache,
  \<open>sim/selfcheck/lsu_dcache.cpp\<close>: random requests are fed to the unit, every finished one is
  replayed on a reference memory, and after a flush of the cache by loads the memory behind the
  cache is compared with the reference. The unit under test is Verilated code: a state, an
  evaluation function and an output function are arguments of the model.
\<close>

section \<open>Ports of the unit\<close>

record dcache_in =
  dci_clk :: bool
  dci_rstn :: bool
  dci_stall :: bool
  dci_flush :: bool
  dci_valid_i :: bool
  dci_rob_index_i :: u8
  dci_rd_addr_i :: u8
  dci_rs1_data_i :: u64
  dci_rs2_data_i :: u64
  dci_imm_i :: u64
  dci_opcode_i :: bool
  dci_size_i :: u8
  dci_load_sign_i :: bool
  dci_wb_ack_i :: bool
  dci_wb_dat_i :: u32

record dcache_out =
  dco_load_data_valid_o :: bool
  dco_load_data_o :: u64
  dco_lsu_ready_o :: bool
  dco_ls_done_o :: bool
  dco_wb_cyc_o :: bool
  dco_wb_stb_o :: bool
  dco_wb_we_o :: bool
  dco_wb_adr_o :: u64
  dco_wb_dat_o :: u32

text \<open>\<open>i0\<close> are the ports of the freshly constructed unit; \<open>reset\<close> leaves the bus inputs alone.\<close>

definition dc_reset :: "dcache_in \<Rightarrow> dcache_in" where
  "dc_reset i0 =
     i0\<lparr>dci_clk := False, dci_rstn := True, dci_stall := False, dci_flush := False,
        dci_valid_i := False, dci_rob_index_i := 1, dci_rd_addr_i := 1, dci_rs1_data_i := 0,
        dci_rs2_data_i := 0, dci_imm_i := 0, dci_opcode_i := False, dci_size_i := 0,
        dci_load_sign_i := False\<rparr>"

section \<open>Requests\<close>

definition DC_MAX_TIME :: nat where "DC_MAX_TIME = 5548000000"
definition DC_RANDOM_TEST_NUM :: nat where "DC_RANDOM_TEST_NUM = 1000000"
definition DC_RST_TIME :: nat where "DC_RST_TIME = 600"

text \<open>
  The order in which the four \<open>rand()\<close> of the constructor call are evaluated is unspecified; as
  the sequence of their values is arbitrary, one order stands for all.
\<close>

definition dc_draw :: "rng \<Rightarrow> request \<times> rng" where
  "dc_draw r0 =
     (let (v0, r1) = rand r0; size = v0 mod 4;
          (v1, r2) = rand r1; opcode = odd v1;
          (unsign, r3) = (if size = 3 \<or> opcode then (False, r2) else let (v2, r) = rand r2 in (odd v2, r));
          (hi, r4) = rand r3; (lo, r5) = rand r4; (line, r6) = rand r5; (off, r7) = rand r6
      in (\<lparr>rq_data = push_bit 32 (of_nat hi) + of_nat lo,
           rq_address = ucast (ucast (push_bit (3 + 8) (of_nat line :: u32)) :: u16) +
             (push_bit size (of_nat off) AND 7),
           rq_size = of_nat size, rq_sign = unsign, rq_opcode = opcode\<rparr>, r7))"

fun dc_requests :: "nat \<Rightarrow> rng \<Rightarrow> request list \<times> rng" where
  "dc_requests 0 r = ([], r)"
| "dc_requests (Suc n) r =
     (let (q, r1) = dc_draw r; (qs, r2) = dc_requests n r1 in (q # qs, r2))"

text \<open>The loads that push every line out of the cache.\<close>

definition dc_flush_reqs :: "request list" where
  "dc_flush_reqs =
     map (\<lambda>i. \<lparr>rq_data = 0, rq_address = push_bit 16 1 + ucast (push_bit 2 (of_nat i) :: u16),
               rq_size = 2, rq_sign = True, rq_opcode = False\<rparr>) [0..<PERFECT_MEM_MAX_SIZE]"

section \<open>State\<close>

record 'd dcache_bench =
  dcb_time :: nat
  dcb_in :: dcache_in
  dcb_dut :: 'd
  dcb_core :: replay_core
  dcb_flush_que :: "request list"
  dcb_mem :: perfect_mem
  dcb_rng :: rng

text \<open>
  \<open>n\<close> is the number of requests, \<open>fl\<close> the requests of the flush (\<open>DC_RANDOM_TEST_NUM\<close> and
  \<open>dc_flush_reqs\<close> in the program), \<open>j\<close> stands for the uninitialised flags of the two memories.
\<close>

definition dc_bench_init :: "nat \<Rightarrow> request list \<Rightarrow> dcache_in \<Rightarrow> 'd \<Rightarrow> bool \<times> bool \<Rightarrow> rng \<Rightarrow> 'd dcache_bench" where
  "dc_bench_init n fl i0 d j r =
     (let (qs, r1) = dc_requests n r in
      \<lparr>dcb_time = 0, dcb_in = dc_reset i0, dcb_dut = d,
       dcb_core = \<lparr>rp_req_que = qs, rp_wait_que = [],
                   rp_correct = perfect_mem_init False (fst j) (snd j), rp_test_cnt = 0\<rparr>,
       dcb_flush_que = fl, dcb_mem = perfect_mem_init False (fst j) (snd j), dcb_rng = r1\<rparr>)"

section \<open>One unit of time\<close>

definition dc_clock :: "'d dcache_bench \<Rightarrow> 'd dcache_bench" where
  "dc_clock s =
     (let i1 = (dcb_in s)\<lparr>dci_clk := odd (dcb_time s)\<rparr> in
      s\<lparr>dcb_in := (if dcb_time s = DC_RST_TIME then i1\<lparr>dci_rstn := False\<rparr> else i1),
        dcb_mem := (dcb_mem s)\<lparr>pm_clk := odd (dcb_time s)\<rparr>\<rparr>)"

definition dc_offer :: "bool \<Rightarrow> request \<Rightarrow> dcache_in \<Rightarrow> dcache_in" where
  "dc_offer vld q i =
     i\<lparr>dci_valid_i := vld, dci_rs1_data_i := ucast (rq_address q), dci_opcode_i := rq_opcode q,
       dci_rs2_data_i := rq_data q, dci_size_i := rq_size q, dci_load_sign_i := rq_sign q\<rparr>"

definition dc_drive :: "request \<Rightarrow> 'd dcache_bench \<Rightarrow> 'd dcache_bench" where
  "dc_drive stale s =
     (if \<not> rp_idle (dcb_core s) then
        s\<lparr>dcb_in := dc_offer (rp_req_que (dcb_core s) \<noteq> []) (front_or stale (rp_req_que (dcb_core s))) (dcb_in s)\<rparr>
      else
        s\<lparr>dcb_in := dc_offer (dcb_flush_que s \<noteq> []) (front_or stale (dcb_flush_que s)) (dcb_in s)\<rparr>)"

definition dc_drive_wb :: "'d dcache_bench \<Rightarrow> 'd dcache_bench" where
  "dc_drive_wb s =
     s\<lparr>dcb_in := (dcb_in s)\<lparr>dci_wb_ack_i := pm_resp_vld (dcb_mem s) \<or> pm_ack (dcb_mem s),
                             dci_wb_dat_i := pm_resp32 (dcb_mem s)\<rparr>\<rparr>"

definition dc_done :: "dcache_out \<Rightarrow> 'd dcache_bench \<Rightarrow> 'd dcache_bench res" where
  "dc_done p s =
     (if dco_ls_done_o p \<and> \<not> rp_idle (dcb_core s) then
        res_map (\<lambda>c. s\<lparr>dcb_core := c\<rparr>)
          (rp_done ''lsu_dcache'' check_dcache (dco_load_data_valid_o p) (dco_load_data_o p) (dcb_core s))
      else Inr s)"

definition dc_bus :: "dcache_out \<Rightarrow> 'd dcache_bench \<Rightarrow> 'd dcache_bench res" where
  "dc_bus p s =
     (if dco_wb_stb_o p \<and> dco_wb_cyc_o p \<and> pm_ready (dcb_mem s) then
        if dco_wb_we_o p then
          res_map (\<lambda>m. s\<lparr>dcb_mem := m\<rparr>) (pm_write32 (ucast (dco_wb_adr_o p)) (dco_wb_dat_o p) (dcb_mem s))
        else
          res_map (\<lambda>(m, r). s\<lparr>dcb_mem := m, dcb_rng := r\<rparr>)
            (pm_read32 (dcb_rng s) (ucast (dco_wb_adr_o p)) 0 (dcb_mem s))
      else Inr s)"

definition dc_evals :: "(dcache_in \<Rightarrow> 'd \<Rightarrow> 'd) \<Rightarrow> 'd dcache_bench \<Rightarrow> 'd dcache_bench res" where
  "dc_evals dut s =
     res_bind (pm_eval (dcb_mem s)) (\<lambda>m.
     res_map (\<lambda>c. s\<lparr>dcb_dut := dut (dcb_in s) (dcb_dut s), dcb_mem := m,
                     dcb_core := (dcb_core s)\<lparr>rp_correct := c\<rparr>\<rparr>)
       (pm_eval (rp_correct (dcb_core s))))"

definition dc_req_in :: "dcache_out \<Rightarrow> 'd dcache_bench \<Rightarrow> 'd dcache_bench" where
  "dc_req_in p s0 =
     (let s = (if dco_lsu_ready_o p then s0\<lparr>dcb_core := rp_accept (dcb_core s0)\<rparr> else s0) in
      if rp_idle (dcb_core s) \<and> dcb_flush_que s \<noteq> [] \<and> dco_lsu_ready_o p
      then s\<lparr>dcb_flush_que := tl (dcb_flush_que s)\<rparr> else s)"

definition dc_step ::
    "(dcache_in \<Rightarrow> 'd \<Rightarrow> 'd) \<Rightarrow> ('d \<Rightarrow> dcache_out) \<Rightarrow> (nat \<Rightarrow> request) \<Rightarrow> 'd dcache_bench \<Rightarrow> 'd dcache_bench res" where
  "dc_step dut ports stale s0 =
     (let s = dc_clock s0; running = DC_RST_TIME + 100 \<le> dcb_time s; p = ports (dcb_dut s) in
      res_bind
        (if running then
           (let s1 = dc_drive (stale (dcb_time s)) s in
            if odd (dcb_time s) then res_bind (dc_done p (dc_drive_wb s1)) (dc_bus p) else Inr s1)
         else Inr s)
        (\<lambda>s2. res_map (\<lambda>s3.
           (let s4 = (if odd (dcb_time s3) \<and> running then dc_req_in (ports (dcb_dut s3)) s3 else s3)
            in s4\<lparr>dcb_time := dcb_time s4 + 1\<rparr>))
           (dc_evals dut s2)))"

definition dc_unfinished :: "'d dcache_bench \<Rightarrow> bool" where
  "dc_unfinished s \<longleftrightarrow> \<not> rp_idle (dcb_core s) \<or> dcb_flush_que s \<noteq> []"

lemma dc_parts_time:
  "dcb_time (dc_clock s) = dcb_time s" "dcb_time (dc_drive q s) = dcb_time s"
  "dcb_time (dc_drive_wb s) = dcb_time s" "dcb_time (dc_req_in p s) = dcb_time s"
  "dc_done p s = Inr s' \<Longrightarrow> dcb_time s' = dcb_time s" "dc_bus p s = Inr s' \<Longrightarrow> dcb_time s' = dcb_time s"
  "dc_evals dut s = Inr s' \<Longrightarrow> dcb_time s' = dcb_time s"
  by (auto simp: dc_clock_def dc_drive_def dc_drive_wb_def dc_req_in_def dc_done_def dc_bus_def
      dc_evals_def Let_def split: if_splits)

lemma dc_step_time: "dc_step dut ports stale s = Inr s' \<Longrightarrow> dcb_time s' = Suc (dcb_time s)"
  by (auto simp: dc_step_def Let_def dc_parts_time split: if_splits)

function dc_loop ::
    "(dcache_in \<Rightarrow> 'd \<Rightarrow> 'd) \<Rightarrow> ('d \<Rightarrow> dcache_out) \<Rightarrow> (nat \<Rightarrow> request) \<Rightarrow> 'd dcache_bench \<Rightarrow> 'd dcache_bench res" where
  "dc_loop dut ports stale s =
     (if dcb_time s < DC_MAX_TIME \<and> dc_unfinished s then
        (case dc_step dut ports stale s of Inl e \<Rightarrow> Inl e | Inr s' \<Rightarrow> dc_loop dut ports stale s')
      else Inr s)"
  by pat_completeness auto
termination
  by (relation "measure (\<lambda>(_, _, _, s). DC_MAX_TIME - dcb_time s)") (auto dest: dc_step_time)

declare dc_loop.simps [simp del]

text \<open>
  The end of \<open>main\<close>: the handler of an exception deletes the unit and the memories, and control
  goes on to code that uses them.
\<close>

definition dc_main ::
    "(dcache_in \<Rightarrow> 'd \<Rightarrow> 'd) \<Rightarrow> ('d \<Rightarrow> dcache_out) \<Rightarrow> (nat \<Rightarrow> request) \<Rightarrow> 'd dcache_bench \<Rightarrow> self_outcome res" where
  "dc_main dut ports stale s0 =
     (case dc_loop dut ports stale s0 of
        Inl (Throw msg) \<Rightarrow> Inl (Undefined ''use of a deleted object'')
      | Inl e \<Rightarrow> Inl e
      | Inr s \<Rightarrow>
          (let mem_same = pm_final_check (dcb_mem s) (rp_correct (dcb_core s)) in
           Inr (if dcb_time s \<noteq> DC_MAX_TIME \<and> mem_same then Self_done else Self_failed)))"

section \<open>What the bench observes\<close>

text \<open>
  The requests finished in one unit of time and along the loop, each with the data that is on the
  port \<open>load_data_o\<close> of the unit when it reports the request done.
\<close>

definition dc_commits :: "('d \<Rightarrow> dcache_out) \<Rightarrow> 'd dcache_bench \<Rightarrow> (request \<times> u64) list" where
  "dc_commits ports s =
     (let p = ports (dcb_dut s) in
      if DC_RST_TIME + 100 \<le> dcb_time s \<and> odd (dcb_time s) then
        rp_finishes (dco_ls_done_o p \<and> \<not> rp_idle (dcb_core s)) (dco_load_data_o p) (dcb_core s)
      else [])"

function dc_trace ::
    "(dcache_in \<Rightarrow> 'd \<Rightarrow> 'd) \<Rightarrow> ('d \<Rightarrow> dcache_out) \<Rightarrow> (nat \<Rightarrow> request) \<Rightarrow> 'd dcache_bench \<Rightarrow> (request \<times> u64) list" where
  "dc_trace dut ports stale s =
     (if dcb_time s < DC_MAX_TIME \<and> dc_unfinished s then
        dc_commits ports s @ (case dc_step dut ports stale s of Inl e \<Rightarrow> [] | Inr s' \<Rightarrow> dc_trace dut ports stale s')
      else [])"
  by pat_completeness auto
termination
  by (relation "measure (\<lambda>(_, _, _, s). DC_MAX_TIME - dcb_time s)") (auto dest: dc_step_time)

declare dc_trace.simps [simp del]

interpretation dc_run: traced_loop "dc_step dut ports stale" "dc_loop dut ports stale"
  "\<lambda>s. dcb_time s < DC_MAX_TIME \<and> dc_unfinished s" dcb_time DC_MAX_TIME "dc_commits ports" "dc_trace dut ports stale"
  for dut ports stale
  by unfold_locales (auto simp: dc_step_time dc_loop.simps [of dut ports stale] dc_trace.simps [of dut ports stale])

section \<open>Every step replays what it observes\<close>

definition dc_upper :: "'d dcache_bench \<Rightarrow> bool" where
  "dc_upper s \<longleftrightarrow> upper_intact (dcb_mem s) \<and> upper_intact (rp_correct (dcb_core s))"

text \<open>The drives of a unit of time change the inputs of the unit and the clock of the memory only.\<close>

lemma dc_drives_same:
  "dcb_core (dc_clock s) = dcb_core s" "dcb_core (dc_drive q s) = dcb_core s" "dcb_core (dc_drive_wb s) = dcb_core s"
  "dcb_dut (dc_clock s) = dcb_dut s" "dcb_dut (dc_drive q s) = dcb_dut s" "dcb_dut (dc_drive_wb s) = dcb_dut s"
  "pm_ready (dcb_mem (dc_clock s)) = pm_ready (dcb_mem s)" "pm_ready (dcb_mem (dc_drive q s)) = pm_ready (dcb_mem s)"
  "pm_ready (dcb_mem (dc_drive_wb s)) = pm_ready (dcb_mem s)"
  "dc_upper (dc_clock s) = dc_upper s" "dc_upper (dc_drive q s) = dc_upper s" "dc_upper (dc_drive_wb s) = dc_upper s"
  "dc_upper (s\<lparr>dcb_time := t\<rparr>) = dc_upper s"
  by (simp_all add: dc_clock_def dc_drive_def dc_drive_wb_def pm_ready_def dc_upper_def upper_intact_def Let_def)

lemma dc_done_replays:
  assumes "dc_done p s = Inr s'"
  shows "replays dcache_ok (dcb_core s) (rp_finishes (dco_ls_done_o p \<and> \<not> rp_idle (dcb_core s)) (dco_load_data_o p) (dcb_core s))
      (dcb_core s') \<and> (dc_upper s \<longrightarrow> dc_upper s')"
  using assms dcache_replay.done_replays rp_done_upper
  by (auto simp: dc_done_def dc_upper_def split: if_splits)

lemma dc_bus_upper:
  assumes "dc_upper s" and "dc_bus p s = Inr s'"
  shows "dc_upper s'"
proof -
  have step: "upper_intact m'" if "pm_step op (m, r) = Inr (m', r')" "upper_intact m" for op m r m' r'
    using pm_step_upper that by blast
  show ?thesis
    using assms step [of "Write32 _ _"] step [of "Read32 _ _"]
    by (fastforce simp: dc_upper_def dc_bus_def split: if_splits)
qed

lemma dc_bus_core: "dc_bus p s = Inr s' \<Longrightarrow> dcb_core s' = dcb_core s"
  by (auto simp: dc_bus_def split: if_splits)

lemma dc_evals_replays:
  assumes "dc_evals dut s = Inr s'"
  shows "replays ok c os (dcb_core s') = replays ok c os (dcb_core s)" and "dc_upper s \<Longrightarrow> dc_upper s'"
  using assms
  by (auto simp: dc_evals_def dc_upper_def upper_intact_same [OF pm_eval_same(1)] pm_eval_peek8 replays_mem)

lemma dc_req_in_replays:
  "replays ok c os (dcb_core (dc_req_in p s)) = replays ok c os (dcb_core s)" "dc_upper (dc_req_in p s) = dc_upper s"
  by (simp_all add: dc_upper_def dc_req_in_def Let_def)

lemma dc_step_replays:
  assumes "dc_upper s" and "dc_step dut ports stale s = Inr s'"
  shows "dc_upper s' \<and> replays dcache_ok (dcb_core s) (dc_commits ports s) (dcb_core s')"
proof -
  let ?s = "dc_clock s"
  let ?run = "DC_RST_TIME + 100 \<le> dcb_time ?s" and ?p = "ports (dcb_dut ?s)"
  let ?d = "dc_drive (stale (dcb_time ?s)) ?s"
  obtain s2 s3 where
    s2: "(if ?run then if odd (dcb_time ?s) then res_bind (dc_done ?p (dc_drive_wb ?d)) (dc_bus ?p) else Inr ?d
          else Inr ?s) = Inr s2"
    and s3: "dc_evals dut s2 = Inr s3"
    and s': "s' = (let s4 = (if odd (dcb_time s3) \<and> ?run then dc_req_in (ports (dcb_dut s3)) s3 else s3)
                  in s4\<lparr>dcb_time := dcb_time s4 + 1\<rparr>)"
    using assms(2) unfolding dc_step_def Let_def res_bind_Inr_iff res_map_Inr_iff by metis
  have "dc_upper s2 \<and> replays dcache_ok (dcb_core s) (dc_commits ports s) (dcb_core s2)"
  proof (cases "?run \<and> odd (dcb_time ?s)")
    case True
    then obtain s1 where s1: "dc_done ?p (dc_drive_wb ?d) = Inr s1" "dc_bus ?p s1 = Inr s2" using s2 by auto
    then show ?thesis
      using dc_done_replays [OF s1(1)] dc_bus_upper [OF _ s1(2)] dc_bus_core [OF s1(2)] True assms(1)
      by (simp add: dc_commits_def dc_drives_same dc_parts_time Let_def)
  next
    case False
    then have "s2 = ?s \<or> s2 = ?d" using s2 by (auto split: if_splits)
    then show ?thesis using False assms(1) by (auto simp: dc_commits_def dc_drives_same dc_parts_time Let_def)
  qed
  then show ?thesis
    using dc_evals_replays [OF s3] unfolding s' Let_def by (simp add: dc_drives_same dc_req_in_replays)
qed

lemma dc_loop_replays:
  assumes "dc_loop dut ports stale s = Inr s'" and "dc_upper s"
  shows "dc_upper s' \<and> \<not> (dcb_time s' < DC_MAX_TIME \<and> dc_unfinished s') \<and>
    replays dcache_ok (dcb_core s) (dc_trace dut ports stale s) (dcb_core s')"
  by (rule dc_run.loop_observed [where I = dc_upper and R = "\<lambda>s os s'. replays dcache_ok (dcb_core s) os (dcb_core s')", OF assms])
    (auto dest: dc_step_replays intro: replays_trans)

lemma dc_upper_init: "dc_upper (dc_bench_init n fl i0 d j r)"
  using pm_run_upper [of "[]" False "fst j" "snd j" r]
  by (simp add: dc_upper_def dc_bench_init_def case_prod_beta Let_def)

section \<open>Properties\<close>

text \<open>
  C3. A passed run of the data cache bench means what it should, for any unit under test: when
  \<open>main\<close> ends with its success message, the requests the unit reported done are the random requests, in the order they were
  generated; with the data that was on the unit's port at each report, every signed load returned the sign-extended value and every
  unsigned load the low bytes of what the stores before it had written; and after the flush the memory behind the
  cache holds, byte for byte, the result of all stores in order.
\<close>

theorem dcache_bench_sound:
  assumes "dc_main dut ports stale (dc_bench_init n fl i0 d j r) = Inr Self_done"
  shows "\<exists>s. dc_loop dut ports stale (dc_bench_init n fl i0 d j r) = Inr s \<and>
    map fst (dc_trace dut ports stale (dc_bench_init n fl i0 d j r)) = fst (dc_requests n r) \<and>
    sequential dcache_ok (dc_trace dut ports stale (dc_bench_init n fl i0 d j r))
      (pm_peek8 (perfect_mem_init False (fst j) (snd j))) = Some (pm_peek8 (dcb_mem s))"
proof -
  let ?s0 = "dc_bench_init n fl i0 d j r"
  obtain s where s: "dc_loop dut ports stale ?s0 = Inr s" "dcb_time s \<noteq> DC_MAX_TIME"
    "pm_final_check (dcb_mem s) (rp_correct (dcb_core s))"
    using assms by (auto simp: dc_main_def Let_def split: sum.splits fault.splits if_splits)
  have "dcb_time ?s0 \<le> DC_MAX_TIME" by (simp add: dc_bench_init_def case_prod_beta Let_def)
  then have "dcb_time s \<le> DC_MAX_TIME" by (rule dc_run.loop_time [OF s(1)])
  then have run: "dc_upper s" "replays dcache_ok (dcb_core ?s0) (dc_trace dut ports stale ?s0) (dcb_core s)"
    and idle: "rp_idle (dcb_core s)"
    using dc_loop_replays [OF s(1) dc_upper_init] s(2) by (auto simp: dc_unfinished_def)
  have "pm_peek8 (dcb_mem s) = pm_peek8 (rp_correct (dcb_core s))"
    using final_check_bytes s(3) run(1) by (auto simp: dc_upper_def)
  then show ?thesis
    using s(1) run(2) idle by (simp add: replays_def rp_idle_def dc_bench_init_def case_prod_beta Let_def)
qed

section \<open>A run of one request\<close>

text \<open>
  A unit that finishes a request one cycle after it was offered and answers every load with 0,
  driven with the single signed byte load at address 0 that the constant sequence 0 generates.
\<close>

definition demo_dut :: "dcache_in \<Rightarrow> bool \<Rightarrow> bool" where
  "demo_dut i d = (if dci_clk i then dci_valid_i i else d)"

definition demo_ports :: "bool \<Rightarrow> dcache_out" where
  "demo_ports d =
     \<lparr>dco_load_data_valid_o = True, dco_load_data_o = 0, dco_lsu_ready_o = True, dco_ls_done_o = d,
      dco_wb_cyc_o = False, dco_wb_stb_o = False, dco_wb_we_o = False, dco_wb_adr_o = 0, dco_wb_dat_o = 0\<rparr>"

definition demo_in :: dcache_in where
  "demo_in =
     \<lparr>dci_clk = False, dci_rstn = False, dci_stall = False, dci_flush = False, dci_valid_i = False,
      dci_rob_index_i = 0, dci_rd_addr_i = 0, dci_rs1_data_i = 0, dci_rs2_data_i = 0, dci_imm_i = 0,
      dci_opcode_i = False, dci_size_i = 0, dci_load_sign_i = False, dci_wb_ack_i = False, dci_wb_dat_i = 0\<rparr>"

definition demo_req :: request where
  "demo_req = \<lparr>rq_data = 0, rq_address = 0, rq_size = 0, rq_sign = False, rq_opcode = False\<rparr>"

definition demo_start :: "bool dcache_bench" where
  "demo_start = dc_bench_init 1 [] demo_in False (False, False) (\<lambda>_. 0)"

abbreviation mem0 :: perfect_mem where
  "mem0 \<equiv> perfect_mem_init False False False"

text \<open>The states of the run: only the clock of the memory, the inputs and the queues vary.\<close>

definition demo_state :: "nat \<Rightarrow> bool \<Rightarrow> request list \<Rightarrow> request list \<Rightarrow> bool dcache_bench \<Rightarrow> bool" where
  "demo_state t d qs ws s \<longleftrightarrow>
     dcb_time s = t \<and> dcb_dut s = d \<and> (t \<le> 700 \<longrightarrow> \<not> dci_valid_i (dcb_in s)) \<and> dcb_flush_que s = [] \<and>
     rp_req_que (dcb_core s) = qs \<and> rp_wait_que (dcb_core s) = ws \<and> rp_correct (dcb_core s) = mem0 \<and>
     (\<exists>c. dcb_mem s = mem0\<lparr>pm_clk := c\<rparr>)"

lemma demo_tick: "pm_tick (mem0\<lparr>pm_clk := c\<rparr>) = mem0\<lparr>pm_clk := c\<rparr>"
  by (simp add: pm_tick_def perfect_mem_init_def)

lemma demo_eval:
  "pm_eval (mem0\<lparr>pm_clk := c\<rparr>) = Inr (mem0\<lparr>pm_clk := c\<rparr>)" "pm_eval mem0 = Inr mem0"
  by (simp_all add: pm_eval_def demo_tick) (simp_all add: perfect_mem_init_def)

lemmas demo_simps = dc_step_def dc_clock_def dc_drive_def dc_drive_wb_def dc_offer_def dc_done_def dc_bus_def
  dc_evals_def dc_req_in_def DC_RST_TIME_def demo_dut_def demo_ports_def rp_idle_def rp_accept_def Let_def
  demo_eval

lemma demo_quiet:
  assumes "demo_state t False qs [] s" and "t < 700"
  shows "\<exists>s'. dc_step demo_dut demo_ports stale s = Inr s' \<and> demo_state (Suc t) False qs [] s'"
  using assms by (cases "odd t") (auto simp: demo_state_def demo_simps simp del: res_bind_Inr_iff res_map_Inr_iff)

lemma demo_700:
  assumes "demo_state 700 False [demo_req] [] s"
  shows "\<exists>s'. dc_step demo_dut demo_ports stale s = Inr s' \<and> demo_state 701 False [demo_req] [] s'"
  using assms by (auto simp: demo_state_def demo_simps simp del: res_bind_Inr_iff res_map_Inr_iff)

lemma demo_701:
  assumes "demo_state 701 False [demo_req] [] s"
  shows "\<exists>s'. dc_step demo_dut demo_ports stale s = Inr s' \<and> demo_state 702 True [] [demo_req] s'"
  using assms by (auto simp: demo_state_def demo_simps simp del: res_bind_Inr_iff res_map_Inr_iff)

lemma demo_702:
  assumes "demo_state 702 True [] [demo_req] s"
  shows "\<exists>s'. dc_step demo_dut demo_ports stale s = Inr s' \<and> demo_state 703 True [] [demo_req] s'"
  using assms by (auto simp: demo_state_def demo_simps simp del: res_bind_Inr_iff res_map_Inr_iff)

lemma demo_703:
  assumes "demo_state 703 True [] [demo_req] s"
  shows "\<exists>s'. dc_step demo_dut demo_ports stale s = Inr s' \<and> demo_state 704 False [] [] s'"
proof -
  have "pm_peek8 mem0 0 = 0" by (simp add: pm_peek8_def perfect_mem_init_def pm_idx_def)
  then have "retire nm check_dcache True 0 demo_req mem0 = Inr mem0" for nm
    by (simp add: retire_def check_dcache_def check_signed_def demo_req_def)
  then show ?thesis using assms by (auto simp: demo_state_def demo_simps rp_done_def simp del: res_bind_Inr_iff res_map_Inr_iff)
qed

lemma demo_loop_step:
  assumes "demo_state t d qs ws s" and "qs \<noteq> [] \<or> ws \<noteq> []" and "t < 1000"
    and "\<exists>s'. dc_step demo_dut demo_ports stale s = Inr s' \<and> P s'"
  shows "\<exists>s'. P s' \<and> dc_loop demo_dut demo_ports stale s = dc_loop demo_dut demo_ports stale s'"
  using assms by (subst dc_loop.simps)
    (auto simp: demo_state_def dc_unfinished_def rp_idle_def DC_MAX_TIME_def)

lemma demo_loop_quiet:
  assumes "demo_state t False [demo_req] [] s" and "t \<le> 700"
  shows "\<exists>s'. demo_state 700 False [demo_req] [] s' \<and>
    dc_loop demo_dut demo_ports stale s = dc_loop demo_dut demo_ports stale s'"
  using assms
proof (induction "700 - t" arbitrary: t s)
  case 0
  then show ?case by auto
next
  case (Suc k)
  have t: "t < 700" using Suc.hyps(2) by simp
  obtain s1 where "demo_state (Suc t) False [demo_req] [] s1"
    "dc_loop demo_dut demo_ports stale s = dc_loop demo_dut demo_ports stale s1"
    using demo_loop_step [OF Suc.prems(1) _ _ demo_quiet [OF Suc.prems(1) t]] t by auto
  then show ?case using Suc.hyps(1) [of "Suc t" s1] Suc.hyps(2) t by simp
qed

lemma demo_run:
  obtains s where "demo_state 704 False [] [] s" and "dc_loop demo_dut demo_ports stale demo_start = Inr s"
proof -
  let ?l = "dc_loop demo_dut demo_ports stale"
  have "fst (dc_requests 1 (\<lambda>_. 0)) = [demo_req]"
    by (simp add: dc_draw_def rand_def demo_req_def)
  then have "demo_state 0 False [demo_req] [] demo_start"
    unfolding demo_state_def demo_start_def dc_bench_init_def Let_def case_prod_beta
    by (auto simp: dc_reset_def perfect_mem_init_def)
  then obtain s0 where s0: "demo_state 700 False [demo_req] [] s0" "?l demo_start = ?l s0"
    using demo_loop_quiet by fastforce
  obtain s1 where s1: "demo_state 701 False [demo_req] [] s1" "?l s0 = ?l s1"
    using demo_loop_step [OF s0(1) _ _ demo_700 [OF s0(1)]] by auto
  obtain s2 where s2: "demo_state 702 True [] [demo_req] s2" "?l s1 = ?l s2"
    using demo_loop_step [OF s1(1) _ _ demo_701 [OF s1(1)]] by auto
  obtain s3 where s3: "demo_state 703 True [] [demo_req] s3" "?l s2 = ?l s3"
    using demo_loop_step [OF s2(1) _ _ demo_702 [OF s2(1)]] by auto
  obtain s4 where s4: "demo_state 704 False [] [] s4" "?l s3 = ?l s4"
    using demo_loop_step [OF s3(1) _ _ demo_703 [OF s3(1)]] by auto
  have "?l s4 = Inr s4"
    using s4(1) by (subst dc_loop.simps) (auto simp: demo_state_def dc_unfinished_def rp_idle_def)
  then show ?thesis using that s4 s3(2) s2(2) s1(2) s0(2) by simp
qed

lemma demo_main: "dc_main demo_dut demo_ports stale demo_start = Inr Self_done"
proof -
  obtain s where s: "demo_state 704 False [] [] s" "dc_loop demo_dut demo_ports stale demo_start = Inr s"
    by (rule demo_run)
  then have "pm_final_check (dcb_mem s) (rp_correct (dcb_core s))"
    by (auto simp: demo_state_def pm_final_check_def pm_get_def list_all_iff)
  then show ?thesis using s by (simp add: dc_main_def demo_state_def DC_MAX_TIME_def)
qed

theorem dcache_bench_sound_witness:
  "\<exists>s. dc_loop demo_dut demo_ports (\<lambda>_. demo_req) demo_start = Inr s \<and>
    map fst (dc_trace demo_dut demo_ports (\<lambda>_. demo_req) demo_start) = [demo_req] \<and>
    sequential dcache_ok (dc_trace demo_dut demo_ports (\<lambda>_. demo_req) demo_start) (pm_peek8 mem0) =
      Some (pm_peek8 (dcb_mem s))"
proof -
  have "fst (dc_requests 1 (\<lambda>_. 0)) = [demo_req]"
    by (simp add: dc_draw_def rand_def demo_req_def)
  then show ?thesis
    using dcache_bench_sound [OF demo_main [unfolded demo_start_def], of "\<lambda>_. demo_req"]
    unfolding demo_start_def fst_conv snd_conv by metis
qed

section \<open>No false alarms\<close>

text \<open>
  What a unit can be blamed for, from its outputs \<open>p\<close>: it reports a request done that it was never given,
  it reports a load done without valid data or with data the earlier stores did not write, or it
  asks the memory for a misaligned word.
\<close>

definition dc_blame :: "dcache_out \<Rightarrow> 'd dcache_bench \<Rightarrow> bool" where
  "dc_blame p s \<longleftrightarrow>
     dco_ls_done_o p \<and> \<not> rp_idle (dcb_core s) \<and>
       replay_blame dcache_ok (dco_load_data_valid_o p) (dco_load_data_o p) (dcb_core s) \<or>
     dco_wb_stb_o p \<and> dco_wb_cyc_o p \<and> pm_ready (dcb_mem s) \<and> unat (ucast (dco_wb_adr_o p) :: u16) mod 4 \<noteq> 0"

definition dc_plain :: "'d dcache_bench \<Rightarrow> bool" where
  "dc_plain s \<longleftrightarrow> \<not> pm_random_return (dcb_mem s) \<and> \<not> pm_random_return (rp_correct (dcb_core s))"

lemma dc_plain_parts:
  "dc_plain (dc_clock s) = dc_plain s" "dc_plain (dc_drive q s) = dc_plain s" "dc_plain (dc_drive_wb s) = dc_plain s"
  "dc_plain (dc_req_in p s) = dc_plain s" "dc_plain (s\<lparr>dcb_time := t\<rparr>) = dc_plain s"
  "dc_done p s = Inr s' \<Longrightarrow> dc_plain s' = dc_plain s" "dc_bus p s = Inr s' \<Longrightarrow> dc_plain s' = dc_plain s"
  "dc_evals dut s = Inr s' \<Longrightarrow> dc_plain s' = dc_plain s"
  by (auto simp: dc_plain_def dc_clock_def dc_drive_def dc_drive_wb_def dc_req_in_def dc_done_def dc_bus_def dc_evals_def
      Let_def pm_ops_mode rp_done_mode split: if_splits)

lemma dc_blame_parts:
  "dc_blame p (dc_clock s) = dc_blame p s" "dc_blame p (dc_drive q s) = dc_blame p s"
  "dc_blame p (dc_drive_wb s) = dc_blame p s"
  unfolding dc_blame_def dc_drives_same by (rule refl)+

lemma dc_done_fault: "dc_done p s = Inl e \<Longrightarrow> dc_blame p s"
  by (auto simp: dc_done_def dc_blame_def dest: dcache_replay.rp_done_blame split: if_splits)

lemma dc_bus_fault: "dc_plain s \<Longrightarrow> dc_bus p s = Inl e \<Longrightarrow> dc_blame p s"
  by (auto simp: dc_bus_def dc_blame_def dc_plain_def pm_write32_def pm_read32_def pm_read_def split: if_splits)

lemma dc_evals_total: "dc_plain s \<Longrightarrow> dc_evals dut s \<noteq> Inl e"
  by (auto simp: dc_evals_def dc_plain_def pm_eval_def)

lemma dc_done_keeps: "dc_done p s = Inr s' \<Longrightarrow> dcb_mem s' = dcb_mem s"
  by (auto simp: dc_done_def split: if_splits)

lemma dc_step_fault:
  assumes "dc_plain s" and "dc_step dut ports stale s = Inl e"
  shows "dc_blame (ports (dcb_dut s)) s"
proof -
  let ?p = "ports (dcb_dut s)"
  let ?s = "dc_drive_wb (dc_drive (stale (dcb_time (dc_clock s))) (dc_clock s))"
  have "dcb_dut (dc_clock s) = dcb_dut s"
    by (simp add: dc_clock_def Let_def)
  then have plain: "dc_plain ?s" "dc_blame ?p ?s = dc_blame ?p s" "dcb_dut (dc_clock s) = dcb_dut s"
    using assms(1) by (simp_all add: dc_plain_parts dc_blame_parts)
  have drv: "dc_plain (dc_clock s)" "dc_plain (dc_drive q (dc_clock s))" for q
    using assms(1) by (simp_all add: dc_plain_parts)
  have after: "dc_plain s2" if "dc_done ?p ?s = Inr s1" "dc_bus ?p s1 = Inr s2" for s1 s2
    using plain(1) dc_plain_parts(6) [OF that(1)] dc_plain_parts(7) [OF that(2)] by simp
  consider (report) "dc_done ?p ?s = Inl e" | (bus) s1 where "dc_done ?p ?s = Inr s1" "dc_bus ?p s1 = Inl e"
    using assms(2) unfolding dc_step_def Let_def res_bind_Inl_iff res_map_Inl_iff plain(3)
    by (auto split: if_splits simp: drv dc_evals_total dest: after)
  then show ?thesis
  proof cases
    case report
    then show ?thesis using dc_done_fault plain(2) by blast
  next
    case bus
    have "dc_plain s1" using dc_plain_parts(6) [OF bus(1)] plain(1) by simp
    from this bus(2) have "dco_wb_stb_o ?p \<and> dco_wb_cyc_o ?p \<and> pm_ready (dcb_mem s1) \<and> unat (ucast (dco_wb_adr_o ?p) :: u16) mod 4 \<noteq> 0"
      by (auto simp: dc_bus_def dc_plain_def pm_write32_def pm_read32_def pm_read_def split: if_splits)
    then have "dc_blame ?p ?s"
      using dc_done_keeps [OF bus(1)] by (simp add: dc_blame_def)
    then show ?thesis using plain(2) by simp
  qed
qed

lemma dc_plain_step:
  assumes "dc_plain s" and "dc_step dut ports stale s = Inr s'"
  shows "dc_plain s'"
proof -
  let ?s = "dc_clock s"
  let ?d = "dc_drive (stale (dcb_time ?s)) ?s"
  obtain s2 s3 where "(if DC_RST_TIME + 100 \<le> dcb_time ?s then if odd (dcb_time ?s)
           then res_bind (dc_done (ports (dcb_dut ?s)) (dc_drive_wb ?d)) (dc_bus (ports (dcb_dut ?s))) else Inr ?d
          else Inr ?s) = Inr s2"
    and s3: "dc_evals dut s2 = Inr s3"
    and s': "s' = (let s4 = (if odd (dcb_time s3) \<and> DC_RST_TIME + 100 \<le> dcb_time ?s then dc_req_in (ports (dcb_dut s3)) s3 else s3)
                  in s4\<lparr>dcb_time := dcb_time s4 + 1\<rparr>)"
    using assms(2) unfolding dc_step_def Let_def res_bind_Inr_iff res_map_Inr_iff by metis
  then have "dc_plain s2"
    using assms(1) by (auto split: if_splits simp: dc_plain_parts)
  then have "dc_plain s3" using dc_plain_parts(8) [OF s3] by simp
  then show ?thesis unfolding s' Let_def by (simp add: dc_plain_parts)
qed

text \<open>
  C4. The data cache bench raises no false alarm: whenever its loop ends with a fault, thrown or
  undefined, for any unit, requests and random numbers, there is a state the loop passed through in which the outputs of the unit are to
  blame: a completion that was not due, a load without valid or with wrong data, or a misaligned bus access.
\<close>

theorem dcache_no_false_alarm:
  assumes "dc_loop dut ports stale (dc_bench_init n fl i0 d j r) = Inl e"
  shows "\<exists>s. bench_reach (dc_step dut ports stale) (dc_bench_init n fl i0 d j r) s \<and> dc_step dut ports stale s = Inl e \<and>
    dc_blame (ports (dcb_dut s)) s"
proof -
  have "dc_plain (dc_bench_init n fl i0 d j r)"
    by (simp add: dc_plain_def dc_bench_init_def perfect_mem_init_def case_prod_beta Let_def)
  then show ?thesis
    using dc_run.loop_fault [where I = dc_plain, OF assms] dc_plain_step dc_step_fault by blast
qed

text \<open>A unit that always reports a completion is blamed at the first edge after the reset.\<close>

definition eager_ports :: "bool \<Rightarrow> dcache_out" where
  "eager_ports d = demo_ports True"

lemma eager_quiet:
  assumes "demo_state t False qs [] s" and "t \<le> 700"
  shows "\<exists>s'. dc_step demo_dut eager_ports stale s = Inr s' \<and> demo_state (Suc t) False qs [] s'"
proof (cases "t = 700")
  case True
  then show ?thesis
    using assms by (auto simp: demo_state_def demo_simps eager_ports_def simp del: res_bind_Inr_iff res_map_Inr_iff)
next
  case False
  then have "t < 700" using assms(2) by simp
  then show ?thesis
    using assms by (cases "odd t") (auto simp: demo_state_def demo_simps eager_ports_def simp del: res_bind_Inr_iff res_map_Inr_iff)
qed

lemma eager_701:
  assumes "demo_state 701 False [demo_req] [] s"
  shows "dc_step demo_dut eager_ports stale s = Inl (Undefined ''wait_que is empty'')"
  using assms by (auto simp: demo_state_def demo_simps eager_ports_def rp_done_def simp del: res_bind_Inl_iff res_map_Inl_iff)

lemma eager_loop:
  assumes "demo_state t False [demo_req] [] s" and "t \<le> 701"
  shows "dc_loop demo_dut eager_ports stale s = Inl (Undefined ''wait_que is empty'')"
  using assms
proof (induction "701 - t" arbitrary: t s)
  case 0
  then show ?case
    using eager_701 [of s stale] by (subst dc_loop.simps) (auto simp: demo_state_def dc_unfinished_def rp_idle_def DC_MAX_TIME_def)
next
  case (Suc k)
  then have t: "t \<le> 700" by simp
  obtain s1 where s1: "dc_step demo_dut eager_ports stale s = Inr s1" "demo_state (Suc t) False [demo_req] [] s1"
    using eager_quiet [OF Suc.prems(1) t] by blast
  have "dc_loop demo_dut eager_ports stale s = dc_loop demo_dut eager_ports stale s1"
    using s1(1) Suc.prems(1) t by (subst dc_loop.simps) (auto simp: demo_state_def dc_unfinished_def rp_idle_def DC_MAX_TIME_def)
  then show ?case using Suc.hyps(1) [of "Suc t" s1] Suc.hyps(2) s1(2) t by simp
qed

theorem dcache_no_false_alarm_witness:
  "\<exists>s. bench_reach (dc_step demo_dut eager_ports (\<lambda>_. demo_req)) (dc_bench_init 1 [] demo_in False (False, False) (\<lambda>_. 0)) s \<and>
    dc_step demo_dut eager_ports (\<lambda>_. demo_req) s = Inl (Undefined ''wait_que is empty'') \<and>
    dc_blame (eager_ports (dcb_dut s)) s"
proof -
  have "fst (dc_requests 1 (\<lambda>_. 0)) = [demo_req]"
    by (simp add: dc_draw_def rand_def demo_req_def)
  then have "demo_state 0 False [demo_req] [] (dc_bench_init 1 [] demo_in False (False, False) (\<lambda>_. 0))"
    unfolding demo_state_def dc_bench_init_def Let_def case_prod_beta
    by (auto simp: dc_reset_def perfect_mem_init_def)
  from eager_loop [OF this, of "\<lambda>_. demo_req"] show ?thesis
    using dcache_no_false_alarm [of demo_dut eager_ports "\<lambda>_. demo_req" 1 "[]" demo_in False "(False, False)" "\<lambda>_. 0"] by simp
qed

end
