(* ===== verification/Nblsu_Bench.thy ===== *)
theory Nblsu_Bench
  imports Replay Bench_Loop
begin

unbundle bit_operations_syntax

text \<open>
  The random test of the non-blocking load/store unit, \<open>sim/selfcheck/nblsu.cpp\<close>: requests to
  cached and to memory-mapped addresses, a memory with a queue of outstanding reads behind both
  ports of the unit, and the replay of every finished request on a reference memory. (The file's
  table of fixed cases is commented out.) The Verilated unit is an argument of the model.
\<close>

section \<open>Ports of the unit\<close>

record nblsu_in =
  nbi_clk :: bool
  nbi_rstn :: bool
  nbi_flush :: bool
  nbi_valid_i :: bool
  nbi_rob_index_i :: u8
  nbi_rd_addr_i :: u8
  nbi_rs1_data_i :: u64
  nbi_rs2_data_i :: u64
  nbi_imm_i :: u64
  nbi_opcode_i :: bool
  nbi_size_i :: u8
  nbi_load_sign_i :: bool
  nbi_req_ready_i :: bool
  nbi_resp_valid_i :: bool
  nbi_resp_data_i :: u64
  nbi_resp_lsq_index_i :: u32
  nbi_resp_ready_o :: bool
  nbi_wb_ack_i :: bool
  nbi_wb_dat_i :: u64

record nblsu_out =
  nbo_load_data_valid_o :: bool
  nbo_load_data_o :: u64
  nbo_lsu_ready_o :: bool
  nbo_ls_done_o :: bool
  nbo_req_valid_o :: bool
  nbo_req_opcode_o :: bool
  nbo_req_size_o :: u8
  nbo_req_addr_o :: u64
  nbo_req_data_o :: u64
  nbo_req_lsq_index_o :: u32
  nbo_wb_stb_o :: bool
  nbo_wb_we_o :: bool
  nbo_wb_adr_o :: u64
  nbo_wb_dat_o :: u32

definition nb_reset :: nblsu_in where
  "nb_reset =
     \<lparr>nbi_clk = False, nbi_rstn = True, nbi_flush = False, nbi_valid_i = False, nbi_rob_index_i = 1,
      nbi_rd_addr_i = 1, nbi_rs1_data_i = 0, nbi_rs2_data_i = 0, nbi_imm_i = 0, nbi_opcode_i = False,
      nbi_size_i = 0, nbi_load_sign_i = False, nbi_req_ready_i = True, nbi_resp_valid_i = False,
      nbi_resp_data_i = 0, nbi_resp_lsq_index_i = 0, nbi_resp_ready_o = True, nbi_wb_ack_i = False,
      nbi_wb_dat_i = 0\<rparr>"

section \<open>Requests\<close>

definition NB_MAX_TIME :: nat where "NB_MAX_TIME = 5000"
definition NB_RANDOM_TEST_NUM :: nat where "NB_RANDOM_TEST_NUM = 10"

definition nb_draw :: "rng \<Rightarrow> request \<times> rng" where
  "nb_draw r0 =
     (let (v0, r1) = rand r0; mapping = (if even v0 then 0 else 0x10000000);
          (size, r2) = (if mapping > 0 then (2, r1) else let (v1, r) = rand r1 in (v1 mod 4, r));
          (v2, r3) = rand r2; (dat, r4) = rand r3; (off, r5) = rand r4
      in (\<lparr>rq_data = of_nat dat, rq_address = mapping + (push_bit size (of_nat off) AND 0xffff),
           rq_size = of_nat size, rq_sign = False, rq_opcode = odd v2\<rparr>, r5))"

fun nb_requests :: "nat \<Rightarrow> rng \<Rightarrow> request list \<times> rng" where
  "nb_requests 0 r = ([], r)"
| "nb_requests (Suc n) r =
     (let (q, r1) = nb_draw r; (qs, r2) = nb_requests n r1 in (q # qs, r2))"

section \<open>State\<close>

record 'd nblsu_bench =
  nbb_time :: nat
  nbb_in :: nblsu_in
  nbb_dut :: 'd
  nbb_core :: replay_core
  nbb_mem :: perfect_mem
  nbb_rng :: rng

text \<open>
  \<open>n\<close> is the number of requests (\<open>NB_RANDOM_TEST_NUM\<close> in the program), \<open>j\<close> stands for the
  uninitialised flags of the two memories.
\<close>

definition nb_bench_init :: "nat \<Rightarrow> 'd \<Rightarrow> bool \<times> bool \<Rightarrow> rng \<Rightarrow> 'd nblsu_bench" where
  "nb_bench_init n d j r =
     (let (qs, r1) = nb_requests n r in
      \<lparr>nbb_time = 0, nbb_in = nb_reset, nbb_dut = d,
       nbb_core = \<lparr>rp_req_que = qs, rp_wait_que = [],
                   rp_correct = perfect_mem_init False (fst j) (snd j), rp_test_cnt = 0\<rparr>,
       nbb_mem = perfect_mem_init True (fst j) (snd j), nbb_rng = r1\<rparr>)"

section \<open>One unit of time\<close>

definition nb_clock :: "'d nblsu_bench \<Rightarrow> 'd nblsu_bench" where
  "nb_clock s =
     (let i1 = (nbb_in s)\<lparr>nbi_clk := odd (nbb_time s)\<rparr> in
      s\<lparr>nbb_in := (if nbb_time s = 10 then i1\<lparr>nbi_rstn := False\<rparr> else i1)\<rparr>)"

definition nb_drive :: "request \<Rightarrow> 'd nblsu_bench \<Rightarrow> 'd nblsu_bench" where
  "nb_drive stale s =
     (let q = front_or stale (rp_req_que (nbb_core s)) in
      s\<lparr>nbb_in := (nbb_in s)\<lparr>nbi_rs1_data_i := ucast (rq_address q), nbi_opcode_i := rq_opcode q,
          nbi_rs2_data_i := rq_data q, nbi_size_i := rq_size q, nbi_load_sign_i := rq_sign q,
          nbi_valid_i := rp_req_que (nbb_core s) \<noteq> [], nbi_req_ready_i := pm_ready (nbb_mem s)\<rparr>\<rparr>)"

definition nb_drive_resp :: "'d nblsu_bench \<Rightarrow> 'd nblsu_bench" where
  "nb_drive_resp s =
     s\<lparr>nbb_in := (nbb_in s)\<lparr>nbi_wb_ack_i := pm_resp_vld (nbb_mem s), nbi_resp_valid_i := pm_resp_vld (nbb_mem s),
         nbi_resp_data_i := pm_resp (nbb_mem s), nbi_wb_dat_i := pm_resp (nbb_mem s),
         nbi_resp_lsq_index_i := pm_resp_lsq_index (nbb_mem s)\<rparr>,
       nbb_mem := (nbb_mem s)\<lparr>pm_lsu_ready := True\<rparr>\<rparr>"

text \<open>A request on the cache port goes before one on the bus port.\<close>

definition nb_store :: "nblsu_out \<Rightarrow> perfect_mem \<Rightarrow> perfect_mem res" where
  "nb_store p m =
     (let a = ucast (nbo_req_addr_o p) in
      if nbo_req_size_o p = 0 then Inr (pm_write8 a (ucast (nbo_req_data_o p)) m)
      else if nbo_req_size_o p = 1 then pm_write16 a (ucast (nbo_req_data_o p)) m
      else if nbo_req_size_o p = 2 then pm_write32 a (ucast (nbo_req_data_o p)) m
      else pm_write64 a (nbo_req_data_o p) m)"

definition nb_load :: "nblsu_out \<Rightarrow> rng \<Rightarrow> perfect_mem \<Rightarrow> (perfect_mem \<times> rng) res" where
  "nb_load p r m =
     (let a = ucast (nbo_req_addr_o p); i = nbo_req_lsq_index_o p in
      if nbo_req_size_o p = 0 then pm_read8 r a i m
      else if nbo_req_size_o p = 1 then pm_read16 r a i m
      else if nbo_req_size_o p = 2 then pm_read32 r a i m
      else pm_read64 r a i m)"

definition nb_access :: "nblsu_out \<Rightarrow> rng \<Rightarrow> perfect_mem \<Rightarrow> (perfect_mem \<times> rng) res" where
  "nb_access p r m =
     (if nbo_req_valid_o p \<and> pm_ready m then
        if nbo_req_opcode_o p then res_map (\<lambda>m'. (m', r)) (nb_store p m) else nb_load p r m
      else if nbo_wb_stb_o p \<and> pm_ready m then
        if nbo_wb_we_o p then
          res_map (\<lambda>m'. (m', r)) (pm_write32 (ucast (nbo_wb_adr_o p)) (nbo_wb_dat_o p) m)
        else pm_read32 r (ucast (nbo_wb_adr_o p)) (nbo_wb_dat_o p) m
      else Inr (m, r))"

definition nb_done :: "nblsu_out \<Rightarrow> replay_core \<Rightarrow> replay_core res" where
  "nb_done p c =
     (if nbo_ls_done_o p then rp_done ''nblsu'' check_low (nbo_load_data_valid_o p) (nbo_load_data_o p) c
      else Inr c)"

definition nb_edge :: "nblsu_out \<Rightarrow> 'd nblsu_bench \<Rightarrow> 'd nblsu_bench res" where
  "nb_edge p s =
     res_bind (nb_access p (nbb_rng s) (nbb_mem s)) (\<lambda>(m, r).
     res_map (\<lambda>c. s\<lparr>nbb_mem := m, nbb_rng := r, nbb_core := c\<rparr>) (nb_done p (nbb_core s)))"

definition nb_evals :: "(nblsu_in \<Rightarrow> 'd \<Rightarrow> 'd) \<Rightarrow> 'd nblsu_bench \<Rightarrow> 'd nblsu_bench res" where
  "nb_evals dut s0 =
     (let s = s0\<lparr>nbb_dut := dut (nbb_in s0) (nbb_dut s0)\<rparr> in
      if odd (nbb_time s) then
        res_bind (pm_eval (nbb_mem s)) (\<lambda>m.
        res_map (\<lambda>c. s\<lparr>nbb_mem := m, nbb_core := (nbb_core s)\<lparr>rp_correct := c\<rparr>\<rparr>)
          (pm_eval (rp_correct (nbb_core s))))
      else Inr s)"

definition nb_req_in :: "nblsu_out \<Rightarrow> 'd nblsu_bench \<Rightarrow> 'd nblsu_bench" where
  "nb_req_in p s =
     (if nbo_lsu_ready_o p then s\<lparr>nbb_core := rp_accept (nbb_core s)\<rparr> else s)"

definition nb_step ::
    "(nblsu_in \<Rightarrow> 'd \<Rightarrow> 'd) \<Rightarrow> ('d \<Rightarrow> nblsu_out) \<Rightarrow> (nat \<Rightarrow> request) \<Rightarrow> 'd nblsu_bench \<Rightarrow> 'd nblsu_bench res" where
  "nb_step dut ports stale s0 =
     (let s = nb_clock s0; running = 100 \<le> nbb_time s in
      res_bind
        (if running then
           (let s1 = nb_drive (stale (nbb_time s)) s in
            if odd (nbb_time s) then nb_edge (ports (nbb_dut s)) (nb_drive_resp s1) else Inr s1)
         else Inr s)
        (\<lambda>s2. res_map (\<lambda>s3.
           (let s4 = (if odd (nbb_time s3) \<and> running then nb_req_in (ports (nbb_dut s3)) s3 else s3)
            in s4\<lparr>nbb_time := nbb_time s4 + 1\<rparr>))
           (nb_evals dut s2)))"

lemma nb_parts_time:
  "nbb_time (nb_clock s) = nbb_time s" "nbb_time (nb_drive q s) = nbb_time s"
  "nbb_time (nb_drive_resp s) = nbb_time s" "nbb_time (nb_req_in p s) = nbb_time s"
  "nb_edge p s = Inr s' \<Longrightarrow> nbb_time s' = nbb_time s" "nb_evals dut s = Inr s' \<Longrightarrow> nbb_time s' = nbb_time s"
  by (auto simp: nb_clock_def nb_drive_def nb_drive_resp_def nb_req_in_def nb_edge_def nb_evals_def Let_def
      split: if_splits)

lemma nb_step_time: "nb_step dut ports stale s = Inr s' \<Longrightarrow> nbb_time s' = Suc (nbb_time s)"
  by (auto simp: nb_step_def Let_def nb_parts_time split: if_splits)

function nb_loop ::
    "(nblsu_in \<Rightarrow> 'd \<Rightarrow> 'd) \<Rightarrow> ('d \<Rightarrow> nblsu_out) \<Rightarrow> (nat \<Rightarrow> request) \<Rightarrow> 'd nblsu_bench \<Rightarrow> 'd nblsu_bench res" where
  "nb_loop dut ports stale s =
     (if nbb_time s < NB_MAX_TIME \<and> \<not> rp_idle (nbb_core s) then
        (case nb_step dut ports stale s of Inl e \<Rightarrow> Inl e | Inr s' \<Rightarrow> nb_loop dut ports stale s')
      else Inr s)"
  by pat_completeness auto
termination
  by (relation "measure (\<lambda>(_, _, _, s). NB_MAX_TIME - nbb_time s)") (auto dest: nb_step_time)

declare nb_loop.simps [simp del]

text \<open>The end of \<open>main\<close>: what is thrown is printed, and the program exits with status 0.\<close>

definition nb_finish :: "'d nblsu_bench res \<Rightarrow> self_outcome res" where
  "nb_finish r =
     (case r of
        Inl (Throw msg) \<Rightarrow> Inr (Self_caught msg)
      | Inl e \<Rightarrow> Inl e
      | Inr s \<Rightarrow>
          (let mem_same = pm_final_check (nbb_mem s) (rp_correct (nbb_core s)) in
           Inr (if nbb_time s \<noteq> NB_MAX_TIME \<and> mem_same then Self_done else Self_failed)))"

definition nb_main ::
    "(nblsu_in \<Rightarrow> 'd \<Rightarrow> 'd) \<Rightarrow> ('d \<Rightarrow> nblsu_out) \<Rightarrow> (nat \<Rightarrow> request) \<Rightarrow> 'd nblsu_bench \<Rightarrow> self_outcome res" where
  "nb_main dut ports stale s0 = nb_finish (nb_loop dut ports stale s0)"

section \<open>What the bench observes\<close>

text \<open>
  The requests finished in one unit of time and along the loop, each with the data that is on the
  port \<open>load_data_o\<close> of the unit when it reports the request done.
\<close>

definition nb_commits :: "('d \<Rightarrow> nblsu_out) \<Rightarrow> 'd nblsu_bench \<Rightarrow> (request \<times> u64) list" where
  "nb_commits ports s =
     (let p = ports (nbb_dut s) in
      if 100 \<le> nbb_time s \<and> odd (nbb_time s)
      then rp_finishes (nbo_ls_done_o p) (nbo_load_data_o p) (nbb_core s) else [])"

function nb_trace ::
    "(nblsu_in \<Rightarrow> 'd \<Rightarrow> 'd) \<Rightarrow> ('d \<Rightarrow> nblsu_out) \<Rightarrow> (nat \<Rightarrow> request) \<Rightarrow> 'd nblsu_bench \<Rightarrow> (request \<times> u64) list" where
  "nb_trace dut ports stale s =
     (if nbb_time s < NB_MAX_TIME \<and> \<not> rp_idle (nbb_core s) then
        nb_commits ports s @ (case nb_step dut ports stale s of Inl e \<Rightarrow> [] | Inr s' \<Rightarrow> nb_trace dut ports stale s')
      else [])"
  by pat_completeness auto
termination
  by (relation "measure (\<lambda>(_, _, _, s). NB_MAX_TIME - nbb_time s)") (auto dest: nb_step_time)

declare nb_trace.simps [simp del]

interpretation nb_run: traced_loop "nb_step dut ports stale" "nb_loop dut ports stale"
  "\<lambda>s. nbb_time s < NB_MAX_TIME \<and> \<not> rp_idle (nbb_core s)" nbb_time NB_MAX_TIME "nb_commits ports" "nb_trace dut ports stale"
  for dut ports stale
  by unfold_locales (auto simp: nb_step_time nb_loop.simps [of dut ports stale] nb_trace.simps [of dut ports stale])

section \<open>Every step replays what it observes\<close>

definition nb_upper :: "'d nblsu_bench \<Rightarrow> bool" where
  "nb_upper s \<longleftrightarrow> upper_intact (nbb_mem s) \<and> upper_intact (rp_correct (nbb_core s))"

lemma nb_drives_same:
  "nbb_core (nb_clock s) = nbb_core s" "nbb_core (nb_drive q s) = nbb_core s" "nbb_core (nb_drive_resp s) = nbb_core s"
  "nbb_dut (nb_clock s) = nbb_dut s" "nb_upper (nb_clock s) = nb_upper s" "nb_upper (nb_drive q s) = nb_upper s"
  "nb_upper (nb_drive_resp s) = nb_upper s" "nb_upper (s\<lparr>nbb_time := t\<rparr>) = nb_upper s"
  by (simp_all add: nb_clock_def nb_drive_def nb_drive_resp_def nb_upper_def upper_intact_def Let_def)

text \<open>Every access of the unit is one of the operations of the memory, or none.\<close>

lemma nb_access_is_step:
  assumes "nb_access p r m = Inr (m', r')"
  shows "(\<exists>op. pm_step op (m, r) = Inr (m', r')) \<or> m' = m"
proof -
  have store: "\<exists>op. pm_step op (m, r) = Inr (m1, r)" if "nb_store p m = Inr m1" for m1
    using that unfolding nb_store_def Let_def
    by (auto split: if_splits intro: exI [of _ "Write8 _ _"] exI [of _ "Write16 _ _"] exI [of _ "Write32 _ _"]
        exI [of _ "Write64 _ _"])
  have load: "\<exists>op. pm_step op (m, r) = Inr (m', r')" if "nb_load p r m = Inr (m', r')"
    using that unfolding nb_load_def Let_def
    by (auto split: if_splits intro: exI [of _ "Read8 _ _"] exI [of _ "Read16 _ _"] exI [of _ "Read32 _ _"]
        exI [of _ "Read64 _ _"])
  show ?thesis
    using assms store load unfolding nb_access_def
    by (auto split: if_splits intro: exI [of _ "Write32 _ _"] exI [of _ "Read32 _ _"])
qed

lemma nb_edge_replays:
  assumes "nb_upper s" and "nb_edge p s = Inr s'"
  shows "nb_upper s'"
    and "replays low_ok (nbb_core s) (rp_finishes (nbo_ls_done_o p) (nbo_load_data_o p) (nbb_core s)) (nbb_core s')"
proof -
  obtain m r c where m: "nb_access p (nbb_rng s) (nbb_mem s) = Inr (m, r)" and c: "nb_done p (nbb_core s) = Inr c"
    and s': "s' = s\<lparr>nbb_mem := m, nbb_rng := r, nbb_core := c\<rparr>"
    using assms(2) by (auto simp: nb_edge_def)
  have "upper_intact m"
    using nb_access_is_step [OF m] pm_step_upper assms(1) by (auto simp: nb_upper_def)
  then show "nb_upper s'"
    using assms(1) c rp_done_upper by (auto simp: nb_upper_def nb_done_def s' split: if_splits)
  show "replays low_ok (nbb_core s) (rp_finishes (nbo_ls_done_o p) (nbo_load_data_o p) (nbb_core s)) (nbb_core s')"
    using c nblsu_replay.done_replays by (auto simp: nb_done_def s' split: if_splits)
qed

lemma nb_evals_replays:
  assumes "nb_evals dut s = Inr s'"
  shows "replays ok c os (nbb_core s') = replays ok c os (nbb_core s)" and "nb_upper s \<Longrightarrow> nb_upper s'"
  using assms
  by (auto simp: nb_evals_def nb_upper_def Let_def upper_intact_same [OF pm_eval_same(1)] pm_eval_peek8 replays_mem
      split: if_splits)

lemma nb_req_in_replays:
  "replays ok c os (nbb_core (nb_req_in p s)) = replays ok c os (nbb_core s)" "nb_upper (nb_req_in p s) = nb_upper s"
  by (simp_all add: nb_upper_def nb_req_in_def)

lemma nb_step_replays:
  assumes "nb_upper s" and "nb_step dut ports stale s = Inr s'"
  shows "nb_upper s' \<and> replays low_ok (nbb_core s) (nb_commits ports s) (nbb_core s')"
proof -
  let ?s = "nb_clock s"
  let ?run = "100 \<le> nbb_time ?s" and ?p = "ports (nbb_dut ?s)"
  let ?d = "nb_drive (stale (nbb_time ?s)) ?s"
  obtain s2 s3 where
    s2: "(if ?run then if odd (nbb_time ?s) then nb_edge ?p (nb_drive_resp ?d) else Inr ?d else Inr ?s) = Inr s2"
    and s3: "nb_evals dut s2 = Inr s3"
    and s': "s' = (let s4 = (if odd (nbb_time s3) \<and> ?run then nb_req_in (ports (nbb_dut s3)) s3 else s3)
                  in s4\<lparr>nbb_time := nbb_time s4 + 1\<rparr>)"
    using assms(2) unfolding nb_step_def Let_def res_bind_Inr_iff res_map_Inr_iff by metis
  have "nb_upper s2 \<and> replays low_ok (nbb_core s) (nb_commits ports s) (nbb_core s2)"
  proof (cases "?run \<and> odd (nbb_time ?s)")
    case True
    then have "nb_edge ?p (nb_drive_resp ?d) = Inr s2" using s2 by simp
    then show ?thesis
      using nb_edge_replays [of "nb_drive_resp ?d" ?p s2] True assms(1)
      by (simp add: nb_commits_def nb_drives_same nb_parts_time Let_def)
  next
    case False
    then have "s2 = ?s \<or> s2 = ?d" using s2 by (auto split: if_splits)
    then show ?thesis using False assms(1) by (auto simp: nb_commits_def nb_drives_same nb_parts_time Let_def)
  qed
  then show ?thesis
    using nb_evals_replays [OF s3] unfolding s' Let_def by (simp add: nb_drives_same nb_req_in_replays)
qed

lemma nb_loop_replays:
  assumes "nb_loop dut ports stale s = Inr s'" and "nb_upper s"
  shows "nb_upper s' \<and> \<not> (nbb_time s' < NB_MAX_TIME \<and> \<not> rp_idle (nbb_core s')) \<and>
    replays low_ok (nbb_core s) (nb_trace dut ports stale s) (nbb_core s')"
  by (rule nb_run.loop_observed [where I = nb_upper and R = "\<lambda>s os s'. replays low_ok (nbb_core s) os (nbb_core s')", OF assms])
    (auto dest: nb_step_replays intro: replays_trans)

lemma nb_upper_init: "nb_upper (nb_bench_init n d j r)"
  using pm_run_upper [of "[]" True "fst j" "snd j" r] pm_run_upper [of "[]" False "fst j" "snd j" r]
  by (simp add: nb_upper_def nb_bench_init_def case_prod_beta Let_def)

section \<open>Properties\<close>

text \<open>
  C5. A passed run of the random test of the non-blocking unit means what it should, for any unit
  under test: when \<open>main\<close> ends with its success message, the requests the unit reported done are all that were
  generated, in this order; with the data that was on the unit's port at each report, the low bytes of every load are those the stores
  before it had written; and the memory behind the unit holds, byte for byte, the result of all stores in order.
\<close>

theorem nblsu_bench_sound:
  assumes "nb_main dut ports stale (nb_bench_init n d j r) = Inr Self_done"
  shows "\<exists>s. nb_loop dut ports stale (nb_bench_init n d j r) = Inr s \<and>
    map fst (nb_trace dut ports stale (nb_bench_init n d j r)) = fst (nb_requests n r) \<and>
    sequential low_ok (nb_trace dut ports stale (nb_bench_init n d j r))
      (pm_peek8 (perfect_mem_init False (fst j) (snd j))) = Some (pm_peek8 (nbb_mem s))"
proof -
  let ?s0 = "nb_bench_init n d j r"
  obtain s where s: "nb_loop dut ports stale ?s0 = Inr s" "nbb_time s \<noteq> NB_MAX_TIME"
    "pm_final_check (nbb_mem s) (rp_correct (nbb_core s))"
    using assms by (auto simp: nb_main_def nb_finish_def Let_def split: sum.splits fault.splits if_splits)
  have "nbb_time ?s0 \<le> NB_MAX_TIME" by (simp add: nb_bench_init_def case_prod_beta Let_def)
  then have "nbb_time s \<le> NB_MAX_TIME" by (rule nb_run.loop_time [OF s(1)])
  then have run: "nb_upper s" "replays low_ok (nbb_core ?s0) (nb_trace dut ports stale ?s0) (nbb_core s)"
    and idle: "rp_idle (nbb_core s)"
    using nb_loop_replays [OF s(1) nb_upper_init] s(2) by auto
  have "pm_peek8 (nbb_mem s) = pm_peek8 (rp_correct (nbb_core s))"
    using final_check_bytes s(3) run(1) by (auto simp: nb_upper_def)
  then show ?thesis
    using s(1) run(2) idle by (simp add: replays_def rp_idle_def nb_bench_init_def case_prod_beta Let_def)
qed

section \<open>A run of one request\<close>

text \<open>
  A unit that finishes a request one cycle after it was offered and answers every load with 0,
  driven with the byte load at address 0 that the constant sequence 0 generates.
\<close>

definition echo_dut :: "nblsu_in \<Rightarrow> bool \<Rightarrow> bool" where
  "echo_dut i d = (if nbi_clk i then nbi_valid_i i else d)"

definition echo_ports :: "bool \<Rightarrow> nblsu_out" where
  "echo_ports d =
     \<lparr>nbo_load_data_valid_o = True, nbo_load_data_o = 0, nbo_lsu_ready_o = True, nbo_ls_done_o = d,
      nbo_req_valid_o = False, nbo_req_opcode_o = False, nbo_req_size_o = 0, nbo_req_addr_o = 0,
      nbo_req_data_o = 0, nbo_req_lsq_index_o = 0, nbo_wb_stb_o = False, nbo_wb_we_o = False,
      nbo_wb_adr_o = 0, nbo_wb_dat_o = 0\<rparr>"

definition echo_req :: request where
  "echo_req = \<lparr>rq_data = 0, rq_address = 0, rq_size = 0, rq_sign = False, rq_opcode = False\<rparr>"

definition echo_state :: "nat \<Rightarrow> bool \<Rightarrow> request list \<Rightarrow> request list \<Rightarrow> bool nblsu_bench \<Rightarrow> bool" where
  "echo_state t d qs ws s \<longleftrightarrow>
     nbb_time s = t \<and> nbb_dut s = d \<and> (t \<le> 100 \<longrightarrow> \<not> nbi_valid_i (nbb_in s)) \<and>
     rp_req_que (nbb_core s) = qs \<and> rp_wait_que (nbb_core s) = ws \<and>
     rp_correct (nbb_core s) = perfect_mem_init False False False \<and>
     (\<exists>b. nbb_mem s = (perfect_mem_init True False False)\<lparr>pm_lsu_ready := b\<rparr>)"

lemma echo_eval:
  "pm_eval ((perfect_mem_init True False False)\<lparr>pm_lsu_ready := b\<rparr>) =
     Inr ((perfect_mem_init True False False)\<lparr>pm_lsu_ready := b\<rparr>)"
  "pm_eval (perfect_mem_init False False False) = Inr (perfect_mem_init False False False)"
  by (simp_all add: pm_eval_def perfect_mem_init_def MSHR_DEPTH_def numeral_2_eq_2 req_entry0_def)

lemmas echo_simps = nb_step_def nb_clock_def nb_drive_def nb_drive_resp_def nb_edge_def nb_access_def nb_done_def
  nb_evals_def nb_req_in_def echo_dut_def echo_ports_def rp_idle_def rp_accept_def Let_def echo_eval

lemma echo_quiet:
  assumes "echo_state t False qs [] s" and "t < 100"
  shows "\<exists>s'. nb_step echo_dut echo_ports stale s = Inr s' \<and> echo_state (Suc t) False qs [] s'"
  using assms by (cases "odd t") (auto simp: echo_state_def echo_simps simp del: res_bind_Inr_iff res_map_Inr_iff)

lemma echo_steps:
  "echo_state 100 False [echo_req] [] s \<Longrightarrow>
     \<exists>s'. nb_step echo_dut echo_ports stale s = Inr s' \<and> echo_state 101 False [echo_req] [] s'"
  "echo_state 101 False [echo_req] [] s \<Longrightarrow>
     \<exists>s'. nb_step echo_dut echo_ports stale s = Inr s' \<and> echo_state 102 True [] [echo_req] s'"
  "echo_state 102 True [] [echo_req] s \<Longrightarrow>
     \<exists>s'. nb_step echo_dut echo_ports stale s = Inr s' \<and> echo_state 103 True [] [echo_req] s'"
  by (auto simp: echo_state_def echo_simps simp del: res_bind_Inr_iff res_map_Inr_iff)

lemma echo_103:
  assumes "echo_state 103 True [] [echo_req] s"
  shows "\<exists>s'. nb_step echo_dut echo_ports stale s = Inr s' \<and> echo_state 104 False [] [] s'"
proof -
  have "pm_peek8 (perfect_mem_init False False False) 0 = 0"
    by (simp add: pm_peek8_def perfect_mem_init_def pm_idx_def)
  then have "retire nm check_low True 0 echo_req (perfect_mem_init False False False) =
      Inr (perfect_mem_init False False False)" for nm
    by (simp add: retire_def check_low_def echo_req_def)
  then show ?thesis using assms
    by (auto simp: echo_state_def echo_simps rp_done_def simp del: res_bind_Inr_iff res_map_Inr_iff)
qed

lemma echo_loop_step:
  assumes "echo_state t d qs ws s" and "qs \<noteq> [] \<or> ws \<noteq> []" and "t < 1000"
    and "\<exists>s'. nb_step echo_dut echo_ports stale s = Inr s' \<and> P s'"
  shows "\<exists>s'. P s' \<and> nb_loop echo_dut echo_ports stale s = nb_loop echo_dut echo_ports stale s'"
  using assms by (subst nb_loop.simps) (auto simp: echo_state_def rp_idle_def NB_MAX_TIME_def)

lemma echo_loop_quiet:
  assumes "echo_state t False [echo_req] [] s" and "t \<le> 100"
  shows "\<exists>s'. echo_state 100 False [echo_req] [] s' \<and>
    nb_loop echo_dut echo_ports stale s = nb_loop echo_dut echo_ports stale s'"
  using assms
proof (induction "100 - t" arbitrary: t s)
  case 0
  then show ?case by auto
next
  case (Suc k)
  have t: "t < 100" using Suc.hyps(2) by simp
  obtain s1 where "echo_state (Suc t) False [echo_req] [] s1"
    "nb_loop echo_dut echo_ports stale s = nb_loop echo_dut echo_ports stale s1"
    using echo_loop_step [OF Suc.prems(1) _ _ echo_quiet [OF Suc.prems(1) t]] t by auto
  then show ?case using Suc.hyps(1) [of "Suc t" s1] Suc.hyps(2) t by simp
qed

lemma echo_main:
  "nb_main echo_dut echo_ports stale (nb_bench_init 1 False (False, False) (\<lambda>_. 0)) = Inr Self_done"
proof -
  let ?l = "nb_loop echo_dut echo_ports stale"
  let ?s = "nb_bench_init 1 False (False, False) (\<lambda>_. 0)"
  have "fst (nb_requests 1 (\<lambda>_. 0)) = [echo_req]"
    by (simp add: nb_draw_def rand_def echo_req_def)
  then have "echo_state 0 False [echo_req] [] ?s"
    unfolding echo_state_def nb_bench_init_def Let_def case_prod_beta
    by (auto simp: nb_reset_def perfect_mem_init_def)
  then obtain s0 where s0: "echo_state 100 False [echo_req] [] s0" "?l ?s = ?l s0"
    using echo_loop_quiet by fastforce
  obtain s1 where s1: "echo_state 101 False [echo_req] [] s1" "?l s0 = ?l s1"
    using echo_loop_step [OF s0(1) _ _ echo_steps(1) [OF s0(1)]] by auto
  obtain s2 where s2: "echo_state 102 True [] [echo_req] s2" "?l s1 = ?l s2"
    using echo_loop_step [OF s1(1) _ _ echo_steps(2) [OF s1(1)]] by auto
  obtain s3 where s3: "echo_state 103 True [] [echo_req] s3" "?l s2 = ?l s3"
    using echo_loop_step [OF s2(1) _ _ echo_steps(3) [OF s2(1)]] by auto
  obtain s4 where s4: "echo_state 104 False [] [] s4" "?l s3 = ?l s4"
    using echo_loop_step [OF s3(1) _ _ echo_103 [OF s3(1)]] by auto
  have "?l s4 = Inr s4"
    using s4(1) by (subst nb_loop.simps) (auto simp: echo_state_def rp_idle_def)
  then have "?l ?s = Inr s4" using s4(2) s3(2) s2(2) s1(2) s0(2) by simp
  moreover have "pm_final_check (nbb_mem s4) (rp_correct (nbb_core s4))"
    using s4(1) by (auto simp: echo_state_def pm_final_check_def pm_get_def list_all_iff perfect_mem_init_def)
  ultimately show ?thesis using s4(1) by (simp add: nb_main_def nb_finish_def echo_state_def NB_MAX_TIME_def)
qed

theorem nblsu_bench_sound_witness:
  "\<exists>s. nb_loop echo_dut echo_ports (\<lambda>_. echo_req) (nb_bench_init 1 False (False, False) (\<lambda>_. 0)) = Inr s \<and>
    map fst (nb_trace echo_dut echo_ports (\<lambda>_. echo_req) (nb_bench_init 1 False (False, False) (\<lambda>_. 0))) = [echo_req] \<and>
    sequential low_ok (nb_trace echo_dut echo_ports (\<lambda>_. echo_req) (nb_bench_init 1 False (False, False) (\<lambda>_. 0)))
      (pm_peek8 (perfect_mem_init False False False)) = Some (pm_peek8 (nbb_mem s))"
proof -
  have "fst (nb_requests 1 (\<lambda>_. 0)) = [echo_req]"
    by (simp add: nb_draw_def rand_def echo_req_def)
  then show ?thesis
    using nblsu_bench_sound [OF echo_main, of "\<lambda>_. echo_req"] unfolding fst_conv snd_conv by metis
qed

section \<open>No false alarms\<close>

text \<open>
  What the outputs \<open>p\<close> of the unit can be blamed for: a report that is not due or wrong, or an access
  at an address that is not a multiple of its size.
\<close>

definition nb_req_bytes :: "nblsu_out \<Rightarrow> nat" where
  "nb_req_bytes p = (if nbo_req_size_o p = 0 then 1 else if nbo_req_size_o p = 1 then 2 else if nbo_req_size_o p = 2 then 4 else 8)"

definition nb_blame :: "nblsu_out \<Rightarrow> 'd nblsu_bench \<Rightarrow> bool" where
  "nb_blame p s \<longleftrightarrow>
     nbo_ls_done_o p \<and> replay_blame low_ok (nbo_load_data_valid_o p) (nbo_load_data_o p) (nbb_core s) \<or>
     pm_ready (nbb_mem s) \<and>
       (if nbo_req_valid_o p then unat (ucast (nbo_req_addr_o p) :: u16) mod nb_req_bytes p \<noteq> 0
        else nbo_wb_stb_o p \<and> unat (ucast (nbo_wb_adr_o p) :: u16) mod 4 \<noteq> 0)"

text \<open>
  The memory has its queue, with at most the first entry in use, and then the bench has promised to
  take the answer; the reference memory has no queue.
\<close>

definition nb_sane :: "'d nblsu_bench \<Rightarrow> bool" where
  "nb_sane s \<longleftrightarrow> mshr_inv (nbb_mem s) \<and> (re_valid (hd (pm_req_que (nbb_mem s))) \<longrightarrow> pm_lsu_ready (nbb_mem s)) \<and>
     \<not> pm_random_return (rp_correct (nbb_core s))"

text \<open>A read of a free queue succeeds, and none changes what the bench has promised.\<close>

lemma pm_read_free:
  assumes "mshr_inv m" and "pm_ready m"
  shows "\<exists>m' r'. pm_read (Inr v) r a i m = Inr (m', r') \<and> mshr_inv m' \<and> pm_lsu_ready m' = pm_lsu_ready m"
proof -
  obtain e where e: "pm_req_que m = [e, req_entry0]" "pm_random_return m" using assms(1) by (auto simp: mshr_inv_def)
  then show ?thesis using assms pm_read_queue [OF assms(1) e(1), of v r a i] by (auto simp: pm_ready_def mshr_inv_def)
qed

lemma nb_load_outcome:
  assumes "mshr_inv m" and "pm_ready m"
  shows "if unat (ucast (nbo_req_addr_o p) :: u16) mod nb_req_bytes p = 0
    then \<exists>m' r'. nb_load p r m = Inr (m', r') \<and> mshr_inv m' \<and> pm_lsu_ready m' = pm_lsu_ready m
    else \<exists>e. nb_load p r m = Inl e"
  using pm_read_free [OF assms]
  by (auto simp: nb_load_def nb_req_bytes_def pm_read8_def pm_read16_def pm_read32_def pm_read64_def
      pm_peek16_def pm_peek32_def pm_peek64_def Let_def)

lemma nb_store_outcome:
  assumes "mshr_inv m"
  shows "if unat (ucast (nbo_req_addr_o p) :: u16) mod nb_req_bytes p = 0
    then \<exists>m'. nb_store p m = Inr m' \<and> mshr_inv m' \<and> pm_req_que m' = pm_req_que m \<and> pm_lsu_ready m' = pm_lsu_ready m
    else \<exists>e. nb_store p m = Inl e"
  using assms by (auto simp: nb_store_def nb_req_bytes_def pm_write_defs mshr_inv_def Let_def)

lemma nb_bus_outcome:
  assumes "mshr_inv m" and "pm_ready m"
  shows "pm_write32 a v m = Inr m' \<Longrightarrow> mshr_inv m' \<and> pm_lsu_ready m' = pm_lsu_ready m"
    and "pm_read32 r a i m = Inr (m', r') \<Longrightarrow> mshr_inv m' \<and> pm_lsu_ready m' = pm_lsu_ready m"
    and "pm_write32 a v m = Inl e \<Longrightarrow> unat a mod 4 \<noteq> 0"
    and "pm_read32 r a i m = Inl e \<Longrightarrow> unat a mod 4 \<noteq> 0"
  using pm_read_free [OF assms, of "ucast (pm_mem m (pm_idx a))" r a i] assms(1)
  by (auto simp: pm_write_defs pm_read32_def pm_peek32_def mshr_inv_def Let_def split: if_splits)

lemma nb_access_ok:
  assumes "nb_access p r m = Inr (m', r')" and "mshr_inv m"
  shows "mshr_inv m' \<and> pm_lsu_ready m' = pm_lsu_ready m"
proof -
  consider (load) "pm_ready m" "nb_load p r m = Inr (m', r')" | (store) "nb_store p m = Inr m'"
    | (wr) "pm_ready m" "pm_write32 (ucast (nbo_wb_adr_o p)) (nbo_wb_dat_o p) m = Inr m'"
    | (rd) "pm_ready m" "pm_read32 r (ucast (nbo_wb_adr_o p)) (nbo_wb_dat_o p) m = Inr (m', r')" | (none) "m' = m"
    using assms(1) by (auto simp: nb_access_def split: if_splits)
  then show ?thesis
  proof cases
    case load
    then show ?thesis using nb_load_outcome [OF assms(2), of p r] by (auto split: if_splits)
  next
    case store
    then show ?thesis using nb_store_outcome [OF assms(2), of p] by (auto split: if_splits)
  next
    case wr
    then show ?thesis using nb_bus_outcome(1) [OF assms(2)] by blast
  next
    case rd
    then show ?thesis using nb_bus_outcome(2) [OF assms(2)] by blast
  qed (use assms(2) in simp)
qed

lemma nb_access_fault:
  assumes "nb_access p r m = Inl e" and "mshr_inv m"
  shows "pm_ready m \<and>
    (if nbo_req_valid_o p then unat (ucast (nbo_req_addr_o p) :: u16) mod nb_req_bytes p \<noteq> 0
     else nbo_wb_stb_o p \<and> unat (ucast (nbo_wb_adr_o p) :: u16) mod 4 \<noteq> 0)"
proof -
  have "pm_ready m" using assms(1) by (auto simp: nb_access_def split: if_splits)
  then show ?thesis
    using assms(1) nb_load_outcome [OF assms(2), of p r] nb_store_outcome [OF assms(2), of p]
      nb_bus_outcome(3,4) [OF assms(2)]
    by (auto simp: nb_access_def split: if_splits)
qed

lemma nb_sane_drive: "nb_sane s \<Longrightarrow> nb_sane (nb_drive_resp (nb_drive q (nb_clock s)))"
  "nb_sane s \<Longrightarrow> nb_sane (nb_drive q (nb_clock s))" "nb_sane s \<Longrightarrow> nb_sane (nb_clock s)"
  "nb_sane (s\<lparr>nbb_time := t\<rparr>) = nb_sane s" "nb_sane (nb_req_in p s) = nb_sane s"
  by (auto simp: nb_sane_def nb_drive_resp_def nb_drive_def nb_clock_def nb_req_in_def mshr_inv_def Let_def)

lemma nb_blame_drive: "nb_blame p (nb_drive_resp (nb_drive q (nb_clock s))) = nb_blame p s"
  by (simp add: nb_blame_def nb_drive_resp_def nb_drive_def nb_clock_def pm_ready_def Let_def)

lemma nb_edge_outcome:
  assumes "nb_sane s" and "pm_lsu_ready (nbb_mem s)"
  shows "nb_edge p s = Inl e \<Longrightarrow> nb_blame p s" and "nb_edge p s = Inr s' \<Longrightarrow> nb_sane s'"
proof -
  have m: "mshr_inv (nbb_mem s)" using assms(1) by (simp add: nb_sane_def)
  show "nb_blame p s" if "nb_edge p s = Inl e"
    using that nb_access_fault [OF _ m, of p] nblsu_replay.rp_done_blame
    by (auto simp: nb_edge_def nb_done_def nb_blame_def split: if_splits)
  show "nb_sane s'" if "nb_edge p s = Inr s'"
    using that assms nb_access_ok [OF _ m, of p]
    by (auto simp: nb_edge_def nb_done_def nb_sane_def dest: rp_done_mode split: if_splits)
qed

lemma nb_evals_outcome:
  assumes "nb_sane s"
  shows "nb_evals dut s \<noteq> Inl e" and "nb_evals dut s = Inr s' \<Longrightarrow> nb_sane s'"
proof -
  obtain e where e: "pm_req_que (nbb_mem s) = [e, req_entry0]" and m: "mshr_inv (nbb_mem s)"
    using assms by (auto simp: nb_sane_def mshr_inv_def)
  show "nb_evals dut s \<noteq> Inl e'" for e'
    using assms e pm_eval_mshr [OF m e] by (auto simp: nb_evals_def nb_sane_def pm_eval_def Let_def)
  show "nb_sane s'" if "nb_evals dut s = Inr s'"
    using that assms e pm_eval_mshr [OF m e] pm_ops_mode(3) [of "rp_correct (nbb_core s)"]
    by (auto simp: nb_evals_def nb_sane_def mshr_inv_def Let_def split: if_splits)
qed

lemma nb_step_outcome:
  assumes "nb_sane s"
  shows "nb_step dut ports stale s = Inl e \<Longrightarrow> nb_blame (ports (nbb_dut s)) s"
    and "nb_step dut ports stale s = Inr s' \<Longrightarrow> nb_sane s'"
proof -
  let ?s = "nb_clock s"
  let ?d = "nb_drive (stale (nbb_time ?s)) ?s"
  let ?p = "ports (nbb_dut s)"
  have dut: "nbb_dut ?s = nbb_dut s" by (simp add: nb_clock_def Let_def)
  have rdy: "pm_lsu_ready (nbb_mem (nb_drive_resp ?d))" by (simp add: nb_drive_resp_def)
  note sane = nb_sane_drive(1-3) [OF assms] and edge = nb_edge_outcome [OF nb_sane_drive(1) [OF assms] rdy]
  define first where "first = (if 100 \<le> nbb_time ?s then
      if odd (nbb_time ?s) then nb_edge ?p (nb_drive_resp ?d) else Inr ?d else Inr ?s)"
  have ok: "nb_sane s2" if "first = Inr s2" for s2
    using that sane edge(2) by (auto simp: first_def split: if_splits)
  have step: "nb_step dut ports stale s = res_bind first (\<lambda>s2. res_map (\<lambda>s3.
      (let s4 = (if odd (nbb_time s3) \<and> 100 \<le> nbb_time ?s then nb_req_in (ports (nbb_dut s3)) s3 else s3)
       in s4\<lparr>nbb_time := nbb_time s4 + 1\<rparr>)) (nb_evals dut s2))"
    by (simp add: nb_step_def first_def dut Let_def)
  show "nb_blame ?p s" if "nb_step dut ports stale s = Inl e"
  proof -
    have "first = Inl e"
      using that nb_evals_outcome(1) [OF ok] unfolding step by auto
    then have "nb_edge ?p (nb_drive_resp ?d) = Inl e" by (auto simp: first_def split: if_splits)
    then show ?thesis using edge(1) [of ?p e] unfolding nb_blame_drive by blast
  qed
  show "nb_sane s'" if "nb_step dut ports stale s = Inr s'"
    using that nb_evals_outcome(2) [OF ok] unfolding step by (auto simp: nb_sane_drive(4,5) Let_def)
qed

text \<open>
  C6. The bench of the non-blocking unit raises no false alarm: whenever its loop ends with a fault,
  thrown or undefined, for any unit, requests and random numbers, it passed through a state in which the outputs of the
  unit are to blame: a completion that was not due, a load without valid or with wrong data, or a misaligned access.
  In particular, the queue of the memory never overflows or answers late.
\<close>

theorem nblsu_no_false_alarm:
  assumes "nb_loop dut ports stale (nb_bench_init n d j r) = Inl e"
  shows "\<exists>s. bench_reach (nb_step dut ports stale) (nb_bench_init n d j r) s \<and> nb_step dut ports stale s = Inl e \<and>
    nb_blame (ports (nbb_dut s)) s"
proof -
  have "nb_sane (nb_bench_init n d j r)"
    by (auto simp: nb_sane_def nb_bench_init_def perfect_mem_init_def mshr_inv_def MSHR_DEPTH_def numeral_2_eq_2
        req_entry0_def case_prod_beta Let_def)
  then show ?thesis
    using nb_run.loop_fault [where I = nb_sane, OF assms] nb_step_outcome by blast
qed

text \<open>A unit that always reports a completion is blamed at the first edge after the reset.\<close>

definition rash_ports :: "bool \<Rightarrow> nblsu_out" where
  "rash_ports d = (echo_ports d)\<lparr>nbo_ls_done_o := True\<rparr>"

lemma rash_steps:
  "echo_state t False [echo_req] [] s \<Longrightarrow> t \<le> 100 \<Longrightarrow>
     \<exists>s'. nb_step echo_dut rash_ports stale s = Inr s' \<and> echo_state (Suc t) False [echo_req] [] s'"
  "echo_state 101 False [echo_req] [] s \<Longrightarrow>
     nb_step echo_dut rash_ports stale s = Inl (Undefined ''wait_que is empty'')"
  by (cases "t = 100"; cases "odd t"; auto simp: echo_state_def echo_simps rash_ports_def rp_done_def
      simp del: res_bind_Inr_iff res_map_Inr_iff res_bind_Inl_iff res_map_Inl_iff)+

lemma rash_loop:
  assumes "echo_state t False [echo_req] [] s" and "t \<le> 101"
  shows "nb_loop echo_dut rash_ports stale s = Inl (Undefined ''wait_que is empty'')"
  using assms
proof (induction "101 - t" arbitrary: t s)
  case 0
  then have "nbb_time s < NB_MAX_TIME \<and> \<not> rp_idle (nbb_core s)" "t = 101"
    by (auto simp: echo_state_def NB_MAX_TIME_def rp_idle_def)
  then show ?case using rash_steps(2) 0 nb_run.loop_step_fault by metis
next
  case (Suc k)
  then have go: "nbb_time s < NB_MAX_TIME \<and> \<not> rp_idle (nbb_core s)" "t \<le> 100"
    by (auto simp: echo_state_def NB_MAX_TIME_def rp_idle_def)
  obtain s1 where s1: "nb_step echo_dut rash_ports stale s = Inr s1" "echo_state (Suc t) False [echo_req] [] s1"
    using rash_steps(1) [OF Suc.prems(1) go(2)] by blast
  show ?case using nb_run.loop_step [OF go(1) s1(1)] Suc.hyps(1) [of "Suc t" s1] Suc.hyps(2) s1(2) go(2) by simp
qed

theorem nblsu_no_false_alarm_witness:
  "\<exists>s. bench_reach (nb_step echo_dut rash_ports (\<lambda>_. echo_req)) (nb_bench_init 1 False (False, False) (\<lambda>_. 0)) s \<and>
    nb_step echo_dut rash_ports (\<lambda>_. echo_req) s = Inl (Undefined ''wait_que is empty'') \<and>
    nb_blame (rash_ports (nbb_dut s)) s"
proof (rule nblsu_no_false_alarm)
  have "fst (nb_requests 1 (\<lambda>_. 0)) = [echo_req]"
    by (simp add: nb_draw_def rand_def echo_req_def)
  then have "echo_state 0 False [echo_req] [] (nb_bench_init 1 False (False, False) (\<lambda>_. 0))"
    unfolding echo_state_def nb_bench_init_def Let_def case_prod_beta
    by (auto simp: nb_reset_def perfect_mem_init_def)
  then show "nb_loop echo_dut rash_ports (\<lambda>_. echo_req) (nb_bench_init 1 False (False, False) (\<lambda>_. 0)) =
      Inl (Undefined ''wait_que is empty'')"
    by (rule rash_loop) simp
qed

end
