(* ===== verification/Fake_Dcache_Bench.thy ===== *)
theory Fake_Dcache_Bench
  imports Replay Bench_Loop
begin

text \<open>
  The bench of the load/store unit in front of a simulated data cache,
  \<open>sim/selfcheck/lsu_fake_dcache.cpp\<close>. It has one memory, the reference, and requests are replayed on it as in
  the other self-check benches. The last assertion names an undeclared variable, so the file compiles only
  with \<open>NDEBUG\<close>, which drops the assertions: this build is modelled. All its requests are byte stores, so no load is ever
  compared; and the loop that waits for late completions never evaluates the unit, so its outputs are
  those of the last evaluation. The theorem at the end gives the exact verdict. The Verilated unit is an argument of the model.
\<close>

section \<open>Ports of the unit\<close>

record fdc_in =
  fdi_clk :: bool
  fdi_rstn :: bool
  fdi_stall :: bool
  fdi_flush :: bool
  fdi_valid_i :: bool
  fdi_rob_index_i :: u8
  fdi_rd_addr_i :: u8
  fdi_rs1_data_i :: u64
  fdi_rs2_data_i :: u64
  fdi_imm_i :: u64
  fdi_opcode_i :: bool
  fdi_size_i :: u8
  fdi_load_sign_i :: bool

record fdc_out =
  fdo_load_data_valid_o :: bool
  fdo_load_data_o :: u64
  fdo_lsu_ready_o :: bool
  fdo_ls_done_o :: bool

definition fd_reset :: fdc_in where
  "fd_reset =
     \<lparr>fdi_clk = False, fdi_rstn = True, fdi_stall = False, fdi_flush = False, fdi_valid_i = False,
      fdi_rob_index_i = 1, fdi_rd_addr_i = 1, fdi_rs1_data_i = 0, fdi_rs2_data_i = 0, fdi_imm_i = 0,
      fdi_opcode_i = False, fdi_size_i = 0, fdi_load_sign_i = False\<rparr>"

section \<open>Requests\<close>

definition FD_MAX_TIME :: nat where "FD_MAX_TIME = 548000"
definition FD_RANDOM_TEST_NUM :: nat where "FD_RANDOM_TEST_NUM = 3"
definition FD_RST_TIME :: nat where "FD_RST_TIME = 600"

text \<open>
  The order of the two \<open>rand()\<close> of the constructor call is unspecified; as the sequence of their values is
  arbitrary, one order stands for both.
\<close>

definition fd_draw :: "rng \<Rightarrow> request \<times> rng" where
  "fd_draw r0 =
     (let (dat, r1) = rand r0; (off, r2) = rand r1; size = 0
      in (\<lparr>rq_data = of_nat dat, rq_address = ucast (ucast (push_bit size (of_nat off :: u32)) :: u16),
           rq_size = of_nat size, rq_sign = False, rq_opcode = True\<rparr>, r2))"

fun fd_requests :: "nat \<Rightarrow> rng \<Rightarrow> request list \<times> rng" where
  "fd_requests 0 r = ([], r)"
| "fd_requests (Suc n) r =
     (let (q, r1) = fd_draw r; (qs, r2) = fd_requests n r1 in (q # qs, r2))"

text \<open>The requests of a flush that the bench prepares and never sends.\<close>

definition fd_flush_reqs :: "request list" where
  "fd_flush_reqs =
     map (\<lambda>i. \<lparr>rq_data = 0, rq_address = push_bit 16 1 + ucast (push_bit 2 (of_nat i) :: u16),
               rq_size = 2, rq_sign = False, rq_opcode = False\<rparr>) [0..<PERFECT_MEM_MAX_SIZE]"

section \<open>State\<close>

record 'd fake_bench =
  fdb_time :: nat
  fdb_in :: fdc_in
  fdb_dut :: 'd
  fdb_core :: replay_core
  fdb_flush_que :: "request list"

text \<open>
  \<open>n\<close> is the number of requests and \<open>fl\<close> the requests of the flush (\<open>FD_RANDOM_TEST_NUM\<close> and
  \<open>fd_flush_reqs\<close> in the program), \<open>j\<close> stands for the uninitialised flags of the memory.
\<close>

definition fd_bench_init :: "nat \<Rightarrow> request list \<Rightarrow> 'd \<Rightarrow> bool \<times> bool \<Rightarrow> rng \<Rightarrow> 'd fake_bench" where
  "fd_bench_init n fl d j r =
     \<lparr>fdb_time = 0, fdb_in = fd_reset, fdb_dut = d,
      fdb_core = \<lparr>rp_req_que = fst (fd_requests n r), rp_wait_que = [],
                  rp_correct = perfect_mem_init False (fst j) (snd j), rp_test_cnt = 0\<rparr>,
      fdb_flush_que = fl\<rparr>"

section \<open>The main loop\<close>

definition fd_clock :: "'d fake_bench \<Rightarrow> 'd fake_bench" where
  "fd_clock s = s\<lparr>fdb_in := (fdb_in s)\<lparr>fdi_clk := odd (fdb_time s)\<rparr>\<rparr>"

definition fd_rst :: "'d fake_bench \<Rightarrow> 'd fake_bench" where
  "fd_rst s =
     (if fdb_time s = FD_RST_TIME then s\<lparr>fdb_in := (fdb_in s)\<lparr>fdi_rstn := False\<rparr>\<rparr> else s)"

text \<open>
  \<open>req_que.front()\<close> of an empty queue is only read here, for pins that go with \<open>valid_i = 0\<close>: undefined in C++, in practice the
  bytes of an earlier element, so the value is an argument \<open>stale\<close> and the theorems hold for all of its values. With \<open>wait_que\<close> it is
  different: its front is not only read but popped, which breaks the queue itself; an empty \<open>wait_que\<close> is a fault.
\<close>

definition fd_drive :: "request \<Rightarrow> 'd fake_bench \<Rightarrow> 'd fake_bench" where
  "fd_drive stale s =
     (let q = front_or stale (rp_req_que (fdb_core s)) in
      s\<lparr>fdb_in := (fdb_in s)\<lparr>fdi_valid_i := rp_req_que (fdb_core s) \<noteq> [],
          fdi_rs1_data_i := ucast (rq_address q), fdi_opcode_i := rq_opcode q,
          fdi_rs2_data_i := rq_data q, fdi_size_i := rq_size q, fdi_load_sign_i := rq_sign q\<rparr>\<rparr>)"

definition fd_done :: "fdc_out \<Rightarrow> 'd fake_bench \<Rightarrow> 'd fake_bench res" where
  "fd_done p s =
     (if fdo_ls_done_o p then
        res_map (\<lambda>c. s\<lparr>fdb_core := c\<rparr>)
          (rp_done ''fake_lsu_dcache'' check_low (fdo_load_data_valid_o p) (fdo_load_data_o p) (fdb_core s))
      else Inr s)"

definition fd_evals :: "(fdc_in \<Rightarrow> 'd \<Rightarrow> 'd) \<Rightarrow> 'd fake_bench \<Rightarrow> 'd fake_bench res" where
  "fd_evals dut s0 =
     (let s = s0\<lparr>fdb_dut := dut (fdb_in s0) (fdb_dut s0)\<rparr> in
      if odd (fdb_time s) then
        res_map (\<lambda>m. s\<lparr>fdb_core := (fdb_core s)\<lparr>rp_correct := m\<rparr>\<rparr>) (pm_eval (rp_correct (fdb_core s)))
      else Inr s)"

definition fd_req_in :: "fdc_out \<Rightarrow> 'd fake_bench \<Rightarrow> 'd fake_bench" where
  "fd_req_in p s = (if fdo_lsu_ready_o p then s\<lparr>fdb_core := rp_accept (fdb_core s)\<rparr> else s)"

definition fd_step ::
    "(fdc_in \<Rightarrow> 'd \<Rightarrow> 'd) \<Rightarrow> ('d \<Rightarrow> fdc_out) \<Rightarrow> (nat \<Rightarrow> request) \<Rightarrow> 'd fake_bench \<Rightarrow> 'd fake_bench res" where
  "fd_step dut ports stale s0 =
     (let s = fd_rst (fd_clock s0); running = FD_RST_TIME + 100 \<le> fdb_time s in
      res_bind
        (if running then
           (let s1 = fd_drive (stale (fdb_time s)) s in
            if odd (fdb_time s) then fd_done (ports (fdb_dut s)) s1 else Inr s1)
         else Inr s)
        (\<lambda>s2. res_map (\<lambda>s3.
           (let s4 = (if odd (fdb_time s3) \<and> running then fd_req_in (ports (fdb_dut s3)) s3 else s3)
            in s4\<lparr>fdb_time := fdb_time s4 + 1\<rparr>))
           (fd_evals dut s2)))"

lemma fd_parts_same:
  "fdb_time (fd_clock s) = fdb_time s" "fdb_time (fd_rst s) = fdb_time s" "fdb_time (fd_drive q s) = fdb_time s"
  "fdb_time (fd_req_in p s) = fdb_time s" "fdb_core (fd_clock s) = fdb_core s" "fdb_core (fd_rst s) = fdb_core s"
  "fdb_core (fd_drive q s) = fdb_core s" "fdb_dut (fd_clock s) = fdb_dut s" "fdb_dut (fd_rst s) = fdb_dut s"
  "fdb_dut (fd_drive q s) = fdb_dut s"
  by (auto simp: fd_clock_def fd_rst_def fd_drive_def fd_req_in_def Let_def)

lemma fd_calls_time:
  "fd_done p s = Inr s' \<Longrightarrow> fdb_time s' = fdb_time s" "fd_evals dut s = Inr s' \<Longrightarrow> fdb_time s' = fdb_time s"
  by (auto simp: fd_done_def fd_evals_def Let_def split: if_splits)

lemma fd_step_time: "fd_step dut ports stale s = Inr s' \<Longrightarrow> fdb_time s' = Suc (fdb_time s)"
  by (auto simp: fd_step_def Let_def fd_parts_same fd_calls_time split: if_splits)

function fd_loop ::
    "(fdc_in \<Rightarrow> 'd \<Rightarrow> 'd) \<Rightarrow> ('d \<Rightarrow> fdc_out) \<Rightarrow> (nat \<Rightarrow> request) \<Rightarrow> 'd fake_bench \<Rightarrow> 'd fake_bench res" where
  "fd_loop dut ports stale s =
     (if fdb_time s < FD_MAX_TIME \<and> \<not> rp_idle (fdb_core s) then
        (case fd_step dut ports stale s of Inl e \<Rightarrow> Inl e | Inr s' \<Rightarrow> fd_loop dut ports stale s')
      else Inr s)"
  by pat_completeness auto
termination
  by (relation "measure (\<lambda>(_, _, _, s). FD_MAX_TIME - fdb_time s)") (auto dest: fd_step_time)

declare fd_loop.simps [simp del]

section \<open>The wait loop\<close>

text \<open>
  A hundred more units of time: the pins are driven and completions handled, but neither the unit nor
  the memory is evaluated.
\<close>

definition fd_wait_step :: "('d \<Rightarrow> fdc_out) \<Rightarrow> (nat \<Rightarrow> request) \<Rightarrow> 'd fake_bench \<Rightarrow> 'd fake_bench res" where
  "fd_wait_step ports stale s0 =
     (let s = fd_drive (stale (fdb_time s0)) (fd_clock s0) in
      res_map (\<lambda>s1. s1\<lparr>fdb_time := fdb_time s1 + 1\<rparr>)
        (if odd (fdb_time s) then fd_done (ports (fdb_dut s)) s else Inr s))"

fun fd_wait :: "nat \<Rightarrow> ('d \<Rightarrow> fdc_out) \<Rightarrow> (nat \<Rightarrow> request) \<Rightarrow> 'd fake_bench \<Rightarrow> 'd fake_bench res" where
  "fd_wait 0 ports stale s = Inr s"
| "fd_wait (Suc n) ports stale s = res_bind (fd_wait_step ports stale s) (fd_wait n ports stale)"

text \<open>
  The whole program. The handler of an exception deletes the unit and the memory, and control goes on
  to code that uses and deletes them again.
\<close>

definition fd_main ::
    "(fdc_in \<Rightarrow> 'd \<Rightarrow> 'd) \<Rightarrow> ('d \<Rightarrow> fdc_out) \<Rightarrow> (nat \<Rightarrow> request) \<Rightarrow> 'd fake_bench \<Rightarrow> self_outcome res" where
  "fd_main dut ports stale s0 =
     (case res_bind (fd_loop dut ports stale s0) (fd_wait 100 ports stale) of
        Inl (Throw msg) \<Rightarrow> Inl (Undefined ''use of a deleted object'')
      | Inl e \<Rightarrow> Inl e
      | Inr s \<Rightarrow> Inr Self_done)"

interpretation fd_run: bench_loop "fd_step dut ports stale" "fd_loop dut ports stale"
  "\<lambda>s. fdb_time s < FD_MAX_TIME \<and> \<not> rp_idle (fdb_core s)" fdb_time FD_MAX_TIME
  for dut ports stale
  by unfold_locales (auto simp: fd_step_time fd_loop.simps [of dut ports stale])

interpretation fake_replay: replay_bench "''fake_lsu_dcache''" check_low low_ok
  by unfold_locales (rule check_low_iff)

section \<open>No load is compared\<close>

definition fd_stores :: "'d fake_bench \<Rightarrow> bool" where
  "fd_stores s \<longleftrightarrow> list_all rq_opcode (rp_wait_que (fdb_core s) @ rp_req_que (fdb_core s)) \<and>
     \<not> pm_random_return (rp_correct (fdb_core s))"

abbreviation none_waits :: fault where
  "none_waits \<equiv> Undefined ''wait_que is empty''"

lemma fd_stores_parts:
  "fd_stores (fd_clock s) = fd_stores s" "fd_stores (fd_rst s) = fd_stores s" "fd_stores (fd_drive q s) = fd_stores s"
  "fd_stores (s\<lparr>fdb_time := t\<rparr>) = fd_stores s" "fd_stores (fd_req_in p s) = fd_stores s"
  by (auto simp: fd_stores_def fd_parts_same fd_req_in_def rp_accept_def split: list.splits)

text \<open>A completion retires the oldest waiting store; without one it is undefined.\<close>

lemma fd_done_stores:
  assumes "fd_stores s"
  shows "fd_done p s = Inl e \<Longrightarrow> fdo_ls_done_o p \<and> rp_wait_que (fdb_core s) = [] \<and> e = none_waits"
    and "fd_done p s = Inr s' \<Longrightarrow> fd_stores s' \<and> fdb_dut s' = fdb_dut s \<and>
      length (rp_wait_que (fdb_core s)) = length (rp_wait_que (fdb_core s')) + (if fdo_ls_done_o p then 1 else 0)"
proof -
  show "fdo_ls_done_o p \<and> rp_wait_que (fdb_core s) = [] \<and> e = none_waits" if "fd_done p s = Inl e"
  proof -
    have run: "rp_done ''fake_lsu_dcache'' check_low (fdo_load_data_valid_o p) (fdo_load_data_o p) (fdb_core s) = Inl e"
      and report: "fdo_ls_done_o p"
      using that by (auto simp: fd_done_def split: if_splits)
    have "rp_wait_que (fdb_core s) = []"
      using fake_replay.rp_done_blame [OF run] assms by (auto simp: replay_blame_def fd_stores_def split: list.splits)
    then show ?thesis using run report by (auto simp: rp_done_def)
  qed
  show "fd_stores s' \<and> fdb_dut s' = fdb_dut s \<and>
      length (rp_wait_que (fdb_core s)) = length (rp_wait_que (fdb_core s')) + (if fdo_ls_done_o p then 1 else 0)"
    if ok: "fd_done p s = Inr s'"
  proof (cases "fdo_ls_done_o p")
    case True
    obtain c where c: "rp_done ''fake_lsu_dcache'' check_low (fdo_load_data_valid_o p) (fdo_load_data_o p) (fdb_core s) = Inr c"
      and s': "s' = s\<lparr>fdb_core := c\<rparr>"
      using ok True by (auto simp: fd_done_def)
    obtain q qs m where "rp_wait_que (fdb_core s) = q # qs"
      "c = (fdb_core s)\<lparr>rp_correct := m, rp_test_cnt := rp_test_cnt (fdb_core s) + 1, rp_wait_que := qs\<rparr>"
      using c by (auto simp: rp_done_def split: list.splits)
    then show ?thesis using assms rp_done_mode [OF c] True by (simp add: fd_stores_def s')
  next
    case False
    then show ?thesis using ok assms by (simp add: fd_done_def)
  qed
qed

lemma fd_evals_stores:
  assumes "fd_stores s"
  shows "\<exists>s'. fd_evals dut s = Inr s' \<and> fd_stores s'"
proof -
  obtain m where "pm_eval (rp_correct (fdb_core s)) = Inr m"
    using assms by (auto simp: pm_eval_def fd_stores_def)
  then show ?thesis using assms pm_ops_mode(3) by (simp add: fd_evals_def fd_stores_def Let_def)
qed

lemma fd_step_stores:
  assumes "fd_stores s"
  shows "fd_step dut ports stale s = Inl e \<Longrightarrow>
      fdo_ls_done_o (ports (fdb_dut s)) \<and> rp_wait_que (fdb_core s) = [] \<and> e = none_waits"
    and "fd_step dut ports stale s = Inr s' \<Longrightarrow> fd_stores s'"
proof -
  let ?s = "fd_rst (fd_clock s)"
  let ?d = "fd_drive (stale (fdb_time ?s)) ?s"
  let ?p = "ports (fdb_dut s)"
  have stores: "fd_stores ?s" "fd_stores ?d" using assms by (simp_all add: fd_stores_parts)
  define first where "first = (if FD_RST_TIME + 100 \<le> fdb_time ?s then
      if odd (fdb_time ?s) then fd_done ?p ?d else Inr ?d else Inr ?s)"
  have ok: "fd_stores s2" if "first = Inr s2" for s2
    using that stores fd_done_stores(2) [OF stores(2)] by (auto simp: first_def split: if_splits)
  have step: "fd_step dut ports stale s = res_bind first (\<lambda>s2. res_map (\<lambda>s3.
      (let s4 = (if odd (fdb_time s3) \<and> FD_RST_TIME + 100 \<le> fdb_time ?s then fd_req_in (ports (fdb_dut s3)) s3 else s3)
       in s4\<lparr>fdb_time := fdb_time s4 + 1\<rparr>)) (fd_evals dut s2))"
    by (simp add: fd_step_def first_def fd_parts_same Let_def)
  show "fdo_ls_done_o ?p \<and> rp_wait_que (fdb_core s) = [] \<and> e = none_waits" if "fd_step dut ports stale s = Inl e"
  proof -
    have "first = Inl e" using that fd_evals_stores [OF ok, of _ dut] unfolding step by fastforce
    then show ?thesis
      using fd_done_stores(1) [OF stores(2), of ?p e] by (auto simp: first_def fd_parts_same split: if_splits)
  qed
  show "fd_stores s'" if "fd_step dut ports stale s = Inr s'"
    using that fd_evals_stores [OF ok, of _ dut] unfolding step by (fastforce simp: fd_stores_parts Let_def)
qed

lemma odd_count: "length (filter odd [t..<t + 2 * k]) = k"
proof (induction k)
  case (Suc k)
  have "[t..<Suc (Suc (t + 2 * k))] = [t..<t + 2 * k] @ [t + 2 * k, Suc (t + 2 * k)]"
    by (simp only: upt_Suc_append le_add1 le_SucI append_assoc append.simps)
  then show ?case using Suc by (cases "odd t") simp_all
qed simp

text \<open>In the wait loop the outputs are frozen: each odd round retires one store or none does.\<close>

lemma fd_wait_frozen:
  assumes "fd_stores s"
  shows "if fdo_ls_done_o (ports (fdb_dut s)) \<and>
      length (rp_wait_que (fdb_core s)) < length (filter odd [fdb_time s..<fdb_time s + n])
    then fd_wait n ports stale s = Inl none_waits else \<exists>s'. fd_wait n ports stale s = Inr s'"
  using assms
proof (induction n arbitrary: s)
  case (Suc n)
  let ?t = "fdb_time s"
  let ?s = "fd_drive (stale ?t) (fd_clock s)"
  let ?done = "fdo_ls_done_o (ports (fdb_dut s))"
  have stores: "fd_stores ?s" using Suc.prems by (simp add: fd_stores_parts)
  have upt: "[?t..<?t + Suc n] = ?t # [Suc ?t..<Suc ?t + n]" by (simp add: upt_conv_Cons)
  show ?case
  proof (cases "odd ?t \<and> ?done \<and> rp_wait_que (fdb_core s) = []")
    case True
    then have "fd_wait_step ports stale s = Inl none_waits"
      by (simp add: fd_wait_step_def fd_parts_same fd_done_def rp_done_def)
    then show ?thesis unfolding upt using True by simp
  next
    case False
    let ?r = "if odd (fdb_time ?s) then fd_done (ports (fdb_dut ?s)) ?s else Inr ?s"
    obtain s1 where s1: "?r = Inr s1"
      using fd_done_stores(1) [OF stores] False by (cases ?r) (auto simp: fd_parts_same split: if_splits)
    have next_s: "fd_stores s1" "fdb_dut s1 = fdb_dut s" "fdb_time s1 = ?t"
      "length (rp_wait_que (fdb_core s)) = length (rp_wait_que (fdb_core s1)) + (if odd ?t \<and> ?done then 1 else 0)"
      using s1 stores fd_done_stores(2) [OF stores] fd_calls_time(1) [of _ ?s s1] by (auto simp: fd_parts_same split: if_splits)
    have "fd_wait_step ports stale s = Inr (s1\<lparr>fdb_time := Suc ?t\<rparr>)"
      using s1 next_s(3) by (simp add: fd_wait_step_def Let_def)
    then show ?thesis
      unfolding upt using Suc.IH [of "s1\<lparr>fdb_time := Suc ?t\<rparr>"] next_s by (auto simp: fd_stores_parts split: if_splits)
  qed
qed simp

lemma fd_requests_stores: "list_all rq_opcode (fst (fd_requests n r))"
  by (induction n arbitrary: r) (auto simp: fd_draw_def case_prod_beta Let_def)

text \<open>
  C18. The exact verdict of the bench, for every unit, whatever data it returns. The program ends with its message
  exactly when its main loop ends without a completion nobody waits for, and the unit's last outputs then
  report no completion (or fifty stores are still waiting when the time runs out): in the wait loop the outputs are frozen, so one that
  is still up is taken for one completion per cycle. In every other case it reads from an empty queue. It never throws:
  no data is compared.
\<close>

theorem fake_dcache_verdict:
  "fd_main dut ports stale (fd_bench_init n fl d j r) =
     (case fd_loop dut ports stale (fd_bench_init n fl d j r) of
        Inl e \<Rightarrow> Inl (Undefined ''wait_que is empty'')
      | Inr s \<Rightarrow>
          if fdo_ls_done_o (ports (fdb_dut s)) \<and> length (rp_wait_que (fdb_core s)) < 50
          then Inl (Undefined ''wait_que is empty'') else Inr Self_done)"
proof -
  have init: "fd_stores (fd_bench_init n fl d j r)"
    using fd_requests_stores [of n r] by (simp add: fd_stores_def fd_bench_init_def perfect_mem_init_def)
  show ?thesis
  proof (cases "fd_loop dut ports stale (fd_bench_init n fl d j r)")
    case (Inl e)
    then have "e = none_waits"
      using fd_run.loop_fault [where I = fd_stores, OF Inl init] fd_step_stores by metis
    then show ?thesis using Inl by (simp add: fd_main_def)
  next
    case (Inr s)
    then have "fd_stores s"
      using fd_run.loop_invariant [where I = fd_stores, OF Inr init] fd_step_stores(2) by blast
    then show ?thesis
      using fd_wait_frozen [of s ports 100 stale] odd_count [of "fdb_time s" 50] Inr
      by (auto simp: fd_main_def split: if_splits)
  qed
qed

text \<open>And the loop ends early only for units that report a completion while no request is waiting.\<close>

lemma fake_dcache_no_false_alarm:
  assumes "fd_loop dut ports stale (fd_bench_init n fl d j r) = Inl e"
  shows "\<exists>s. bench_reach (fd_step dut ports stale) (fd_bench_init n fl d j r) s \<and>
    fdo_ls_done_o (ports (fdb_dut s)) \<and> rp_wait_que (fdb_core s) = []"
proof -
  have "fd_stores (fd_bench_init n fl d j r)"
    using fd_requests_stores [of n r] by (simp add: fd_stores_def fd_bench_init_def perfect_mem_init_def)
  from fd_run.loop_fault [where I = fd_stores, OF assms this] show ?thesis
    using fd_step_stores by blast
qed

end
