(* ===== verification/Magic_Memory.thy ===== *)
theory Magic_Memory
  imports Prelude
begin

unbundle bit_operations_syntax

text \<open>
  The memory of the whole-core simulator, \<open>sim/memory.hpp\<close> and \<open>sim/memory.cpp\<close>, with the console
  device of \<open>sim/simulator.cpp\<close>: address ranges with a read and a write handler each, a two-phase
  bus handshake for data and for instructions, and the loader that copies the segments of an ELF
  file into the memory. The handlers are closures over arrays on the heap and over the console:
  these are an explicit store. What libelf answers about a file is an argument of the loader.
\<close>

section \<open>The store and the handlers\<close>

text \<open>
  \<open>wd_heap\<close> holds the arrays the handlers point to, as 32-bit words; an incomplete last word
  cannot be accessed. \<open>wd_console\<close> is what was printed.
\<close>

record world =
  wd_heap :: "u32 list list"
  wd_console :: "u8 list"

record handler =
  h_start :: u32
  h_length :: u32
  h_read :: "u32 \<Rightarrow> world \<Rightarrow> u32 res"
  h_write :: "u32 \<Rightarrow> u32 \<Rightarrow> u8 \<Rightarrow> world \<Rightarrow> world res"

text \<open>The handlers of a memory region, over array \<open>k\<close> of the heap.\<close>

definition ram_read :: "nat \<Rightarrow> u32 \<Rightarrow> world \<Rightarrow> u32 res" where
  "ram_read k address w =
     (let i = unat address div 4 in
      if i < length (wd_heap w ! k) then Inr (wd_heap w ! k ! i)
      else Inl (Undefined ''data read past its end''))"

definition strobe_merge :: "u8 \<Rightarrow> u32 \<Rightarrow> u32 \<Rightarrow> u32" where
  "strobe_merge strobe write_data old =
     fold (\<lambda>i new_data.
       if strobe AND push_bit i 1 \<noteq> 0
       then (new_data AND NOT (push_bit (8 * i) 0xff)) OR (push_bit (8 * i) 0xff AND write_data)
       else new_data) [0..<4] old"

definition ram_write :: "nat \<Rightarrow> u32 \<Rightarrow> u32 \<Rightarrow> u8 \<Rightarrow> world \<Rightarrow> world res" where
  "ram_write k address write_data strobe w =
     (let i = unat address div 4; data = wd_heap w ! k in
      if i < length data then
        Inr (w\<lparr>wd_heap := (wd_heap w)[k := data[i := strobe_merge strobe write_data (data ! i)]]\<rparr>)
      else Inl (Undefined ''data written past its end''))"

definition ram_handler :: "nat \<Rightarrow> u32 \<Rightarrow> u32 \<Rightarrow> handler" where
  "ram_handler k start len =
     \<lparr>h_start = start, h_length = len, h_read = ram_read k, h_write = ram_write k\<rparr>"

text \<open>The console of \<open>addHandlers\<close>: reads give 0, a write of byte 0 prints it.\<close>

definition console_write :: "u32 \<Rightarrow> u32 \<Rightarrow> u8 \<Rightarrow> world \<Rightarrow> world res" where
  "console_write address data strobe w =
     Inr (if strobe AND 1 \<noteq> 0 then w\<lparr>wd_console := wd_console w @ [ucast (data AND 0xff)]\<rparr> else w)"

definition console :: handler where
  "console =
     \<lparr>h_start = 0x10000000, h_length = 4, h_read = (\<lambda>a w. Inr 0), h_write = console_write\<rparr>"

section \<open>State and bus\<close>

text \<open>
  \<open>MagicMemory\<close> with the store its handlers share, the numbers \<open>rand()\<close> returns, and the two
  function-local \<open>static bool finish\<close>.
\<close>

record magic_memory =
  mm_mapping :: "handler list"
  mm_d_wait :: int
  mm_i_wait :: int
  mm_d_finish :: bool
  mm_i_finish :: bool
  mm_world :: world
  mm_rng :: rng

text \<open>The outputs of the core on one of its two buses, and its inputs.\<close>

record wb_out =
  wb_cyc_o :: bool
  wb_adr_o :: u32
  wb_we_o :: bool
  wb_dat_o :: u32
  wb_sel_o :: u8

record wb_in =
  wb_ack_i :: bool
  wb_dat_i :: u32

definition addHandler :: "handler \<Rightarrow> magic_memory \<Rightarrow> magic_memory" where
  "addHandler h mm = mm\<lparr>mm_mapping := mm_mapping mm @ [h]\<rparr>"

text \<open>\<open>junk\<close> is what the new array contains: it is not initialised. The result is its number.\<close>

definition addRamHandler :: "u32 \<Rightarrow> u32 \<Rightarrow> (nat \<Rightarrow> u32) \<Rightarrow> magic_memory \<Rightarrow> nat \<times> magic_memory" where
  "addRamHandler start len junk mm =
     (let k = length (wd_heap (mm_world mm));
          w = (mm_world mm)\<lparr>wd_heap := wd_heap (mm_world mm) @ [map junk [0..<unat len div 4]]\<rparr>
      in (k, addHandler (ram_handler k start len) (mm\<lparr>mm_world := w\<rparr>)))"

definition generate_latency :: "rng \<Rightarrow> int \<times> rng" where
  "generate_latency r = (let (v, r') = rand r in (int v mod 1 + 0, r'))"

definition in_range :: "u32 \<Rightarrow> handler \<Rightarrow> bool" where
  "in_range address h \<longleftrightarrow> h_start h \<le> address \<and> address < h_start h + h_length h"

definition D_request :: "wb_out \<Rightarrow> magic_memory \<Rightarrow> wb_in \<Rightarrow> (magic_memory \<times> wb_in) res" where
  "D_request q mm p0 =
     (let p = p0\<lparr>wb_ack_i := False\<rparr> in
      if mm_d_wait mm \<noteq> 0 then Inr (mm\<lparr>mm_d_wait := mm_d_wait mm - 1\<rparr>, p)
      else if wb_cyc_o q then
        if \<not> mm_d_finish mm then
          (let mm1 = mm\<lparr>mm_d_finish := True\<rparr>; address = wb_adr_o q in
           case find (in_range address) (mm_mapping mm1) of
             None \<Rightarrow> Inr (mm1, p)
           | Some h \<Rightarrow>
               (let (lat, r) = generate_latency (mm_rng mm1); mm2 = mm1\<lparr>mm_d_wait := lat, mm_rng := r\<rparr> in
                if \<not> wb_we_o q then
                  res_map (\<lambda>d. (mm2, p\<lparr>wb_dat_i := d\<rparr>)) (h_read h (address - h_start h) (mm_world mm1))
                else
                  res_map (\<lambda>w. (mm2\<lparr>mm_world := w\<rparr>, p))
                    (h_write h (address - h_start h) (wb_dat_o q) (wb_sel_o q) (mm_world mm1))))
        else Inr (mm\<lparr>mm_d_finish := False\<rparr>, p\<lparr>wb_ack_i := True\<rparr>)
      else Inr (mm, p))"

text \<open>A write on the instruction bus prints an error and is acknowledged like a read.\<close>

definition I_request :: "wb_out \<Rightarrow> magic_memory \<Rightarrow> wb_in \<Rightarrow> (magic_memory \<times> wb_in) res" where
  "I_request q mm p0 =
     (let p = p0\<lparr>wb_ack_i := False\<rparr> in
      if mm_i_wait mm \<noteq> 0 then Inr (mm\<lparr>mm_i_wait := mm_i_wait mm - 1\<rparr>, p)
      else if wb_cyc_o q then
        if \<not> mm_i_finish mm then
          (let mm1 = mm\<lparr>mm_i_finish := True\<rparr>; address = wb_adr_o q in
           if \<not> wb_we_o q then
             case find (in_range address) (mm_mapping mm1) of
               None \<Rightarrow> Inr (mm1, p)
             | Some h \<Rightarrow>
                 (let (lat, r) = generate_latency (mm_rng mm1) in
                  res_map (\<lambda>d. (mm1\<lparr>mm_i_wait := lat, mm_rng := r\<rparr>, p\<lparr>wb_dat_i := d\<rparr>))
                    (h_read h (address - h_start h) (mm_world mm1)))
           else Inr (mm1, p))
        else Inr (mm\<lparr>mm_i_finish := False\<rparr>, p\<lparr>wb_ack_i := True\<rparr>)
      else Inr (mm, p))"

section \<open>The ELF loader\<close>

text \<open>
  What libelf and the file system answer: whether each call succeeds, the three fields of the
  header that are tested, and for every program header its fields and the words of its file
  chunk (\<open>None\<close> for a null pointer).
\<close>

record elf_phdr =
  p_load :: bool
  p_offset :: u64
  p_paddr :: u64
  p_filesz :: u64

record elf_file =
  ef_open :: bool
  ef_version :: bool
  ef_begin :: bool
  ef_kind_elf :: bool
  ef_ehdr :: "(bool \<times> bool \<times> bool) option"
  ef_phnum :: "nat option"
  ef_phdr :: "nat \<Rightarrow> elf_phdr option"
  ef_rawchunk :: "u64 \<Rightarrow> u64 \<Rightarrow> u32 list option"

text \<open>\<open>for (size_t i = copy_start; i < copy_end; i += 4)\<close>; \<open>copy_end\<close> is below 2^32, so \<open>i\<close> does not wrap.\<close>

function copy_loop :: "nat \<Rightarrow> nat \<Rightarrow> nat \<Rightarrow> nat \<Rightarrow> u32 list \<Rightarrow> u32 list \<Rightarrow> u32 list res" where
  "copy_loop i copy_end start paddr raw data =
     (if i < copy_end then
        (let k = (i - start) div 4; l = (i - paddr) div 4 in
         if k < length data \<and> l < length raw
         then copy_loop (i + 4) copy_end start paddr raw (data[k := data ! k OR raw ! l])
         else Inl (Undefined ''copy past the end of an array''))
      else Inr data)"
  by pat_completeness auto
termination by (relation "measure (\<lambda>(i, e, _). e - i)") auto

declare copy_loop.simps [simp del]

text \<open>\<open>start + length\<close> is computed with 32 bits, the bounds of the segment with 64.\<close>

definition load_segment :: "elf_file \<Rightarrow> u32 \<Rightarrow> u32 \<Rightarrow> elf_phdr \<Rightarrow> u32 list \<Rightarrow> u32 list res" where
  "load_segment f start len ph data =
     (let top = ucast (start + len) :: u64; bot = ucast start :: u64 in
      if p_load ph \<and> p_paddr ph < top \<and> p_paddr ph + p_filesz ph > bot then
        (case ef_rawchunk f (p_offset ph) (p_filesz ph) of
           None \<Rightarrow> Inl (Undefined ''null pointer dereferenced'')
         | Some raw \<Rightarrow>
             copy_loop (unat (max (p_paddr ph) bot)) (unat (min (p_paddr ph + p_filesz ph) top))
               (unat bot) (unat (p_paddr ph)) raw data)
      else Inr data)"

text \<open>The loop over the program headers; \<open>None\<close> is the early \<open>return false\<close>.\<close>

fun load_phdrs :: "elf_file \<Rightarrow> u32 \<Rightarrow> u32 \<Rightarrow> nat list \<Rightarrow> u32 list \<Rightarrow> u32 list option res" where
  "load_phdrs f start len [] data = Inr (Some data)"
| "load_phdrs f start len (i # is) data =
     (case ef_phdr f i of
        None \<Rightarrow> Inr None
      | Some ph \<Rightarrow> res_bind (load_segment f start len ph data) (load_phdrs f start len is))"

definition loadFromElfFile :: "elf_file \<Rightarrow> u32 list \<Rightarrow> u32 \<Rightarrow> u32 \<Rightarrow> u32 list option res" where
  "loadFromElfFile f data start len =
     (if \<not> ef_open f \<or> \<not> ef_version f \<or> \<not> ef_begin f \<or> \<not> ef_kind_elf f then Inr None
      else case ef_ehdr f of
        None \<Rightarrow> Inr None
      | Some (class64, riscv, exec) \<Rightarrow>
          if \<not> class64 \<or> \<not> riscv \<or> \<not> exec then Inr None
          else case ef_phnum f of
            None \<Rightarrow> Inr None
          | Some n \<Rightarrow> load_phdrs f start len [0..<n] data)"

section \<open>Byte strobes\<close>

lemma bit_merge_step:
  fixes old d :: u32
  assumes "i < 4"
  shows "bit ((old AND NOT (push_bit (8 * i) 0xff)) OR (push_bit (8 * i) 0xff AND d)) k \<longleftrightarrow>
    (if k div 8 = i then bit d k else bit old k)"
proof -
  have "8 * i \<le> k \<and> k < 8 * i + 8 \<longleftrightarrow> k div 8 = i" by auto
  then show ?thesis using assms
    by (auto simp: bit_simps byte_mask dest: bit_imp_le_length)
qed

lemma strobe_bit: "i < 4 \<Longrightarrow> (strobe::u8) AND push_bit i 1 \<noteq> 0 \<longleftrightarrow> bit strobe i"
  using and_exp_eq_0_iff_not_bit [of strobe i] by (simp add: push_bit_of_1)

lemma bit_strobe_merge:
  "bit (strobe_merge strobe d old) k \<longleftrightarrow>
     (if k < 32 \<and> bit strobe (k div 8) then bit d k else bit old k)"
proof -
  define f where "f i new_data =
      (if strobe AND push_bit i 1 \<noteq> 0
       then (new_data AND NOT (push_bit (8 * i) 0xff)) OR (push_bit (8 * i) 0xff AND d)
       else new_data)" for i and new_data :: u32
  have step: "bit (f i x) k \<longleftrightarrow> (if k div 8 = i \<and> bit strobe i then bit d k else bit x k)" if "i < 4" for i x
    using bit_merge_step [OF that, of x d k] strobe_bit [OF that, of strobe] by (simp add: f_def)
  have "n \<le> 4 \<Longrightarrow> bit (fold f [0..<n] old) k \<longleftrightarrow>
      (if k div 8 < n \<and> bit strobe (k div 8) then bit d k else bit old k)" for n
  proof (induction n)
    case (Suc n)
    then show ?case using step [of n "fold f [0..<n] old"] by (auto simp: less_Suc_eq)
  qed simp
  from this [of 4] have "bit (strobe_merge strobe d old) k \<longleftrightarrow>
      (if k div 8 < 4 \<and> bit strobe (k div 8) then bit d k else bit old k)"
    unfolding strobe_merge_def f_def [abs_def] by simp
  moreover have "k div 8 < 4 \<longleftrightarrow> k < 32" by auto
  ultimately show ?thesis by simp
qed

section \<open>Well-formed memories\<close>

text \<open>
  Every range is the console, or a region whose length is a multiple of the word size and whose
  array has that many words.
\<close>

definition handler_wf :: "world \<Rightarrow> handler \<Rightarrow> bool" where
  "handler_wf w h \<longleftrightarrow>
     h = console \<or>
     (\<exists>k. h = ram_handler k (h_start h) (h_length h) \<and> k < length (wd_heap w) \<and>
        4 dvd unat (h_length h) \<and> length (wd_heap w ! k) = unat (h_length h) div 4)"

definition mm_wf :: "magic_memory \<Rightarrow> bool" where
  "mm_wf mm \<longleftrightarrow>
     list_all (handler_wf (mm_world mm)) (mm_mapping mm) \<and> mm_d_wait mm = 0 \<and> mm_i_wait mm = 0"

definition same_shape :: "world \<Rightarrow> world \<Rightarrow> bool" where
  "same_shape w w' \<longleftrightarrow> map length (wd_heap w') = map length (wd_heap w)"

lemma handler_wf_shape:
  assumes "same_shape w w'" and "handler_wf w h"
  shows "handler_wf w' h"
proof -
  have len: "length (wd_heap w') = length (wd_heap w)"
    using assms(1) unfolding same_shape_def by (metis length_map)
  have "k < length (wd_heap w) \<Longrightarrow> length (wd_heap w' ! k) = length (wd_heap w ! k)" for k
    using assms(1) len unfolding same_shape_def by (metis nth_map)
  then show ?thesis using assms(2) len by (auto simp: handler_wf_def)
qed

text \<open>
  An address that a range admits lies inside its array. A range whose end wraps around admits no
  address at all.
\<close>

lemma in_range_offset:
  assumes "in_range a h"
  shows "unat (a - h_start h) < unat (h_length h)"
proof -
  have le: "unat (h_start h) \<le> unat a" and lt: "unat a < unat (h_start h + h_length h)"
    using assms by (simp_all add: in_range_def word_le_nat_alt word_less_nat_alt)
  have "unat (h_start h + h_length h) \<le> unat (h_start h) + unat (h_length h)"
    by (simp add: unat_word_ariths)
  then show ?thesis using le lt by (simp add: unat_sub_if')
qed

lemma in_range_word:
  assumes "in_range a h" and "4 dvd unat (h_length h)"
  shows "unat (a - h_start h) div 4 < unat (h_length h) div 4"
proof -
  obtain q where "unat (h_length h) = 4 * q" using assms(2) by (rule dvdE)
  then show ?thesis using in_range_offset [OF assms(1)] by (simp add: less_mult_imp_div_less mult.commute)
qed

lemma handler_accesses:
  assumes "handler_wf w h" and "in_range a h"
  shows "\<exists>d. h_read h (a - h_start h) w = Inr d"
    and "\<exists>w'. h_write h (a - h_start h) d s w = Inr w' \<and> same_shape w w'"
proof -
  have "(\<exists>d. h_read h (a - h_start h) w = Inr d) \<and>
      (\<exists>w'. h_write h (a - h_start h) d s w = Inr w' \<and> same_shape w w')"
  proof (cases "h = console")
    case True
    then show ?thesis by (simp add: console_def console_write_def same_shape_def)
  next
    case False
    then obtain k where k: "h = ram_handler k (h_start h) (h_length h)" "k < length (wd_heap w)"
      "4 dvd unat (h_length h)" "length (wd_heap w ! k) = unat (h_length h) div 4"
      using assms(1) by (auto simp: handler_wf_def)
    have "unat (a - h_start h) div 4 < length (wd_heap w ! k)"
      using in_range_word [OF assms(2) k(3)] k(4) by simp
    moreover have "h_read h = ram_read k" "h_write h = ram_write k"
      using arg_cong [OF k(1), of h_read] arg_cong [OF k(1), of h_write] by (simp_all add: ram_handler_def)
    moreover have "map length ((wd_heap w)[k := (wd_heap w ! k)[i := v]]) = map length (wd_heap w)" for i v
      using k(2) by (simp add: map_update list_update_same_conv)
    ultimately show ?thesis
      by (simp add: ram_read_def ram_write_def same_shape_def Let_def)
  qed
  then show "\<exists>d. h_read h (a - h_start h) w = Inr d"
    and "\<exists>w'. h_write h (a - h_start h) d s w = Inr w' \<and> same_shape w w'" by blast+
qed

lemma latency_zero: "generate_latency r = (0, snd (rand r))"
  by (simp add: generate_latency_def case_prod_beta)

lemma find_mapping_wf:
  assumes "mm_wf mm" and "find (in_range a) (mm_mapping mm) = Some h"
  shows "handler_wf (mm_world mm) h" and "in_range a h"
  using assms by (auto simp: mm_wf_def list_all_iff find_Some_iff)

lemma D_request_wf:
  assumes "mm_wf mm"
  shows "\<exists>mm' p'. D_request q mm p = Inr (mm', p') \<and> mm_wf mm'"
proof (cases "wb_cyc_o q \<and> \<not> mm_d_finish mm")
  case False
  then show ?thesis using assms by (auto simp: D_request_def mm_wf_def Let_def)
next
  case True
  show ?thesis
  proof (cases "find (in_range (wb_adr_o q)) (mm_mapping mm)")
    case None
    then show ?thesis using assms True by (simp add: D_request_def mm_wf_def Let_def)
  next
    case (Some h)
    note h = find_mapping_wf [OF assms Some]
    obtain d where d: "h_read h (wb_adr_o q - h_start h) (mm_world mm) = Inr d"
      using handler_accesses(1) [OF h] by blast
    obtain w where w: "h_write h (wb_adr_o q - h_start h) (wb_dat_o q) (wb_sel_o q) (mm_world mm) = Inr w"
      "same_shape (mm_world mm) w"
      using handler_accesses(2) [OF h] by blast
    have "list_all (handler_wf w) (mm_mapping mm)"
      using assms handler_wf_shape [OF w(2)] by (auto simp: mm_wf_def list_all_iff)
    then show ?thesis
      using assms True Some d w(1) by (simp add: D_request_def mm_wf_def latency_zero Let_def)
  qed
qed

lemma I_request_wf:
  assumes "mm_wf mm"
  shows "\<exists>mm' p'. I_request q mm p = Inr (mm', p') \<and> mm_wf mm' \<and> mm_world mm' = mm_world mm"
proof (cases "find (in_range (wb_adr_o q)) (mm_mapping mm)")
  case None
  then show ?thesis using assms by (simp add: I_request_def mm_wf_def Let_def)
next
  case (Some h)
  obtain d where d: "h_read h (wb_adr_o q - h_start h) (mm_world mm) = Inr d"
    using handler_accesses(1) [OF find_mapping_wf [OF assms Some]] by blast
  then show ?thesis using assms Some by (simp add: I_request_def mm_wf_def latency_zero Let_def)
qed

section \<open>The loader\<close>

text \<open>Copying whole words \<open>o\<close> onwards: word \<open>i\<close> of the chunk is or-ed to word \<open>o + i\<close> of the array.\<close>

definition or_words :: "nat \<Rightarrow> u32 list \<Rightarrow> u32 list \<Rightarrow> u32 list" where
  "or_words off raw data =
     map (\<lambda>k. if off \<le> k \<and> k < off + length raw then data ! k OR raw ! (k - off) else data ! k) [0..<length data]"

lemma copy_loop_words:
  assumes "m \<le> length raw" and "off + length raw \<le> length data"
  shows "copy_loop (start + 4 * off + 4 * m) (start + 4 * off + 4 * length raw) start (start + 4 * off) raw data =
    Inr (map (\<lambda>k. if off + m \<le> k \<and> k < off + length raw then data ! k OR raw ! (k - off) else data ! k) [0..<length data])"
  using assms
proof (induction "length raw - m" arbitrary: m data)
  case 0
  then have "m = length raw" by simp
  moreover have "(\<lambda>k. if off + length raw \<le> k \<and> k < off + length raw then data ! k OR raw ! (k - off) else data ! k) =
      (\<lambda>k. data ! k)" by (auto simp: fun_eq_iff)
  ultimately show ?case by (simp add: copy_loop.simps map_nth)
next
  case (Suc n)
  let ?data = "data[off + m := data ! (off + m) OR raw ! m]"
  have lt: "m < length raw" using Suc.hyps(2) by simp
  have "copy_loop (start + 4 * off + 4 * m) (start + 4 * off + 4 * length raw) start (start + 4 * off) raw data =
      copy_loop (start + 4 * off + 4 * Suc m) (start + 4 * off + 4 * length raw) start (start + 4 * off) raw ?data"
    using lt Suc.prems(2) by (subst copy_loop.simps) (simp add: Let_def algebra_simps)
  also have "\<dots> = Inr (map (\<lambda>k. if off + Suc m \<le> k \<and> k < off + length raw then ?data ! k OR raw ! (k - off) else ?data ! k)
      [0..<length ?data])"
    by (rule Suc.hyps(1)) (use Suc in auto)
  also have "\<dots> = Inr (map (\<lambda>k. if off + m \<le> k \<and> k < off + length raw then data ! k OR raw ! (k - off) else data ! k)
      [0..<length data])"
    using lt Suc.prems(2) by (auto simp: nth_list_update)
  finally show ?case .
qed

lemma load_segment_words:
  assumes "p_load ph" and "ef_rawchunk f (p_offset ph) (p_filesz ph) = Some raw"
    and "unat (p_paddr ph) = unat start + 4 * off" and "unat (p_filesz ph) = 4 * length raw"
    and "off + length raw \<le> length data" and "4 * length data \<le> unat len"
    and "unat start + unat len < 2 ^ 32" and "raw \<noteq> []"
  shows "load_segment f start len ph data = Inr (or_words off raw data)"
proof -
  have st: "unat (ucast start :: u64) = unat start" "unat (ucast (start + len) :: u64) = unat start + unat len"
    using assms(7) by (simp_all add: unat_ucast_32_64 unat_word_ariths)
  have end_le: "unat start + 4 * off + 4 * length raw \<le> unat start + unat len"
    using assms(5,6) by linarith
  have hi: "unat (p_paddr ph + p_filesz ph) = unat start + 4 * off + 4 * length raw"
  proof -
    have "unat (p_paddr ph) + unat (p_filesz ph) < 2 ^ 64"
      using assms(3,4,7) end_le by simp
    then show ?thesis using assms(3,4) by (simp add: unat_word_ariths)
  qed
  have pos: "0 < length raw" using assms(8) by simp
  have ge: "ucast start \<le> p_paddr ph" and lt: "p_paddr ph < ucast (start + len)"
    and gt: "ucast start < p_paddr ph + p_filesz ph" and le: "p_paddr ph + p_filesz ph \<le> ucast (start + len)"
    unfolding word_le_nat_alt word_less_nat_alt st hi assms(3) using end_le pos by linarith+
  show ?thesis
    using copy_loop_words [of 0 raw off data "unat start"] assms(1-3,5) ge lt gt le hi st
    by (simp add: load_segment_def Let_def max_absorb1 min_absorb1 or_words_def)
qed

section \<open>Sequences of requests\<close>

datatype mm_op = D_req wb_out | I_req wb_out

text \<open>One request; the state is the memory and the inputs of the core on the two buses.\<close>

fun mm_step :: "mm_op \<Rightarrow> magic_memory \<times> wb_in \<times> wb_in \<Rightarrow> (magic_memory \<times> wb_in \<times> wb_in) res" where
  "mm_step (D_req q) (mm, d, i) = res_map (\<lambda>(mm', d'). (mm', d', i)) (D_request q mm d)"
| "mm_step (I_req q) (mm, d, i) = res_map (\<lambda>(mm', i'). (mm', d, i')) (I_request q mm i)"

lemma mm_step_wf:
  assumes "mm_wf mm"
  shows "\<exists>mm' d' i'. mm_step op (mm, d, i) = Inr (mm', d', i') \<and> mm_wf mm'"
proof (cases op)
  case (D_req q)
  then show ?thesis using D_request_wf [OF assms, of q d] by auto
next
  case (I_req q)
  then show ?thesis using I_request_wf [OF assms, of q i] by auto
qed

lemma mm_run_wf:
  assumes "mm_wf (fst s)"
  shows "\<exists>ss. run_res mm_step ops s = Inr ss \<and> (\<forall>t\<in>set ss. mm_wf (fst t))"
  using assms
proof (induction ops arbitrary: s)
  case Nil
  then show ?case by simp
next
  case (Cons op ops)
  obtain mm d i where s: "s = (mm, d, i)" by (cases s)
  obtain mm' d' i' where step: "mm_step op s = Inr (mm', d', i')" "mm_wf mm'"
    using mm_step_wf [of mm op d i] Cons.prems s by auto
  obtain ss where "run_res mm_step ops (mm', d', i') = Inr ss" "\<forall>t\<in>set ss. mm_wf (fst t)"
    using Cons.IH [of "(mm', d', i')"] step(2) by auto
  then show ?case using step by auto
qed

text \<open>The memory as the simulator sets it up: one region at 0x80000000 and the console.\<close>

definition mm_start :: "u32 \<Rightarrow> (nat \<Rightarrow> u32) \<Rightarrow> rng \<Rightarrow> magic_memory" where
  "mm_start len junk r =
     addHandler console (snd (addRamHandler 0x80000000 len junk
       \<lparr>mm_mapping = [], mm_d_wait = 0, mm_i_wait = 0, mm_d_finish = False, mm_i_finish = False,
        mm_world = \<lparr>wd_heap = [], wd_console = []\<rparr>, mm_rng = r\<rparr>))"

lemma mm_start_wf:
  assumes "4 dvd unat len"
  shows "mm_wf (mm_start len junk r)"
proof -
  let ?w = "mm_world (mm_start len junk r)"
  have "handler_wf ?w console" by (simp add: handler_wf_def)
  moreover have "handler_wf ?w (ram_handler 0 0x80000000 len)"
    unfolding handler_wf_def using assms
    by (intro disjI2 exI [of _ 0]) (simp add: mm_start_def addHandler_def addRamHandler_def ram_handler_def Let_def)
  ultimately show ?thesis
    by (simp add: mm_wf_def mm_start_def addHandler_def addRamHandler_def Let_def)
qed

text \<open>The requests of a run that are performed, in the sense that they start a transaction.\<close>

definition D_starts :: "wb_out \<Rightarrow> magic_memory \<times> wb_in \<Rightarrow> wb_out list" where
  "D_starts q s = (if wb_cyc_o q \<and> \<not> mm_d_finish (fst s) then [q] else [])"

definition D_step :: "wb_out \<Rightarrow> magic_memory \<times> wb_in \<Rightarrow> (magic_memory \<times> wb_in) res" where
  "D_step q s = D_request q (fst s) (snd s)"

lemma D_request_phase:
  assumes "mm_wf mm" and "D_request q mm p = Inr (mm', p')"
  shows "wb_ack_i p' \<longleftrightarrow> wb_cyc_o q \<and> mm_d_finish mm"
    and "mm_d_finish mm' \<longleftrightarrow> (if wb_cyc_o q then \<not> mm_d_finish mm else mm_d_finish mm)"
  using assms
  by (auto simp: D_request_def mm_wf_def Let_def latency_zero split: if_splits option.splits)

section \<open>Properties\<close>

text \<open>
  C17. The memory is well formed and stays so: with a region length that is a multiple of 4, the
  memory the simulator sets up answers every sequence of data and instruction requests, whatever
  addresses, data and strobes the core drives, without a fault, and every range keeps its array.
\<close>

theorem magic_memory_wf:
  assumes "4 dvd unat len"
  shows "\<exists>ss. run_res mm_step ops (mm_start len junk r, d, i) = Inr ss \<and> (\<forall>t\<in>set ss. mm_wf (fst t))"
  by (rule mm_run_wf) (simp add: mm_start_wf [OF assms])

theorem magic_memory_wf_witness:
  "\<exists>ss. run_res mm_step
      [D_req \<lparr>wb_cyc_o = True, wb_adr_o = 0x80000004, wb_we_o = True, wb_dat_o = 7, wb_sel_o = 1\<rparr>]
      (mm_start 8 (\<lambda>_. 0) (\<lambda>_. 0), \<lparr>wb_ack_i = False, wb_dat_i = 0\<rparr>, \<lparr>wb_ack_i = False, wb_dat_i = 0\<rparr>) = Inr ss \<and>
    (\<forall>t\<in>set ss. mm_wf (fst t))"
  by (rule magic_memory_wf) simp

text \<open>
  A write with byte strobes changes exactly the selected bytes of its word: a later read of any
  word of the region returns the written bit where the word and the byte strobe match, and the
  bit as it was everywhere else.
\<close>

theorem ram_write_then_read:
  assumes "k < length (wd_heap w)" and "unat a div 4 < length (wd_heap w ! k)"
    and "unat b div 4 < length (wd_heap w ! k)"
  shows "\<exists>w' old new. ram_write k a d strobe w = Inr w' \<and> ram_read k b w = Inr old \<and> ram_read k b w' = Inr new \<and>
    (\<forall>n. bit new n \<longleftrightarrow> (if unat b div 4 = unat a div 4 \<and> n < 32 \<and> bit strobe (n div 8) then bit d n else bit old n))"
  using assms by (auto simp: ram_write_def ram_read_def Let_def nth_list_update bit_strobe_merge)

theorem ram_write_then_read_witness:
  "\<exists>w' old new. ram_write 0 4 0x11223344 5 \<lparr>wd_heap = [[1, 2]], wd_console = []\<rparr> = Inr w' \<and>
    ram_read 0 4 \<lparr>wd_heap = [[1, 2]], wd_console = []\<rparr> = Inr old \<and> ram_read 0 4 w' = Inr new \<and>
    (\<forall>n. bit new n \<longleftrightarrow> (if unat (4::u32) div 4 = unat (4::u32) div 4 \<and> n < 32 \<and> bit (5::u8) (n div 8)
       then bit (0x11223344::u32) n else bit old n))"
  by (rule ram_write_then_read) simp_all

text \<open>
  The handshake on the data bus has two phases. With \<open>cyc\<close> up in two calls, the first performs
  the access of its own request on the first range that contains the address, and does not
  acknowledge; the second acknowledges and changes nothing, whatever request is on the bus then:
  the acknowledge and the data always belong to the request of the first call.
\<close>

theorem bus_two_phases:
  assumes "mm_wf mm" and "\<not> mm_d_finish mm" and "wb_cyc_o q" and "wb_cyc_o q2"
  shows "\<exists>mm1 p1. D_request q mm p = Inr (mm1, p1) \<and> \<not> wb_ack_i p1 \<and>
    D_request q2 mm1 p1 = Inr (mm1\<lparr>mm_d_finish := False\<rparr>, p1\<lparr>wb_ack_i := True\<rparr>) \<and>
    (case find (in_range (wb_adr_o q)) (mm_mapping mm) of
       None \<Rightarrow> mm_world mm1 = mm_world mm \<and> wb_dat_i p1 = wb_dat_i p
     | Some h \<Rightarrow>
         if wb_we_o q
         then h_write h (wb_adr_o q - h_start h) (wb_dat_o q) (wb_sel_o q) (mm_world mm) = Inr (mm_world mm1) \<and>
              wb_dat_i p1 = wb_dat_i p
         else h_read h (wb_adr_o q - h_start h) (mm_world mm) = Inr (wb_dat_i p1) \<and> mm_world mm1 = mm_world mm)"
proof -
  obtain mm1 p1 where r: "D_request q mm p = Inr (mm1, p1)" and wf: "mm_wf mm1"
    using D_request_wf [OF assms(1)] by blast
  have fin: "mm_d_finish mm1" "\<not> wb_ack_i p1"
    using D_request_phase [OF assms(1) r] assms(2,3) by simp_all
  then have "D_request q2 mm1 p1 = Inr (mm1\<lparr>mm_d_finish := False\<rparr>, p1\<lparr>wb_ack_i := True\<rparr>)"
    using wf assms(4) by (simp add: D_request_def mm_wf_def)
  moreover have "case find (in_range (wb_adr_o q)) (mm_mapping mm) of
       None \<Rightarrow> mm_world mm1 = mm_world mm \<and> wb_dat_i p1 = wb_dat_i p
     | Some h \<Rightarrow>
         if wb_we_o q
         then h_write h (wb_adr_o q - h_start h) (wb_dat_o q) (wb_sel_o q) (mm_world mm) = Inr (mm_world mm1) \<and>
              wb_dat_i p1 = wb_dat_i p
         else h_read h (wb_adr_o q - h_start h) (mm_world mm) = Inr (wb_dat_i p1) \<and> mm_world mm1 = mm_world mm"
    using r assms(1-3) by (auto simp: D_request_def mm_wf_def Let_def latency_zero split: option.splits if_splits)
  ultimately show ?thesis using r fin(2) by blast
qed

theorem bus_two_phases_witness:
  "\<exists>mm1 p1. D_request \<lparr>wb_cyc_o = True, wb_adr_o = 0x80000004, wb_we_o = False, wb_dat_o = 0, wb_sel_o = 0\<rparr>
      (mm_start 8 (\<lambda>_. 9) (\<lambda>_. 0)) \<lparr>wb_ack_i = False, wb_dat_i = 0\<rparr> = Inr (mm1, p1) \<and>
    D_request \<lparr>wb_cyc_o = True, wb_adr_o = 0x80000000, wb_we_o = True, wb_dat_o = 5, wb_sel_o = 15\<rparr> mm1 p1 =
      Inr (mm1\<lparr>mm_d_finish := False\<rparr>, p1\<lparr>wb_ack_i := True\<rparr>)"
proof -
  have "mm_wf (mm_start 8 (\<lambda>_. 9) (\<lambda>_. 0))" by (rule mm_start_wf) simp
  moreover have "\<not> mm_d_finish (mm_start 8 (\<lambda>_. 9) (\<lambda>_. 0))"
    by (simp add: mm_start_def addHandler_def addRamHandler_def Let_def)
  ultimately show ?thesis
    using bus_two_phases [of "mm_start 8 (\<lambda>_. 9) (\<lambda>_. 0)"
        "\<lparr>wb_cyc_o = True, wb_adr_o = 0x80000004, wb_we_o = False, wb_dat_o = 0, wb_sel_o = 0\<rparr>"
        "\<lparr>wb_cyc_o = True, wb_adr_o = 0x80000000, wb_we_o = True, wb_dat_o = 5, wb_sel_o = 15\<rparr>"
        "\<lparr>wb_ack_i = False, wb_dat_i = 0\<rparr>"] by auto
qed

text \<open>
  C19. No access is lost or acknowledged twice: along every run of calls, with \<open>cyc\<close> going up and
  down as the core likes, the number of accesses performed exceeds the number of acknowledges by
  one while a transaction is half done and equals it otherwise.
\<close>

theorem bus_acks_balance:
  assumes "run_res D_step qs s = Inr ss" and "mm_wf (fst s)"
  shows "(if mm_d_finish (fst s) then 1 else 0) + length (taken D_starts qs (s # ss)) =
    length (filter (\<lambda>t. wb_ack_i (snd t)) ss) + (if mm_d_finish (fst (last (s # ss))) then 1 else 0)"
  using assms
proof (induction qs arbitrary: s ss)
  case Nil
  then show ?case by simp
next
  case (Cons q qs)
  then obtain t ts where t: "D_step q s = Inr t" "run_res D_step qs t = Inr ts" "ss = t # ts" by auto
  have req: "D_request q (fst s) (snd s) = Inr (fst t, snd t)" using t(1) by (simp add: D_step_def)
  have wf: "mm_wf (fst t)" using D_request_wf [OF Cons.prems(2), of q "snd s"] req by auto
  have one: "(if mm_d_finish (fst s) then 1 else 0) + length (D_starts q s) =
      (if wb_ack_i (snd t) then 1 else 0) + (if mm_d_finish (fst t) then 1 else 0)"
    using D_request_phase [OF Cons.prems(2) req] by (auto simp: D_starts_def)
  have "length (taken D_starts (q # qs) (s # ss)) = length (D_starts q s) + length (taken D_starts qs (t # ts))"
    and "length (filter (\<lambda>t. wb_ack_i (snd t)) ss) =
      (if wb_ack_i (snd t) then 1 else 0) + length (filter (\<lambda>t. wb_ack_i (snd t)) ts)"
    and "last (s # ss) = last (t # ts)" using t(3) by simp_all
  then show ?case using Cons.IH [OF t(2) wf] one by simp
qed

theorem bus_acks_balance_witness:
  "\<exists>ss. run_res D_step
      [\<lparr>wb_cyc_o = True, wb_adr_o = 0x80000004, wb_we_o = True, wb_dat_o = 7, wb_sel_o = 1\<rparr>,
       \<lparr>wb_cyc_o = True, wb_adr_o = 0x80000004, wb_we_o = True, wb_dat_o = 7, wb_sel_o = 1\<rparr>]
      (mm_start 8 (\<lambda>_. 9) (\<lambda>_. 0), \<lparr>wb_ack_i = False, wb_dat_i = 0\<rparr>) = Inr ss \<and>
    length (filter (\<lambda>t. wb_ack_i (snd t)) ss) = 1"
proof -
  let ?q = "\<lparr>wb_cyc_o = True, wb_adr_o = 0x80000004, wb_we_o = True, wb_dat_o = 7, wb_sel_o = 1\<rparr>"
  let ?s = "(mm_start 8 (\<lambda>_. 9) (\<lambda>_. 0), \<lparr>wb_ack_i = False, wb_dat_i = 0\<rparr>)"
  have wf: "mm_wf (fst ?s)" using mm_start_wf [of 8 "\<lambda>_. 9" "\<lambda>_. 0"] by simp
  have fin: "\<not> mm_d_finish (fst ?s)"
    by (simp add: mm_start_def addHandler_def addRamHandler_def Let_def)
  obtain m1 p1 where 1: "D_step ?q ?s = Inr (m1, p1)" "mm_wf m1"
    using D_request_wf [OF wf, of ?q "snd ?s"] by (auto simp: D_step_def)
  obtain m2 p2 where 2: "D_step ?q (m1, p1) = Inr (m2, p2)" "mm_wf m2"
    using D_request_wf [OF 1(2), of ?q p1] by (auto simp: D_step_def)
  have run: "run_res D_step [?q, ?q] ?s = Inr [(m1, p1), (m2, p2)]" using 1(1) 2(1) by simp
  have f1: "mm_d_finish m1" "\<not> mm_d_finish m2"
    using D_request_phase(2) [OF wf] D_request_phase(2) [OF 1(2)] 1(1) 2(1) fin by (auto simp: D_step_def)
  show ?thesis
    using bus_acks_balance [OF run wf] run fin f1 by (auto simp: D_starts_def)
qed

text \<open>
  The loader: a segment whose file chunk is a whole number of words, placed word-aligned inside
  the region, is or-ed word for word into the array at its place, and the rest of the array is
  untouched. (Over an array that is zero there, this is a copy; the simulator does not zero it.)
\<close>

theorem load_segment_places_words:
  assumes "p_load ph" and "ef_rawchunk f (p_offset ph) (p_filesz ph) = Some raw" and "raw \<noteq> []"
    and "unat (p_paddr ph) = unat start + 4 * off" and "unat (p_filesz ph) = 4 * length raw"
    and "off + length raw \<le> length data" and "4 * length data \<le> unat len"
    and "unat start + unat len < 2 ^ 32"
  shows "\<exists>data'. load_segment f start len ph data = Inr data' \<and> length data' = length data \<and>
    (\<forall>k<length data. data' ! k =
       (if off \<le> k \<and> k < off + length raw then data ! k OR raw ! (k - off) else data ! k))"
  using load_segment_words [OF assms(1,2,4-8,3)] by (simp add: or_words_def)

theorem load_segment_places_words_witness:
  "\<exists>data'. load_segment \<lparr>ef_open = True, ef_version = True, ef_begin = True, ef_kind_elf = True,
        ef_ehdr = None, ef_phnum = None, ef_phdr = (\<lambda>_. None), ef_rawchunk = (\<lambda>_ _. Some [0xab, 0xcd])\<rparr>
      0x80000000 16 \<lparr>p_load = True, p_offset = 0, p_paddr = 0x80000004, p_filesz = 8\<rparr> [1, 0, 0, 3] = Inr data' \<and>
    length data' = length [1, 0, 0, 3 :: u32] \<and>
    (\<forall>k<length [1, 0, 0, 3 :: u32]. data' ! k =
       (if 1 \<le> k \<and> k < 1 + length [0xab, 0xcd :: u32] then [1, 0, 0, 3] ! k OR [0xab, 0xcd] ! (k - 1) else [1, 0, 0, 3] ! k))"
  by (rule load_segment_places_words) simp_all

section \<open>The loader keeps the size of the array\<close>

lemma copy_loop_length: "copy_loop i e st p raw data = Inr d' \<Longrightarrow> length d' = length data"
proof (induction i e st p raw data rule: copy_loop.induct)
  case (1 i e st p raw data)
  show ?case using "1.prems" by (subst (asm) copy_loop.simps) (auto simp: Let_def split: if_splits dest!: "1.IH" [OF _ refl refl])
qed

lemma load_segment_length: "load_segment f st len ph data = Inr d' \<Longrightarrow> length d' = length data"
  by (auto simp: load_segment_def Let_def split: if_splits option.splits dest!: copy_loop_length)

lemma load_phdrs_length: "load_phdrs f st len is data = Inr (Some d') \<Longrightarrow> length d' = length data"
  by (induction "is" arbitrary: data) (auto split: option.splits dest!: load_segment_length)

lemma loadFromElfFile_length: "loadFromElfFile f data st len = Inr (Some d') \<Longrightarrow> length d' = length data"
  by (auto simp: loadFromElfFile_def split: if_splits option.splits dest!: load_phdrs_length)

end
