(* ===== verification/Text_Format.thy ===== *)
theory Text_Format
  imports Prelude
begin

text \<open>
  Numbers as text: the conversions \<open>%0kX\<close> and \<open>%d\<close> of \<open>printf\<close> that the trace log uses, the
  reading of a decimal number the way the simulator reads its arguments, and the lemmas that make
  a line of text determine the values printed in it.
\<close>

section \<open>Digits\<close>

definition digit_char :: "nat \<Rightarrow> char" where
  "digit_char n = ''0123456789ABCDEF'' ! n"

definition is_dec :: "char \<Rightarrow> bool" where
  "is_dec c \<longleftrightarrow> 48 \<le> (of_char c :: nat) \<and> of_char c \<le> (57 :: nat)"

text \<open>The white space of \<open>isspace\<close> in the C locale.\<close>

definition is_space :: "char \<Rightarrow> bool" where
  "is_space c \<longleftrightarrow> (of_char c :: nat) \<in> {9, 10, 11, 12, 13, 32}"

definition dec_value :: "char \<Rightarrow> nat" where
  "dec_value c = of_char c - 48"

text \<open>Exactly \<open>k\<close> hexadecimal digits, as \<open>%0kX\<close> prints a value of \<open>4 k\<close> bits.\<close>

fun hex_fixed :: "nat \<Rightarrow> nat \<Rightarrow> string" where
  "hex_fixed 0 x = []"
| "hex_fixed (Suc k) x = hex_fixed k (x div 16) @ [digit_char (x mod 16)]"

fun dec_nat :: "nat \<Rightarrow> string" where
  "dec_nat n = (if n < 10 then [digit_char n] else dec_nat (n div 10) @ [digit_char (n mod 10)])"

declare dec_nat.simps [simp del]

text \<open>\<open>%d\<close>\<close>

definition dec_int :: "u32 \<Rightarrow> string" where
  "dec_int w = (if sint w < 0 then CHR ''-'' # dec_nat (nat (- sint w)) else dec_nat (nat (sint w)))"

definition newline :: char where
  "newline = CHR 0x0A"

section \<open>What the text says\<close>

lemma digit_char_mem: "n < 16 \<Longrightarrow> digit_char n \<in> set ''0123456789ABCDEF''"
  unfolding digit_char_def by (rule nth_mem) simp

lemma digit_char_inj: "m < 16 \<Longrightarrow> n < 16 \<Longrightarrow> digit_char m = digit_char n \<longleftrightarrow> m = n"
  unfolding digit_char_def by (rule nth_eq_iff_index_eq) simp_all

lemma digit_char_neq: "n < 16 \<Longrightarrow> digit_char n \<noteq> newline"
  using digit_char_mem [of n] by (auto simp: newline_def)

lemma digit_char_dec:
  assumes "n < 10"
  shows "is_dec (digit_char n)" and "dec_value (digit_char n) = n"
proof -
  have "\<forall>n\<in>set [0..<10]. is_dec (digit_char n) \<and> dec_value (digit_char n) = n" by code_simp
  then show "is_dec (digit_char n)" and "dec_value (digit_char n) = n" using assms by simp_all
qed

lemma length_hex_fixed [simp]: "length (hex_fixed k x) = k"
  by (induction k arbitrary: x) auto

lemma hex_fixed_inj: "x < 16 ^ k \<Longrightarrow> y < 16 ^ k \<Longrightarrow> hex_fixed k x = hex_fixed k y \<Longrightarrow> x = y"
proof (induction k arbitrary: x y)
  case (Suc k)
  have lt: "x div 16 < 16 ^ k" "y div 16 < 16 ^ k"
    using Suc.prems(1,2) by (simp_all add: less_mult_imp_div_less mult.commute)
  have "x div 16 = y div 16"
    using Suc.prems(3) by (intro Suc.IH [OF lt]) simp
  moreover have "x mod 16 = y mod 16"
    using Suc.prems(3) digit_char_inj [of "x mod 16" "y mod 16"] by simp
  ultimately show ?case by (metis div_mult_mod_eq)
qed simp

lemma hex_fixed_chars: "newline \<notin> set (hex_fixed k x)"
proof (induction k arbitrary: x)
  case (Suc k)
  then show ?case using digit_char_neq [of "x mod 16"] by simp
qed simp

lemma dec_nat_chars: "list_all is_dec (dec_nat n)"
proof (induction n rule: dec_nat.induct)
  case (1 n)
  then show ?case by (cases "n < 10") (simp_all add: dec_nat.simps [of n] digit_char_dec)
qed

text \<open>Reading the digits back, from the most significant on.\<close>

lemma foldl_dec_nat: "foldl (\<lambda>v c. 10 * v + dec_value c) 0 (dec_nat n) = n"
proof (induction n rule: dec_nat.induct)
  case (1 n)
  show ?case
  proof (cases "n < 10")
    case True
    then show ?thesis by (simp add: dec_nat.simps [of n] digit_char_dec)
  next
    case False
    then show ?thesis using "1.IH" by (simp add: dec_nat.simps [of n] digit_char_dec)
  qed
qed

lemma dec_nat_inj: "dec_nat m = dec_nat n \<Longrightarrow> m = n"
  by (metis foldl_dec_nat)

lemma dec_nat_no_minus: "CHR ''-'' \<notin> set (dec_nat n)"
  using dec_nat_chars [of n] by (auto simp: is_dec_def list_all_iff)

lemma dec_int_inj: "dec_int v = dec_int w \<Longrightarrow> v = w"
proof -
  assume eq: "dec_int v = dec_int w"
  have "sint v = sint w"
  proof (cases "sint v < 0 \<longleftrightarrow> sint w < 0")
    case True
    then show ?thesis using eq by (auto simp: dec_int_def dest!: dec_nat_inj split: if_splits)
  next
    case False
    then have "CHR ''-'' \<in> set (dec_nat (nat (sint v))) \<or> CHR ''-'' \<in> set (dec_nat (nat (sint w)))"
      using eq by (auto simp: dec_int_def split: if_splits) (metis list.set_intros(1))+
    then show ?thesis using dec_nat_no_minus by blast
  qed
  then show ?thesis by (simp add: signed_word_eqI)
qed

lemma dec_int_chars: "newline \<notin> set (dec_int w)"
proof -
  have "newline \<notin> set (dec_nat n)" for n
    using dec_nat_chars [of n] by (auto simp: newline_def is_dec_def list_all_iff)
  then show ?thesis by (simp add: dec_int_def newline_def)
qed

text \<open>A text of lines that end in a newline and hold no other determines the lines.\<close>

lemma line_split:
  assumes "newline \<notin> set a" and "newline \<notin> set b" and "a @ newline # r = b @ newline # s"
  shows "a = b \<and> r = s"
  using assms by (auto simp: append_eq_append_conv2 append_eq_Cons_conv Cons_eq_append_conv)

section \<open>Lower-case hexadecimal\<close>

text \<open>\<open>%x\<close>\<close>

definition hex_digit :: "nat \<Rightarrow> char" where
  "hex_digit n = ''0123456789abcdef'' ! n"

fun hex_nat :: "nat \<Rightarrow> string" where
  "hex_nat n = (if n < 16 then [hex_digit n] else hex_nat (n div 16) @ [hex_digit (n mod 16)])"

declare hex_nat.simps [simp del]

text \<open>The message of every tenth round, which the benches of the MMU and of the load/store unit share.\<close>

definition tik :: "nat \<Rightarrow> string list" where
  "tik t = (if 20 \<le> t \<and> t mod 10 = 0 then [''tik: '' @ dec_nat ((t - 20) div 10) @ [newline]] else [])"

text \<open>\<open>%x\<close> and \<open>%d\<close> applied to the value of a port: they print its low 32 bits.\<close>

definition printf_x :: "int \<Rightarrow> string" where
  "printf_x v = hex_nat (unat (word_of_int v :: u32))"

definition printf_d :: "int \<Rightarrow> string" where
  "printf_d v = dec_int (word_of_int v)"

end
