(* ===== verification/Trace_Log.thy ===== *)
theory Trace_Log
  imports Text_Format
begin

unbundle bit_operations_syntax

text \<open>
  The co-simulation trace: \<open>sim/tracelog.cpp\<close>, which the whole-core simulator is linked with, and
  its successor for the dual-commit core, \<open>src/dpi_file/co_sim.cpp\<close>. The simulated core calls
  these functions through DPI: they mirror the physical register file and write one block of lines
  per committed instruction. A \<open>FILE*\<close> is the list of the lines written to it, \<open>None\<close> when it is
  null.
\<close>

section \<open>Lines of the log\<close>

datatype log_line = Separator | Pc u32 | Csr string u64 | Reg u32 u64

fun render :: "log_line \<Rightarrow> string" where
  "render Separator = ''-----'' @ [newline]"
| "render (Pc pc) = ''0x'' @ hex_fixed 8 (unat pc) @ [newline]"
| "render (Csr name v) = ''CSR '' @ name @ '' <- 0x'' @ hex_fixed 16 (unat v) @ [newline]"
| "render (Reg rd v) = ''x'' @ dec_int rd @ '' <- 0x'' @ hex_fixed 16 (unat v) @ [newline]"

definition log_text :: "log_line list \<Rightarrow> string" where
  "log_text ls = concat (map render ls)"

section \<open>State\<close>

record cosim =
  cs_preg :: "u64 list"
  cs_monitor_read :: bool
  cs_need_print :: bool
  cs_name :: "string option"
  cs_value :: u64
  cs_log :: "log_line list option"

definition coprint :: "log_line \<Rightarrow> cosim \<Rightarrow> cosim res" where
  "coprint l s =
     (case cs_log s of
        None \<Rightarrow> Inl (Undefined ''fprintf to a null stream'')
      | Some ls \<Rightarrow> Inr (s\<lparr>cs_log := Some (ls @ [l])\<rparr>))"

text \<open>\<open>vector::at\<close>, for a read and for an assignment; a negative index converts to a huge one.\<close>

definition get_at :: "nat \<Rightarrow> 'a list \<Rightarrow> 'a res" where
  "get_at i xs = (if i < length xs then Inr (xs ! i) else Inl Out_of_range)"

definition put_at :: "nat \<Rightarrow> 'a \<Rightarrow> 'a list \<Rightarrow> 'a list res" where
  "put_at i x xs = (if i < length xs then Inr (xs[i := x]) else Inl Out_of_range)"

text \<open>\<open>if (valid & (address != 0)) preg->at(address) = data\<close>: only bit 0 of \<open>valid\<close> counts.\<close>

definition sync_port :: "'v::len word \<Rightarrow> 'a::len word \<Rightarrow> u64 \<Rightarrow> u64 list \<Rightarrow> u64 list res" where
  "sync_port valid address d v =
     (if valid AND of_flag (address \<noteq> 0) \<noteq> 0 then put_at (unat address) d v else Inr v)"

definition print_csr :: "cosim \<Rightarrow> cosim res" where
  "print_csr s =
     (if cs_need_print s then
        (case cs_name s of
           None \<Rightarrow> Inl (Undefined ''null string printed'')
         | Some name \<Rightarrow> res_map (\<lambda>s1. s1\<lparr>cs_need_print := False\<rparr>) (coprint (Csr name (cs_value s)) s))
      else Inr s)"

definition print_reg :: "u32 \<Rightarrow> u32 \<Rightarrow> cosim \<Rightarrow> cosim res" where
  "print_reg rd prd s = res_bind (get_at (unat prd) (cs_preg s)) (\<lambda>v. coprint (Reg rd v) s)"

section \<open>The single-commit trace\<close>

text \<open>The loop that builds the mask, and the signed shift that uses it.\<close>

primrec mask_loop :: "nat \<Rightarrow> u32 \<Rightarrow> u32" where
  "mask_loop 0 m = m"
| "mask_loop (Suc n) m = mask_loop n (push_bit 1 m + 1)"

definition bit32_tailor :: "u32 \<Rightarrow> u32 \<Rightarrow> u32 \<Rightarrow> u32 res" where
  "bit32_tailor origin left right =
     (let width = sint left - sint right in
      if width < - (2 ^ 31) \<or> 2 ^ 31 \<le> width then Inl (Undefined ''signed overflow'')
      else if 2 ^ 31 \<le> unat (word_of_int width :: u32) then Inl (Undefined ''signed overflow'')
      else if sint right < 0 \<or> 32 \<le> sint right then Inl (Undefined ''shift out of range'')
      else Inr (signed_drop_bit (unat right) origin AND mask_loop (unat (word_of_int width :: u32)) 1))"

record sync_call =
  alu_valid :: u8
  lsu_valid :: u8
  alu_data_in :: u64
  lsu_data_in :: u64
  alu_address :: u32
  lsu_address :: u32

definition preg_sync :: "sync_call \<Rightarrow> u64 list \<Rightarrow> u64 list res" where
  "preg_sync c v =
     res_bind (sync_port (alu_valid c) (alu_address c) (alu_data_in c) v) (\<lambda>v.
     res_bind (sync_port (lsu_valid c) (lsu_address c) (lsu_data_in c) v) (put_at 0 0))"

definition csr_written :: "u32 \<Rightarrow> u64 \<Rightarrow> u64 \<Rightarrow> u64" where
  "csr_written address d old =
     (if address = 0x305 then d AND 0xfffffffffffffffc
      else if address = 0x340 \<or> address = 0x341 then d
      else if address = 0x342 then 0x800000000000000f AND d
      else old)"

definition csr_monitor :: "u32 \<Rightarrow> bool \<Rightarrow> u64 \<Rightarrow> cosim \<Rightarrow> cosim" where
  "csr_monitor address valid d s =
     (if cs_monitor_read s \<and> valid
      then s\<lparr>cs_need_print := True, cs_value := csr_written address d (cs_value s)\<rparr> else s)"

definition csr_names :: "u32 \<Rightarrow> string option" where
  "csr_names a =
     (if a = 0x305 then Some ''mtvec'' else if a = 0x340 then Some ''mscratch''
      else if a = 0x341 then Some ''mepc'' else if a = 0x342 then Some ''mcause'' else None)"

record log_call =
  co_commit :: bool
  co_pc_in :: u32
  co_store_in :: bool
  co_fence :: bool
  co_mret :: bool
  co_wfi :: bool
  co_uses_csr :: bool
  co_rob_rd :: u32
  co_csr_iss_ctrl :: bool
  co_prf_name :: u32
  co_csr_address :: u32

definition log_commit :: "log_call \<Rightarrow> cosim \<Rightarrow> cosim res" where
  "log_commit c s =
     res_bind (coprint Separator s) (\<lambda>s. res_bind (coprint (Pc (co_pc_in c)) s) (\<lambda>s.
       if co_uses_csr c then
         res_bind (print_csr s) (\<lambda>s.
         res_map (\<lambda>s. s\<lparr>cs_monitor_read := False\<rparr>)
           (if co_rob_rd c \<noteq> 0 \<and> cs_monitor_read s then print_reg (co_rob_rd c) (co_prf_name c) s else Inr s))
       else if co_fence c \<or> co_mret c \<or> co_wfi c \<or> co_store_in c then Inr s
       else if co_rob_rd c \<noteq> 0 then print_reg (co_rob_rd c) (co_prf_name c) s
       else Inr s))"

definition log_issue :: "log_call \<Rightarrow> cosim \<Rightarrow> cosim" where
  "log_issue c s =
     (case csr_names (co_csr_address c) of
        None \<Rightarrow> s\<lparr>cs_monitor_read := False\<rparr>
      | Some name \<Rightarrow> s\<lparr>cs_monitor_read := True, cs_name := Some name\<rparr>)"

definition log_print :: "log_call \<Rightarrow> cosim \<Rightarrow> cosim res" where
  "log_print c s =
     res_map (\<lambda>s. if co_csr_iss_ctrl c then log_issue c s else s)
       (if co_commit c then log_commit c s else Inr s)"

text \<open>The calls the core makes, and the state before the first: \<open>main\<close> gives 64 registers.\<close>

datatype trace_call = Preg_sync sync_call | Csr_monitor u32 bool u64 | Log_print log_call

fun trace_step :: "trace_call \<Rightarrow> cosim \<Rightarrow> cosim res" where
  "trace_step (Preg_sync c) s = res_map (\<lambda>v. s\<lparr>cs_preg := v\<rparr>) (preg_sync c (cs_preg s))"
| "trace_step (Csr_monitor a v d) s = Inr (csr_monitor a v d s)"
| "trace_step (Log_print c) s = log_print c s"

definition cosim0 :: "log_line list option \<Rightarrow> nat \<Rightarrow> cosim" where
  "cosim0 f n = \<lparr>cs_preg = replicate n 0, cs_monitor_read = False, cs_need_print = False,
     cs_name = None, cs_value = 0, cs_log = f\<rparr>"

section \<open>The dual-commit trace\<close>

text \<open>
  \<open>init_cosim\<close> makes 48 registers and opens the log. \<open>fopen\<close> is taken to succeed: the source does not check it, and
  with a null file every later \<open>fprintf\<close> is undefined. The start message \<open>CoSim Initiated ...\<close> has no newline: it is the beginning of the
  line of the first separator. The log of the model is a list of whole lines and leaves this prefix out.
\<close>

definition init_cosim :: cosim where
  "init_cosim = cosim0 (Some []) 48"

record sync5_call =
  alu1_valid :: u32
  alu2_valid :: u32
  md_valid :: u32
  lsu5_valid :: u32
  csru_valid :: u32
  alu1_address :: u64
  alu2_address :: u64
  md_address :: u64
  lsu5_address :: u64
  csru_address :: u64
  alu1_data :: u64
  alu2_data :: u64
  md_data :: u64
  lsu5_data :: u64
  csru_data :: u64

text \<open>Four of the five ports test \<open>alu1_valid\<close>, as the source does.\<close>

definition preg_sync5 :: "sync5_call \<Rightarrow> u64 list \<Rightarrow> u64 list res" where
  "preg_sync5 c v =
     res_bind (sync_port (alu1_valid c) (alu1_address c) (alu1_data c) v) (\<lambda>v.
     res_bind (sync_port (alu1_valid c) (alu2_address c) (alu2_data c) v) (\<lambda>v.
     res_bind (sync_port (alu1_valid c) (md_address c) (md_data c) v) (\<lambda>v.
     res_bind (sync_port (lsu5_valid c) (lsu5_address c) (lsu5_data c) v) (\<lambda>v.
     res_bind (sync_port (alu1_valid c) (csru_address c) (csru_data c) v) (put_at 0 0)))))"

definition csr5_written :: "u32 \<Rightarrow> u64 \<Rightarrow> u64 \<Rightarrow> u64" where
  "csr5_written address d old =
     (if address \<in> {0x300, 0x340, 0x341, 0x343, 0x100, 0x140, 0x141, 0x143, 0x180} then d
      else if address = 0x302 then d AND 0xaaaa
      else if address = 0x303 then d AND 0xaaa
      else if address \<in> {0x305, 0x105} then d AND 0xfffffffffffffffc
      else if address \<in> {0x342, 0x142} then 0x800000000000000f AND d
      else old)"

definition csr5_monitor :: "u32 \<Rightarrow> u8 \<Rightarrow> u64 \<Rightarrow> cosim \<Rightarrow> cosim" where
  "csr5_monitor address valid d s =
     (if cs_monitor_read s \<and> valid \<noteq> 0
      then s\<lparr>cs_need_print := True, cs_value := csr5_written address d (cs_value s)\<rparr> else s)"

record log5_call =
  do_rob_commit_first :: bool
  do_rob_commit_second :: bool
  rob_pc_first :: u64
  rob_pc_second :: u64
  rob_rd_first :: u32
  rob_rd_second :: u32
  rob_prd_first :: u32
  rob_prd_second :: u32
  rob_is_store_first :: bool
  rob_is_store_second :: bool
  rob_fence_first :: bool
  rob_mret_first :: bool
  rob_wfi_first :: bool
  rob_is_csr :: bool
  rob_csr_address :: u32

text \<open>
  The program counter is a 64-bit argument printed by \<open>%08X\<close>: its low half appears. The flag
  \<open>csr_monitor_read\<close> is set inside the branch and cleared at its end.
\<close>

definition log5_print :: "log5_call \<Rightarrow> cosim \<Rightarrow> cosim res" where
  "log5_print c s =
     (if \<not> do_rob_commit_first c then Inr s
      else res_bind (coprint Separator s) (\<lambda>s. res_bind (coprint (Pc (ucast (rob_pc_first c))) s) (\<lambda>s.
       if rob_is_csr c then
         res_bind (print_csr s) (\<lambda>s.
         res_map (\<lambda>s. s\<lparr>cs_monitor_read := False\<rparr>)
           (if rob_rd_first c \<noteq> 0 then
              print_reg (rob_rd_first c) (rob_prd_first c)
                (case csr_names (rob_csr_address c) of
                   None \<Rightarrow> s
                 | Some name \<Rightarrow> s\<lparr>cs_name := Some name, cs_monitor_read := True\<rparr>)
            else Inr s))
       else if rob_fence_first c \<or> rob_mret_first c \<or> rob_wfi_first c \<or> rob_is_store_first c then Inr s
       else if rob_rd_first c \<noteq> 0 then print_reg (rob_rd_first c) (rob_prd_first c) s
       else Inr s)))"

datatype cosim_call = Preg_sync5 sync5_call | Csr5_monitor u32 u8 u64 | Log5_print log5_call

fun cosim_step :: "cosim_call \<Rightarrow> cosim \<Rightarrow> cosim res" where
  "cosim_step (Preg_sync5 c) s = res_map (\<lambda>v. s\<lparr>cs_preg := v\<rparr>) (preg_sync5 c (cs_preg s))"
| "cosim_step (Csr5_monitor a v d) s = Inr (csr5_monitor a v d s)"
| "cosim_step (Log5_print c) s = log5_print c s"

section \<open>The register mirror\<close>

definition abs_regs :: "u64 list \<Rightarrow> nat \<Rightarrow> u64" where
  "abs_regs v r = (if r < length v then v ! r else 0)"

definition reg_writes :: "(nat \<times> u64) list \<Rightarrow> (nat \<Rightarrow> u64) \<Rightarrow> nat \<Rightarrow> u64" where
  "reg_writes ws f = fold (\<lambda>(r, x) f. f(r := x)) ws f"

definition mirror_ok :: "u64 list \<Rightarrow> bool" where
  "mirror_ok v \<longleftrightarrow> v \<noteq> [] \<and> v ! 0 = 0"

lemma reg_writes_concat: "reg_writes (concat (map w cs)) f = fold (\<lambda>c. reg_writes (w c)) cs f"
  by (induction cs arbitrary: f) (simp_all add: reg_writes_def)

text \<open>
  A synchronisation call that performs the writes \<open>writes c\<close>, none of them to register 0, and then
  clears register 0.
\<close>

locale reg_mirror =
  fixes sync :: "'c \<Rightarrow> u64 list \<Rightarrow> u64 list res"
    and writes :: "'c \<Rightarrow> (nat \<times> u64) list"
  assumes no_zero: "(r, x) \<in> set (writes c) \<Longrightarrow> r \<noteq> 0"
    and sync_writes: "v \<noteq> [] \<Longrightarrow> \<forall>(r, x)\<in>set (writes c). r < length v \<Longrightarrow>
      sync c v = Inr ((fold (\<lambda>(r, x) v. v[r := x]) (writes c) v)[0 := 0])"
begin

lemma fold_update:
  "\<forall>(r, x)\<in>set ws. r < length v \<Longrightarrow>
   length (fold (\<lambda>(r, x) v. v[r := x]) ws v) = length v \<and>
   abs_regs (fold (\<lambda>(r, x) v. v[r := x]) ws v) = reg_writes ws (abs_regs v)"
proof (induction ws arbitrary: v)
  case (Cons w ws)
  obtain r x where w: "w = (r, x)" by force
  have "abs_regs (v[r := x]) = (abs_regs v)(r := x)"
    using Cons.prems w by (auto simp: abs_regs_def)
  then show ?case using Cons.IH [of "v[r := x]"] Cons.prems w by (simp add: reg_writes_def del: fun_upd_apply)
qed (simp add: reg_writes_def)

lemma reg_writes_zero: "reg_writes (writes c) f 0 = f 0"
proof -
  have "\<forall>w\<in>set ws. fst w \<noteq> 0 \<Longrightarrow> reg_writes ws f 0 = f 0" for ws f
    by (induction ws arbitrary: f) (simp_all add: reg_writes_def case_prod_beta)
  moreover have "\<forall>w\<in>set (writes c). fst w \<noteq> 0" using no_zero by auto
  ultimately show ?thesis by simp
qed

lemma mirror_step:
  assumes "mirror_ok v" and "\<forall>(r, x)\<in>set (writes c). r < length v"
  shows "\<exists>v'. sync c v = Inr v' \<and> length v' = length v \<and> mirror_ok v' \<and>
    abs_regs v' = reg_writes (writes c) (abs_regs v)"
proof -
  define u where "u = fold (\<lambda>(r, x) v. v[r := x]) (writes c) v"
  have v: "v \<noteq> []" "v ! 0 = 0" using assms(1) by (auto simp: mirror_ok_def)
  have u: "length u = length v" "abs_regs u = reg_writes (writes c) (abs_regs v)"
    using fold_update [OF assms(2)] by (simp_all add: u_def)
  have "abs_regs u 0 = 0" unfolding u(2) reg_writes_zero using v by (simp add: abs_regs_def)
  then have "u ! 0 = 0" using u(1) v(1) by (simp add: abs_regs_def)
  then have "u[0 := 0] = u" by (metis list_update_id)
  then show ?thesis
    using sync_writes [OF v(1) assms(2)] u v(1) \<open>u ! 0 = 0\<close>
    by (metis length_0_conv mirror_ok_def u_def)
qed

end

definition port_writes :: "'v::len word \<Rightarrow> 'a::len word \<Rightarrow> u64 \<Rightarrow> (nat \<times> u64) list" where
  "port_writes valid address d =
     (if valid AND of_flag (address \<noteq> 0) \<noteq> 0 then [(unat address, d)] else [])"

lemma port_writes_no_zero: "(r, x) \<in> set (port_writes valid a d) \<Longrightarrow> r \<noteq> 0"
  by (auto simp: port_writes_def of_flag_def unat_eq_0 split: if_splits)

lemma sync_port_writes:
  "\<forall>(r, x)\<in>set (port_writes valid a d). r < length v \<Longrightarrow>
   sync_port valid a d v = Inr (fold (\<lambda>(r, x) v. v[r := x]) (port_writes valid a d) v)"
  by (simp add: sync_port_def port_writes_def put_at_def)

definition sync_writes2 :: "sync_call \<Rightarrow> (nat \<times> u64) list" where
  "sync_writes2 c =
     port_writes (alu_valid c) (alu_address c) (alu_data_in c) @
     port_writes (lsu_valid c) (lsu_address c) (lsu_data_in c)"

definition sync_writes5 :: "sync5_call \<Rightarrow> (nat \<times> u64) list" where
  "sync_writes5 c =
     port_writes (alu1_valid c) (alu1_address c) (alu1_data c) @
     port_writes (alu1_valid c) (alu2_address c) (alu2_data c) @
     port_writes (alu1_valid c) (md_address c) (md_data c) @
     port_writes (lsu5_valid c) (lsu5_address c) (lsu5_data c) @
     port_writes (alu1_valid c) (csru_address c) (csru_data c)"

lemma length_fold_update [simp]: "length (fold (\<lambda>(r, x) v. v[r := x]) ws v) = length v"
  by (induction ws arbitrary: v) auto

interpretation trace_mirror: reg_mirror preg_sync sync_writes2
proof
  fix c :: sync_call and r x and v :: "u64 list"
  show "(r, x) \<in> set (sync_writes2 c) \<Longrightarrow> r \<noteq> 0"
    using port_writes_no_zero by (auto simp: sync_writes2_def)
  assume "v \<noteq> []" "\<forall>(r, x)\<in>set (sync_writes2 c). r < length v"
  then show "preg_sync c v = Inr ((fold (\<lambda>(r, x) v. v[r := x]) (sync_writes2 c) v)[0 := 0])"
    by (simp add: preg_sync_def sync_writes2_def sync_port_writes ball_Un put_at_def)
qed

interpretation cosim_mirror: reg_mirror preg_sync5 sync_writes5
proof
  fix c :: sync5_call and r x and v :: "u64 list"
  show "(r, x) \<in> set (sync_writes5 c) \<Longrightarrow> r \<noteq> 0"
    using port_writes_no_zero by (auto simp: sync_writes5_def)
  assume "v \<noteq> []" "\<forall>(r, x)\<in>set (sync_writes5 c). r < length v"
  then show "preg_sync5 c v = Inr ((fold (\<lambda>(r, x) v. v[r := x]) (sync_writes5 c) v)[0 := 0])"
    by (simp add: preg_sync5_def sync_writes5_def sync_port_writes ball_Un put_at_def)
qed

section \<open>Steps of the traces\<close>

definition csr_name_ok :: "string \<Rightarrow> bool" where
  "csr_name_ok n \<longleftrightarrow> n \<in> {''mtvec'', ''mscratch'', ''mepc'', ''mcause''}"

fun line_ok :: "log_line \<Rightarrow> bool" where
  "line_ok (Csr n v) = csr_name_ok n"
| "line_ok _ = True"

text \<open>
  The log is open and holds names of the four traced registers only, register 0 is 0, and a
  pending or expected CSR value has a name.
\<close>

definition trace_wf :: "nat \<Rightarrow> cosim \<Rightarrow> bool" where
  "trace_wf n s \<longleftrightarrow>
     length (cs_preg s) = n \<and> mirror_ok (cs_preg s) \<and>
     (\<exists>ls. cs_log s = Some ls \<and> list_all line_ok ls) \<and>
     ((cs_need_print s \<or> cs_monitor_read s) \<longrightarrow> (\<exists>m. cs_name s = Some m \<and> csr_name_ok m))"

text \<open>The registers a call mentions exist.\<close>

fun trace_regs_ok :: "nat \<Rightarrow> trace_call \<Rightarrow> bool" where
  "trace_regs_ok n (Preg_sync c) = (\<forall>(r, x)\<in>set (sync_writes2 c). r < n)"
| "trace_regs_ok n (Csr_monitor a v d) = True"
| "trace_regs_ok n (Log_print c) = (unat (co_prf_name c) < n)"

fun trace_writes :: "trace_call \<Rightarrow> (nat \<times> u64) list" where
  "trace_writes (Preg_sync c) = sync_writes2 c"
| "trace_writes _ = []"

lemma csr_names_ok: "csr_names a = Some m \<Longrightarrow> csr_name_ok m"
  by (auto simp: csr_names_def csr_name_ok_def split: if_splits)

lemma cosim0_wf: "0 < n \<Longrightarrow> trace_wf n (cosim0 (Some []) n)"
  by (simp add: trace_wf_def cosim0_def mirror_ok_def)

lemma coprint_wf:
  "trace_wf n s \<Longrightarrow> line_ok l \<Longrightarrow>
   \<exists>ls. cs_log s = Some ls \<and> coprint l s = Inr (s\<lparr>cs_log := Some (ls @ [l])\<rparr>) \<and>
     trace_wf n (s\<lparr>cs_log := Some (ls @ [l])\<rparr>)"
  by (auto simp: trace_wf_def coprint_def)

lemma print_reg_wf:
  assumes "trace_wf n s" and "unat prd < n"
  shows "\<exists>ls. cs_log s = Some ls \<and>
    print_reg rd prd s = Inr (s\<lparr>cs_log := Some (ls @ [Reg rd (cs_preg s ! unat prd)])\<rparr>) \<and>
    trace_wf n (s\<lparr>cs_log := Some (ls @ [Reg rd (cs_preg s ! unat prd)])\<rparr>)"
  using assms coprint_wf [OF assms(1), of "Reg rd (cs_preg s ! unat prd)"]
  by (auto simp: print_reg_def get_at_def trace_wf_def)

text \<open>Printing leaves the registers and what is expected alone.\<close>

lemma print_csr_wf:
  assumes "trace_wf n s"
  shows "\<exists>s'. print_csr s = Inr s' \<and> trace_wf n s' \<and> \<not> cs_need_print s' \<and>
    cs_preg s' = cs_preg s \<and> cs_monitor_read s' = cs_monitor_read s"
proof (cases "cs_need_print s")
  case True
  then obtain m where m: "cs_name s = Some m" "csr_name_ok m" using assms by (auto simp: trace_wf_def)
  then obtain ls where "coprint (Csr m (cs_value s)) s = Inr (s\<lparr>cs_log := Some (ls @ [Csr m (cs_value s)])\<rparr>)"
      "trace_wf n (s\<lparr>cs_log := Some (ls @ [Csr m (cs_value s)])\<rparr>)"
    using coprint_wf [OF assms, of "Csr m (cs_value s)"] by auto
  then show ?thesis using True m by (auto simp: print_csr_def trace_wf_def)
qed (use assms in \<open>simp add: print_csr_def\<close>)

lemma head_wf:
  "trace_wf n s \<Longrightarrow> \<exists>ls. cs_log s = Some ls \<and>
     trace_wf n (s\<lparr>cs_log := Some (ls @ [Separator, Pc pc])\<rparr>) \<and>
     (\<forall>k. res_bind (coprint Separator s) (\<lambda>s. res_bind (coprint (Pc pc) s) k) =
       k (s\<lparr>cs_log := Some (ls @ [Separator, Pc pc])\<rparr>))"
  by (auto simp: trace_wf_def coprint_def)

lemma log_commit_wf:
  assumes "trace_wf n s" and "unat (co_prf_name c) < n"
  shows "\<exists>s'. log_commit c s = Inr s' \<and> trace_wf n s' \<and> cs_preg s' = cs_preg s"
proof -
  obtain ls where 2: "trace_wf n (s\<lparr>cs_log := Some (ls @ [Separator, Pc (co_pc_in c)])\<rparr>)"
      "\<And>k :: cosim \<Rightarrow> cosim res. res_bind (coprint Separator s) (\<lambda>s. res_bind (coprint (Pc (co_pc_in c)) s) k) =
        k (s\<lparr>cs_log := Some (ls @ [Separator, Pc (co_pc_in c)])\<rparr>)"
    using head_wf [OF assms(1), of "co_pc_in c"] by blast
  define s2 where "s2 = s\<lparr>cs_log := Some (ls @ [Separator, Pc (co_pc_in c)])\<rparr>"
  have s2: "trace_wf n s2" "cs_preg s2 = cs_preg s" using 2(1) by (simp_all add: s2_def)
  obtain s3 where 3: "print_csr s2 = Inr s3" "trace_wf n s3" "cs_preg s3 = cs_preg s"
    using print_csr_wf [OF s2(1)] s2(2) by auto
  have reg: "\<exists>t. print_reg (co_rob_rd c) (co_prf_name c) u = Inr t \<and> trace_wf n t \<and> cs_preg t = cs_preg u"
    if "trace_wf n u" for u using print_reg_wf [OF that assms(2), of "co_rob_rd c"] by auto
  have off: "trace_wf n (u\<lparr>cs_monitor_read := False\<rparr>)" if "trace_wf n u" for u
    using that by (simp add: trace_wf_def)
  have base: "log_commit c s =
      (if co_uses_csr c then
         res_map (\<lambda>s. s\<lparr>cs_monitor_read := False\<rparr>)
           (if co_rob_rd c \<noteq> 0 \<and> cs_monitor_read s3 then print_reg (co_rob_rd c) (co_prf_name c) s3 else Inr s3)
       else if co_fence c \<or> co_mret c \<or> co_wfi c \<or> co_store_in c then Inr s2
       else if co_rob_rd c \<noteq> 0 then print_reg (co_rob_rd c) (co_prf_name c) s2 else Inr s2)"
    unfolding log_commit_def 2(2) s2_def [symmetric] by (simp add: 3(1))
  show ?thesis using reg [OF s2(1)] reg [OF 3(2)] off 3(2,3) s2 unfolding base by auto
qed

lemma log_issue_wf: "trace_wf n s \<Longrightarrow> trace_wf n (log_issue c s) \<and> cs_preg (log_issue c s) = cs_preg s"
  using csr_names_ok [of "co_csr_address c"] by (auto simp: log_issue_def trace_wf_def split: option.splits)

lemma trace_step_wf:
  assumes "trace_wf n s" and "trace_regs_ok n c"
  shows "\<exists>s'. trace_step c s = Inr s' \<and> trace_wf n s' \<and>
    abs_regs (cs_preg s') = reg_writes (trace_writes c) (abs_regs (cs_preg s))"
proof (cases c)
  case (Preg_sync p)
  then show ?thesis
    using assms trace_mirror.mirror_step [of "cs_preg s" p] by (auto simp: trace_wf_def)
next
  case (Csr_monitor a v d)
  then show ?thesis using assms(1) by (auto simp: csr_monitor_def trace_wf_def reg_writes_def)
next
  case (Log_print l)
  obtain s1 where "(if co_commit l then log_commit l s else Inr s) = Inr s1" "trace_wf n s1"
      "cs_preg s1 = cs_preg s"
    using log_commit_wf [OF assms(1), of l] assms Log_print by (cases "co_commit l") auto
  then show ?thesis
    using Log_print log_issue_wf [of n s1 l] by (simp add: log_print_def reg_writes_def)
qed

section \<open>Helper lemmas of the properties\<close>

lemma render_line:
  assumes "line_ok l"
  shows "\<exists>b. render l = b @ [newline] \<and> newline \<notin> set b"
proof (cases l)
  case Separator
  then show ?thesis by (auto simp: newline_def)
next
  case (Pc pc)
  then show ?thesis using hex_fixed_chars
    by (auto simp: newline_def intro!: exI [of _ "''0x'' @ hex_fixed 8 (unat pc)"])
next
  case (Csr n v)
  then show ?thesis using hex_fixed_chars assms
    by (auto simp: newline_def csr_name_ok_def intro!: exI [of _ "''CSR '' @ n @ '' <- 0x'' @ hex_fixed 16 (unat v)"])
next
  case (Reg rd v)
  then show ?thesis using hex_fixed_chars dec_int_chars
    by (auto simp: newline_def intro!: exI [of _ "''x'' @ dec_int rd @ '' <- 0x'' @ hex_fixed 16 (unat v)"])
qed

lemma unat_u64_less: "unat (v::u64) < 16 ^ 16"
proof -
  have "unat v < 2 ^ LENGTH(64)" by (rule unsigned_less)
  then show ?thesis by simp
qed

lemma unat_u32_less: "unat (v::u32) < 16 ^ 8"
proof -
  have "unat v < 2 ^ LENGTH(32)" by (rule unsigned_less)
  then show ?thesis by simp
qed

lemma hex_u64_inj: "hex_fixed 16 (unat (v::u64)) = hex_fixed 16 (unat w) \<longleftrightarrow> v = w"
  using hex_fixed_inj [OF unat_u64_less unat_u64_less, of v w] by (auto simp: word_unat_eq_iff)

lemma hex_u32_inj: "hex_fixed 8 (unat (v::u32)) = hex_fixed 8 (unat w) \<longleftrightarrow> v = w"
  using hex_fixed_inj [OF unat_u32_less unat_u32_less, of v w] by (auto simp: word_unat_eq_iff)

lemma render_inj: "render l = render k \<Longrightarrow> l = k"
proof -
  assume eq: "render l = render k"
  have tail: "a @ '' <- 0x'' @ hex_fixed 16 (unat v) = b @ '' <- 0x'' @ hex_fixed 16 (unat w) \<longleftrightarrow> a = b \<and> v = w"
    for a b and v w :: u64
    using append_eq_append_conv [of "'' <- 0x'' @ hex_fixed 16 (unat v)" "'' <- 0x'' @ hex_fixed 16 (unat w)" a b]
    by (auto simp: hex_u64_inj)
  show ?thesis
    using eq by (cases l; cases k) (auto simp: hex_u32_inj hex_u64_inj tail dest!: dec_int_inj)
qed

lemma log_text_inj:
  assumes "list_all line_ok ls" and "list_all line_ok ks" and "log_text ls = log_text ks"
  shows "ls = ks"
  using assms
proof (induction ls arbitrary: ks)
  case Nil
  have "render k \<noteq> []" for k by (cases k) auto
  then show ?case using Nil by (cases ks) (auto simp: log_text_def)
next
  case (Cons l ls)
  obtain b where b: "render l = b @ [newline]" "newline \<notin> set b"
    using render_line [of l] Cons.prems(1) by auto
  obtain k ks' where ks: "ks = k # ks'" using Cons.prems(3) b(1) by (cases ks) (auto simp: log_text_def)
  obtain d where d: "render k = d @ [newline]" "newline \<notin> set d"
    using render_line [of k] Cons.prems(2) ks by auto
  have "b = d \<and> log_text ls = log_text ks'"
    using Cons.prems(3) b d ks by (intro line_split) (simp_all add: log_text_def)
  then have "l = k" and tail: "log_text ls = log_text ks'" using b(1) d(1) render_inj [of l k] by auto
  moreover have "ls = ks'" using Cons.prems(1,2) ks by (intro Cons.IH [OF _ _ tail]) simp_all
  ultimately show ?case using ks by simp
qed

lemma bit_mask_loop: "bit (mask_loop n m) k \<longleftrightarrow> k < 32 \<and> (if k < n then True else bit m (k - n))"
proof (induction n arbitrary: m)
  case 0
  then show ?case by (auto dest: bit_imp_le_length)
next
  case (Suc n)
  define p where "p = push_bit 1 m"
  have p: "bit p j \<longleftrightarrow> j < 32 \<and> 0 < j \<and> bit m (j - 1)" for j
    unfolding p_def by (subst Bit_Operations.bit_push_bit_iff) (auto dest: bit_imp_le_length)
  have "p + 1 = p OR 1" by (rule or_is_add_if_disjoint) (auto simp: p bit_1_iff)
  then have "bit (mask_loop (Suc n) m) k \<longleftrightarrow> k < 32 \<and> (k < n \<or> bit (p OR 1) (k - n))"
    using Suc.IH [of "p OR 1"] p_def by simp
  moreover have "bit (p OR 1) (k - n) \<longleftrightarrow> k \<le> n \<or> bit p (k - n)" by (auto simp: bit_or_iff bit_1_iff)
  ultimately show ?case using p [of "k - n"] by (auto simp: not_less less_Suc_eq)
qed

lemma mask_loop_mask: "mask_loop n 1 = mask (Suc n)"
  by (rule bit_word_eqI) (auto simp: bit_mask_loop bit_simps less_Suc_eq)

lemma sint_small: "n < 32 \<Longrightarrow> sint (of_nat n :: u32) = int n"
  by (simp add: signed_of_nat signed_take_bit_int_eq_self)

lemma unat_small: "n < 32 \<Longrightarrow> unat (of_nat n :: u32) = n"
  by (simp add: unsigned_of_nat take_bit_nat_eq_self)

lemma negative_is_large:
  assumes "- 32 \<le> d" and "d < 0"
  shows "2 ^ 31 \<le> unat (word_of_int d :: u32)"
proof -
  have "unat (word_of_int d :: u32) = nat (d mod 2 ^ 32)"
    by (simp add: unsigned_of_int take_bit_eq_mod)
  moreover have "d mod 2 ^ 32 = (d + 2 ^ 32) mod 2 ^ 32" by simp
  moreover have "(d + 2 ^ 32) mod 2 ^ 32 = d + 2 ^ 32" using assms by (intro mod_pos_pos_trivial) simp_all
  ultimately show ?thesis using assms by simp
qed

lemma signed_slice:
  fixes x :: u32
  assumes "r \<le> l" and "l < 32"
  shows "signed_drop_bit r x AND mask (Suc (l - r)) = take_bit (Suc (l - r)) (drop_bit r x)"
proof (rule bit_word_eqI)
  fix k assume "k < LENGTH(32)"
  have "k < Suc (l - r) \<Longrightarrow> r + k < 32" using assms by auto
  then show "bit (signed_drop_bit r x AND mask (Suc (l - r))) k \<longleftrightarrow>
      bit (take_bit (Suc (l - r)) (drop_bit r x)) k"
    by (auto simp: bit_and_iff bit_mask_iff bit_take_bit_iff bit_drop_bit_eq bit_signed_drop_bit_iff
        ac_simps dest: bit_imp_le_length)
qed

text \<open>
  \<open>bit32_tailor(origin, left, right)\<close> with bit positions below 32 returns the field
  \<open>origin[left:right]\<close> in the low bits of its result, although it shifts a signed number; with the
  two positions the wrong way round its mask loop runs into a signed overflow.
\<close>

theorem bit32_tailor_is_slice:
  assumes "l < 32" and "r < 32"
  shows "if r \<le> l
    then \<exists>y. bit32_tailor x (of_nat l) (of_nat r) = Inr y \<and>
      unat y = unat x div 2 ^ r mod 2 ^ (l - r + 1)
    else bit32_tailor x (of_nat l) (of_nat r) = Inl (Undefined ''signed overflow'')"
proof (cases "r \<le> l")
  case True
  then have w: "int l - int r = int (l - r)" "unat (word_of_int (int (l - r)) :: u32) = l - r"
    using assms unat_small [of "l - r"] by simp_all
  have "l - r < 2 ^ 31" using assms(1) by simp
  then have "bit32_tailor x (of_nat l) (of_nat r) = Inr (signed_drop_bit r x AND mask_loop (l - r) 1)"
    unfolding bit32_tailor_def Let_def sint_small [OF assms(1)] sint_small [OF assms(2)] w
      unat_small [OF assms(2)] using assms(2) by simp
  then have "bit32_tailor x (of_nat l) (of_nat r) = Inr (take_bit (Suc (l - r)) (drop_bit r x))"
    unfolding mask_loop_mask signed_slice [OF True assms(1)] .
  moreover have "unat (take_bit (Suc (l - r)) (drop_bit r x)) = unat x div 2 ^ r mod 2 ^ (l - r + 1)"
    unfolding unsigned_take_bit_eq unsigned_drop_bit_eq
    using unat_u32_less [of x] by (simp add: take_bit_nat_def drop_bit_nat_def)
  ultimately show ?thesis using True by simp
next
  case False
  then have "2 ^ 31 \<le> unat (word_of_int (int l - int r) :: u32)"
    using assms by (intro negative_is_large) simp_all
  then show ?thesis using False assms unfolding bit32_tailor_def Let_def
    by (simp add: sint_small del: of_int_diff of_int_of_nat_eq)
qed

theorem bit32_tailor_is_slice_witness:
  "\<exists>y. bit32_tailor 0xfec50513 31 20 = Inr y \<and> unat y = 0xfec"
  using bit32_tailor_is_slice [of 31 20 "0xfec50513"] by simp

lemma trace_syncs:
  assumes "trace_wf n u" and "\<forall>p\<in>set ps. trace_regs_ok n (Preg_sync p)"
  shows "\<exists>ss. run_res trace_step (map Preg_sync ps) u = Inr ss \<and>
    (\<exists>v. last (u # ss) = u\<lparr>cs_preg := v\<rparr> \<and> length v = length (cs_preg u) \<and>
      abs_regs v = reg_writes (concat (map sync_writes2 ps)) (abs_regs (cs_preg u)))"
  using assms
proof (induction ps arbitrary: u)
  case Nil
  then show ?case by (auto simp: reg_writes_def intro: exI [of _ "cs_preg u"])
next
  case (Cons p ps)
  then obtain v where v: "preg_sync p (cs_preg u) = Inr v" "length v = length (cs_preg u)" "mirror_ok v"
      "abs_regs v = reg_writes (sync_writes2 p) (abs_regs (cs_preg u))"
    using trace_mirror.mirror_step [of "cs_preg u" p] by (auto simp: trace_wf_def)
  have "trace_wf n (u\<lparr>cs_preg := v\<rparr>)" using Cons.prems(1) v by (simp add: trace_wf_def)
  then obtain ss w where "run_res trace_step (map Preg_sync ps) (u\<lparr>cs_preg := v\<rparr>) = Inr ss"
      "last (u\<lparr>cs_preg := v\<rparr> # ss) = u\<lparr>cs_preg := w\<rparr>" "length w = length v"
      "abs_regs w = reg_writes (concat (map sync_writes2 ps)) (abs_regs v)"
    using Cons.IH [of "u\<lparr>cs_preg := v\<rparr>"] Cons.prems(2) by auto
  then show ?case using v by (auto simp: reg_writes_def)
qed

section \<open>Properties of the single-commit trace\<close>

text \<open>
  C20. Whatever calls the core makes, as long as the physical registers it names exist: the trace
  functions never fault (no null name printed, no register out of range), and the mirrored register
  file holds what the writes of the calls give on a register file whose register 0 is hard-wired
  to 0. When both ports write one register the load-store port wins.
\<close>

theorem trace_mirrors_registers:
  assumes "trace_wf n s" and "\<forall>c\<in>set cs. trace_regs_ok n c"
  shows "\<exists>ss. run_res trace_step cs s = Inr ss \<and> (\<forall>t\<in>set ss. trace_wf n t) \<and>
    abs_regs (cs_preg (last (s # ss))) = reg_writes (concat (map trace_writes cs)) (abs_regs (cs_preg s))"
  using run_res_total [of "trace_wf n" "trace_regs_ok n" trace_step "\<lambda>s. abs_regs (cs_preg s)"
      "\<lambda>c. reg_writes (trace_writes c)", OF trace_step_wf assms]
  by (simp add: reg_writes_concat)

theorem trace_mirrors_registers_witness:
  "\<exists>ss. run_res trace_step
      [Preg_sync \<lparr>alu_valid = 1, lsu_valid = 1, alu_data_in = 7, lsu_data_in = 9, alu_address = 3, lsu_address = 63\<rparr>,
       Log_print \<lparr>co_commit = True, co_pc_in = 0x80000000, co_store_in = False, co_fence = False, co_mret = False,
         co_wfi = False, co_uses_csr = False, co_rob_rd = 5, co_csr_iss_ctrl = False, co_prf_name = 3,
         co_csr_address = 0\<rparr>] (cosim0 (Some []) 64) = Inr ss \<and>
    abs_regs (cs_preg (last (cosim0 (Some []) 64 # ss))) 63 = 9"
proof -
  let ?cs = "[Preg_sync \<lparr>alu_valid = 1, lsu_valid = 1, alu_data_in = 7, lsu_data_in = 9, alu_address = 3, lsu_address = 63\<rparr>,
       Log_print \<lparr>co_commit = True, co_pc_in = 0x80000000, co_store_in = False, co_fence = False, co_mret = False,
         co_wfi = False, co_uses_csr = False, co_rob_rd = 5, co_csr_iss_ctrl = False, co_prf_name = 3,
         co_csr_address = 0\<rparr>]"
  have "\<forall>c\<in>set ?cs. trace_regs_ok 64 c"
    by (simp add: sync_writes2_def port_writes_def of_flag_def)
  from trace_mirrors_registers [OF cosim0_wf this] show ?thesis
    by (auto simp: reg_writes_def sync_writes2_def port_writes_def of_flag_def)
qed

text \<open>
  C32. The text of the log can be read back: two logs of the trace functions with the same
  characters record the same commits, program counters, registers and values.
\<close>

theorem trace_log_readable:
  assumes "trace_wf n s" and "trace_wf m t" and "cs_log s = Some ls" and "cs_log t = Some ks"
    and "log_text ls = log_text ks"
  shows "ls = ks"
  using assms log_text_inj [of ls ks] by (auto simp: trace_wf_def)

theorem trace_log_readable_witness:
  "log_text [Separator, Pc 0x80000000, Reg 5 7] = log_text [Separator, Pc (0x7fffffff + 1), Reg 5 7] \<and>
   [Separator, Pc 0x80000000, Reg 5 7] = [Separator, Pc (0x7fffffff + 1), Reg 5 7]"
proof -
  have "trace_wf 64 (cosim0 (Some [Separator, Pc x, Reg 5 7]) 64)" for x
    by (simp add: trace_wf_def cosim0_def mirror_ok_def)
  from trace_log_readable [OF this [of "0x80000000"] this [of "0x7fffffff + 1"]] show ?thesis
    by (simp add: cosim0_def)
qed

text \<open>
  C21. A write to one of the four traced control registers appears in the log: the instruction is
  issued, then writes the register, then (after any number of register-file writes) commits; its
  block is the separator, the program counter, the name of the register with the written value
  masked to the bits the register has, and the destination register.
\<close>

theorem csr_write_is_logged:
  assumes "trace_wf n s" and "cs_log s = Some ls" and "\<not> co_commit i" and "co_csr_iss_ctrl i"
    and "csr_names (co_csr_address i) = Some name"
    and "co_commit c" and "co_uses_csr c" and "co_rob_rd c \<noteq> 0" and "unat (co_prf_name c) < n"
    and "\<forall>p\<in>set ps. trace_regs_ok n (Preg_sync p)"
  shows "\<exists>ss. run_res trace_step
      ([Log_print i, Csr_monitor (co_csr_address i) True d] @ map Preg_sync ps @ [Log_print c]) s = Inr ss \<and>
    cs_log (last (s # ss)) = Some (ls @ [Separator, Pc (co_pc_in c),
      Csr name (csr_written (co_csr_address i) d 0),
      Reg (co_rob_rd c) (reg_writes (concat (map sync_writes2 ps)) (abs_regs (cs_preg s)) (unat (co_prf_name c)))])"
proof -
  define s1 where "s1 = s\<lparr>cs_monitor_read := True, cs_name := Some name\<rparr>"
  define s2 where "s2 = s1\<lparr>cs_need_print := True, cs_value := csr_written (co_csr_address i) d 0\<rparr>"
  have v: "csr_written (co_csr_address i) d old = csr_written (co_csr_address i) d 0" for old
    using assms(5) by (auto simp: csr_names_def csr_written_def split: if_splits)
  have 1: "trace_step (Log_print i) s = Inr s1"
    using assms(3-5) by (simp add: log_print_def log_issue_def s1_def)
  have 2: "trace_step (Csr_monitor (co_csr_address i) True d) s1 = Inr s2"
    by (simp add: csr_monitor_def s1_def s2_def v [of "cs_value s"])
  have wf: "trace_wf n s2" using assms(1) csr_names_ok [OF assms(5)] by (simp add: trace_wf_def s1_def s2_def)
  have syncs: "\<exists>ss. run_res trace_step (map Preg_sync ps) u = Inr ss \<and>
      (\<exists>v. last (u # ss) = u\<lparr>cs_preg := v\<rparr> \<and> length v = length (cs_preg u) \<and>
        abs_regs v = reg_writes (concat (map sync_writes2 ps)) (abs_regs (cs_preg u)))"
    if "trace_wf n u" for u using that assms(10) trace_syncs by blast
  obtain ss v where 3: "run_res trace_step (map Preg_sync ps) s2 = Inr ss" "last (s2 # ss) = s2\<lparr>cs_preg := v\<rparr>"
      "length v = n" "abs_regs v = reg_writes (concat (map sync_writes2 ps)) (abs_regs (cs_preg s))"
    using syncs [OF wf] wf by (auto simp: s1_def s2_def trace_wf_def)
  have "v ! unat (co_prf_name c) = reg_writes (concat (map sync_writes2 ps)) (abs_regs (cs_preg s)) (unat (co_prf_name c))"
    unfolding 3(4) [symmetric] using 3(3) assms(9) by (simp add: abs_regs_def)
  then have 4: "\<exists>t. trace_step (Log_print c) (last (s2 # ss)) = Inr t \<and>
      cs_log t = Some (ls @ [Separator, Pc (co_pc_in c), Csr name (csr_written (co_csr_address i) d 0),
        Reg (co_rob_rd c) (reg_writes (concat (map sync_writes2 ps)) (abs_regs (cs_preg s)) (unat (co_prf_name c)))])"
    unfolding 3(2) using assms(2,6-9) 3(3)
    by (auto simp: log_print_def log_commit_def coprint_def print_csr_def print_reg_def get_at_def s1_def s2_def
        log_issue_def split: option.splits)
  then show ?thesis using 1 2 3(1) by (auto simp: run_res_append)
qed

theorem csr_write_is_logged_witness:
  "\<exists>ss. run_res trace_step
      [Log_print \<lparr>co_commit = False, co_pc_in = 0, co_store_in = False, co_fence = False, co_mret = False,
         co_wfi = False, co_uses_csr = False, co_rob_rd = 0, co_csr_iss_ctrl = True, co_prf_name = 0,
         co_csr_address = 0x305\<rparr>,
       Csr_monitor 0x305 True 0x80000103,
       Log_print \<lparr>co_commit = True, co_pc_in = 0x80000010, co_store_in = False, co_fence = False, co_mret = False,
         co_wfi = False, co_uses_csr = True, co_rob_rd = 6, co_csr_iss_ctrl = False, co_prf_name = 40,
         co_csr_address = 0\<rparr>] (cosim0 (Some []) 64) = Inr ss \<and>
    cs_log (last (cosim0 (Some []) 64 # ss)) =
      Some [Separator, Pc 0x80000010, Csr ''mtvec'' 0x80000100, Reg 6 0]"
proof -
  let ?i = "\<lparr>co_commit = False, co_pc_in = 0, co_store_in = False, co_fence = False, co_mret = False,
         co_wfi = False, co_uses_csr = False, co_rob_rd = 0, co_csr_iss_ctrl = True, co_prf_name = 0,
         co_csr_address = 0x305\<rparr>"
  let ?c = "\<lparr>co_commit = True, co_pc_in = 0x80000010, co_store_in = False, co_fence = False, co_mret = False,
         co_wfi = False, co_uses_csr = True, co_rob_rd = 6, co_csr_iss_ctrl = False, co_prf_name = 40,
         co_csr_address = 0\<rparr>"
  have "\<exists>ss. run_res trace_step
      ([Log_print ?i, Csr_monitor (co_csr_address ?i) True 0x80000103] @ map Preg_sync [] @ [Log_print ?c])
        (cosim0 (Some []) 64) = Inr ss \<and>
    cs_log (last (cosim0 (Some []) 64 # ss)) = Some ([] @ [Separator, Pc (co_pc_in ?c),
      Csr ''mtvec'' (csr_written (co_csr_address ?i) 0x80000103 0),
      Reg (co_rob_rd ?c) (reg_writes (concat (map sync_writes2 [])) (abs_regs (cs_preg (cosim0 (Some []) 64)))
        (unat (co_prf_name ?c)))])"
    by (rule csr_write_is_logged [OF cosim0_wf]) (simp_all add: cosim0_def csr_names_def)
  then show ?thesis by (simp add: csr_written_def reg_writes_def abs_regs_def cosim0_def)
qed

section \<open>The dual-commit trace\<close>

definition is_csr_line :: "log_line \<Rightarrow> bool" where
  "is_csr_line l = (case l of Csr n v \<Rightarrow> True | _ \<Rightarrow> False)"

definition cosim_quiet :: "nat \<Rightarrow> cosim \<Rightarrow> bool" where
  "cosim_quiet n s \<longleftrightarrow>
     trace_wf n s \<and> \<not> cs_need_print s \<and> \<not> cs_monitor_read s \<and> filter is_csr_line (the (cs_log s)) = []"

fun cosim_regs_ok :: "nat \<Rightarrow> cosim_call \<Rightarrow> bool" where
  "cosim_regs_ok n (Preg_sync5 c) = (\<forall>(r, x)\<in>set (sync_writes5 c). r < n)"
| "cosim_regs_ok n (Csr5_monitor a v d) = True"
| "cosim_regs_ok n (Log5_print c) = (unat (rob_prd_first c) < n)"

fun cosim_writes :: "cosim_call \<Rightarrow> (nat \<times> u64) list" where
  "cosim_writes (Preg_sync5 c) = sync_writes5 c"
| "cosim_writes _ = []"

lemma log5_print_quiet:
  assumes "cosim_quiet n s" and "unat (rob_prd_first c) < n"
  shows "\<exists>s'. log5_print c s = Inr s' \<and> cosim_quiet n s' \<and> cs_preg s' = cs_preg s"
proof -
  obtain ls where ls: "cs_log s = Some ls" using assms(1) by (auto simp: cosim_quiet_def trace_wf_def)
  show ?thesis
    using assms ls
    by (auto simp: log5_print_def cosim_quiet_def trace_wf_def coprint_def print_csr_def print_reg_def get_at_def
        is_csr_line_def split: option.splits)
qed

lemma cosim_step_quiet:
  assumes "cosim_quiet n s" and "cosim_regs_ok n c"
  shows "\<exists>s'. cosim_step c s = Inr s' \<and> cosim_quiet n s' \<and>
    abs_regs (cs_preg s') = reg_writes (cosim_writes c) (abs_regs (cs_preg s))"
proof (cases c)
  case (Preg_sync5 p)
  then show ?thesis
    using assms cosim_mirror.mirror_step [of "cs_preg s" p] by (auto simp: cosim_quiet_def trace_wf_def)
next
  case (Csr5_monitor a v d)
  then show ?thesis using assms(1) by (auto simp: csr5_monitor_def cosim_quiet_def reg_writes_def)
next
  case (Log5_print l)
  then show ?thesis using log5_print_quiet [OF assms(1), of l] assms(2) by (auto simp: reg_writes_def)
qed

text \<open>
  C33. The dual-commit trace never writes a CSR line, whatever the core does: the flag that arms the
  CSR monitor is cleared before \<open>log_print\<close> returns, so no CSR write is ever remembered. Its
  register mirror takes the writes of the second ALU, of the multiplier and of the CSR unit exactly
  when the first ALU is valid.
\<close>

theorem cosim_never_logs_csr:
  assumes "\<forall>c\<in>set cs. cosim_regs_ok 48 c"
  shows "\<exists>ss. run_res cosim_step cs init_cosim = Inr ss \<and>
    (\<forall>t\<in>set ss. \<exists>ls. cs_log t = Some ls \<and> (\<forall>l\<in>set ls. \<not> is_csr_line l)) \<and>
    abs_regs (cs_preg (last (init_cosim # ss))) = reg_writes (concat (map cosim_writes cs)) (\<lambda>r. 0)"
proof -
  have start: "cosim_quiet 48 init_cosim"
    using cosim0_wf [of 48] by (simp add: cosim_quiet_def init_cosim_def cosim0_def)
  have zero: "abs_regs (cs_preg init_cosim) = (\<lambda>r. 0)"
    by (auto simp: abs_regs_def init_cosim_def cosim0_def)
  have quiet: "\<exists>ls. cs_log t = Some ls \<and> (\<forall>l\<in>set ls. \<not> is_csr_line l)" if "cosim_quiet 48 t" for t
    using that by (auto simp: cosim_quiet_def trace_wf_def filter_empty_conv)
  show ?thesis
    using run_res_total [of "cosim_quiet 48" "cosim_regs_ok 48" cosim_step "\<lambda>s. abs_regs (cs_preg s)"
        "\<lambda>c. reg_writes (cosim_writes c)", OF cosim_step_quiet start assms] quiet
    unfolding zero reg_writes_concat by blast
qed

theorem cosim_never_logs_csr_witness:
  "\<exists>ss. run_res cosim_step
      [Preg_sync5 \<lparr>alu1_valid = 0, alu2_valid = 1, md_valid = 1, lsu5_valid = 0, csru_valid = 1,
         alu1_address = 1, alu2_address = 2, md_address = 3, lsu5_address = 4, csru_address = 5,
         alu1_data = 11, alu2_data = 12, md_data = 13, lsu5_data = 14, csru_data = 15\<rparr>,
       Csr5_monitor 0x305 1 0x80000100] init_cosim = Inr ss \<and>
    abs_regs (cs_preg (last (init_cosim # ss))) = (\<lambda>r. 0)"
proof -
  let ?cs = "[Preg_sync5 \<lparr>alu1_valid = 0, alu2_valid = 1, md_valid = 1, lsu5_valid = 0, csru_valid = 1,
         alu1_address = 1, alu2_address = 2, md_address = 3, lsu5_address = 4, csru_address = 5,
         alu1_data = 11, alu2_data = 12, md_data = 13, lsu5_data = 14, csru_data = 15\<rparr>,
       Csr5_monitor 0x305 1 0x80000100]"
  have "\<forall>c\<in>set ?cs. cosim_regs_ok 48 c" by (simp add: sync_writes5_def port_writes_def)
  from cosim_never_logs_csr [OF this] show ?thesis
    by (auto simp: sync_writes5_def port_writes_def reg_writes_def)
qed

end
