(* ===== verification/Core_Sim.thy ===== *)
theory Core_Sim
  imports Magic_Memory Trace_Log
begin

unbundle bit_operations_syntax

text \<open>
  The simulated core with its memory, \<open>sim/core.hpp\<close> and \<open>sim/core.cpp\<close>, and the DPI functions the
  core calls: the counters of \<open>core.cpp\<close>, \<open>tohost_handler\<close> of \<open>sim/simulator.cpp\<close> and the trace
  functions. The Verilated core is generated code: it is an argument, a function that evaluates it
  for the values on its input pins and says which DPI functions it calls meanwhile, and two that
  read its bus outputs. The DPI functions return nothing, so what they do cannot reach the core
  other than through its pins.
\<close>

section \<open>Calls of the core\<close>

record tohost_call =
  th_we :: u8
  th_address :: u32
  th_data :: u32
  th_valid :: u8
  th_ready :: u8

record predict_call =
  branch_valid_i :: u8
  ins_empty :: u8
  real_branch :: u32
  pc_out :: u32
  ins_pc_in :: u32

datatype dpi_call =
  Tohost tohost_call | Commit_check u8 | Prediction predict_call | Trace trace_call

definition interrupt_names :: "string list" where
  "interrupt_names =
     [''user software'', ''supervisor software'', ''hypervisor software'', ''machine software'',
      ''user timer'', ''supervisor timer'', ''hypervisor timer'', ''machine timer'',
      ''user external'', ''supervisor external'', ''hypervisor external'', ''machine external'']"

definition exception_names :: "string list" where
  "exception_names =
     [''misaligned fetch'', ''fetch access'', ''illegal instruction'', ''breakpoint'',
      ''misaligned load'', ''load access'', ''misaligned store'', ''store access'',
      ''user_ecall'', ''supervisor_ecall'', ''hypervisor_ecall'', ''machine_ecall'',
      ''fetch page fault'', ''load page fault'', ''reserved for std'', ''store page fault'']"

text \<open>The line printed before \<open>exit(1)\<close>.\<close>

definition tohost_message :: "u32 \<Rightarrow> string" where
  "tohost_message d =
     (let k = unat (d AND 0xff) in
      if d AND 0x7000000 \<noteq> 0 then
        (if k < 12 then ''Failed with unhandled interrupt '' @ [CHR 0x27] @ interrupt_names ! k @ [CHR 0x27, newline]
         else ''Failed with unhandled interrupt'' @ [newline])
      else
        (if k < 16 then ''Failed with unhandled exception '' @ [CHR 0x27] @ exception_names ! k @ [CHR 0x27, newline]
         else ''Failed with unhandled exception'' @ [newline]))"

text \<open>\<open>Inl\<close> is the message of an \<open>exit(1)\<close>, \<open>Inr\<close> the new \<open>global_flag\<close>. \<open>we\<close> is not tested.\<close>

definition tohost_handler :: "tohost_call \<Rightarrow> nat \<Rightarrow> string + nat" where
  "tohost_handler t flag =
     (if th_valid t = 1 \<and> th_ready t = 1 \<and> th_address t = 0x80001000 then
        if th_data t = 1 then Inr 1
        else if th_data t AND 0x100 \<noteq> 0 then Inl (tohost_message (th_data t))
        else Inr 2
      else Inr flag)"

section \<open>Counters\<close>

text \<open>
  \<open>x++\<close> on a \<open>float\<close> and on a \<open>double\<close> that count from 0: beyond the 24 or 53 bits of the
  significand the sum rounds back to the old value.
\<close>

definition float_inc :: "nat \<Rightarrow> nat" where
  "float_inc x = (if x < 2 ^ 24 then x + 1 else x)"

definition double_inc :: "nat \<Rightarrow> nat" where
  "double_inc x = (if x < 2 ^ 53 then x + 1 else x)"

text \<open>\<open>(predict_total, predict_right)\<close>\<close>

definition count_prediction :: "bool \<Rightarrow> nat \<times> nat \<Rightarrow> nat \<times> nat" where
  "count_prediction hit c = (float_inc (fst c), if hit then float_inc (snd c) else snd c)"

definition prediction_accuracy :: "predict_call \<Rightarrow> nat \<times> nat \<Rightarrow> nat \<times> nat" where
  "prediction_accuracy p c =
     (let c1 = (if branch_valid_i p AND of_flag (ins_empty p = 0) \<noteq> 0
                then count_prediction (real_branch p = pc_out p) c else c)
      in if branch_valid_i p AND ins_empty p \<noteq> 0
         then count_prediction (real_branch p = ins_pc_in p) c1 else c1)"

section \<open>State\<close>

record core_pins =
  clk :: bool
  reset_pin :: bool
  m2_in :: wb_in
  m3_in :: wb_in

record 'c core_model =
  v_eval :: "core_pins \<Rightarrow> 'c \<Rightarrow> 'c \<times> dpi_call list"
  v_m2 :: "'c \<Rightarrow> wb_out"
  v_m3 :: "'c \<Rightarrow> wb_out"

text \<open>
  \<open>Core\<close> with the global variables the DPI functions change. \<open>sm_calls\<close> is a history variable: the
  calls made so far, which no operation reads.
\<close>

record 'c sim =
  sm_core :: 'c
  sm_pins :: core_pins
  sm_memory :: magic_memory
  sm_cycle_num :: nat
  sm_ins_num :: nat
  sm_ins_commit :: bool
  sm_predict :: "nat \<times> nat"
  sm_global_flag :: nat
  sm_cosim :: cosim
  sm_calls :: "dpi_call list"

text \<open>A call may end the program: \<open>exit(1)\<close> with a message.\<close>

datatype 's ctl = Exits string 's | Runs 's

fun ctl_bind :: "'s ctl res \<Rightarrow> ('s \<Rightarrow> 's ctl res) \<Rightarrow> 's ctl res" where
  "ctl_bind (Inl e) f = Inl e"
| "ctl_bind (Inr (Exits m s)) f = Inr (Exits m s)"
| "ctl_bind (Inr (Runs s)) f = f s"

fun do_call :: "dpi_call \<Rightarrow> 'c sim \<Rightarrow> 'c sim ctl res" where
  "do_call (Tohost t) s =
     (case tohost_handler t (sm_global_flag s) of
        Inl m \<Rightarrow> Inr (Exits m s)
      | Inr f \<Rightarrow> Inr (Runs (s\<lparr>sm_global_flag := f\<rparr>)))"
| "do_call (Commit_check v) s = Inr (Runs (s\<lparr>sm_ins_commit := (v \<noteq> 0)\<rparr>))"
| "do_call (Prediction p) s = Inr (Runs (s\<lparr>sm_predict := prediction_accuracy p (sm_predict s)\<rparr>))"
| "do_call (Trace t) s =
     res_map (\<lambda>k. Runs (s\<lparr>sm_cosim := k\<rparr>)) (trace_step t (sm_cosim s))"

fun do_calls :: "dpi_call list \<Rightarrow> 'c sim \<Rightarrow> 'c sim ctl res" where
  "do_calls [] s = Inr (Runs s)"
| "do_calls (c # cs) s = ctl_bind (do_call c (s\<lparr>sm_calls := sm_calls s @ [c]\<rparr>)) (do_calls cs)"

section \<open>Operations of Core\<close>

text \<open>\<open>core_logic->clk = c; core_logic->reset = r; core_logic->eval()\<close>\<close>

definition core_eval :: "'c core_model \<Rightarrow> bool \<Rightarrow> bool \<Rightarrow> 'c sim \<Rightarrow> 'c sim ctl res" where
  "core_eval cm c r s =
     (let pins = (sm_pins s)\<lparr>clk := c, reset_pin := r\<rparr>;
          (core', calls) = v_eval cm pins (sm_core s)
      in do_calls calls (s\<lparr>sm_pins := pins, sm_core := core'\<rparr>))"

text \<open>The loop of \<open>reset\<close>: two evaluations and two increments of \<open>i\<close> per round, up to 600.\<close>

fun reset_loop :: "'c core_model \<Rightarrow> nat \<Rightarrow> 'c sim \<Rightarrow> 'c sim ctl res" where
  "reset_loop cm 0 s = Inr (Runs s)"
| "reset_loop cm (Suc n) s =
     ctl_bind (core_eval cm True True s) (\<lambda>s. ctl_bind (core_eval cm False True s) (reset_loop cm n))"

definition core_reset :: "'c core_model \<Rightarrow> 'c sim \<Rightarrow> 'c sim ctl res" where
  "core_reset cm s =
     ctl_bind (core_eval cm False True s) (\<lambda>s.
     ctl_bind (reset_loop cm 300 s) (\<lambda>s.
     ctl_bind (core_eval cm False False s) (core_eval cm True False)))"

definition count_commit :: "'c sim \<Rightarrow> 'c sim" where
  "count_commit s = (if sm_ins_commit s then s\<lparr>sm_ins_num := double_inc (sm_ins_num s)\<rparr> else s)"

definition serve_buses :: "'c core_model \<Rightarrow> 'c sim \<Rightarrow> 'c sim res" where
  "serve_buses cm s =
     res_bind (I_request (v_m3 cm (sm_core s)) (sm_memory s) (m3_in (sm_pins s))) (\<lambda>(mm, i).
     res_map (\<lambda>(mm, d). s\<lparr>sm_memory := mm, sm_pins := (sm_pins s)\<lparr>m2_in := d, m3_in := i\<rparr>\<rparr>)
       (D_request (v_m2 cm (sm_core s)) mm (m2_in (sm_pins s))))"

definition core_cycle :: "'c core_model \<Rightarrow> 'c sim \<Rightarrow> 'c sim ctl res" where
  "core_cycle cm s =
     ctl_bind (core_eval cm False (reset_pin (sm_pins s)) (s\<lparr>sm_cycle_num := double_inc (sm_cycle_num s)\<rparr>)) (\<lambda>s.
     res_bind (serve_buses cm (count_commit s)) (\<lambda>s. core_eval cm True (reset_pin (sm_pins s)) s))"

text \<open>\<open>core_init\<close>, with the state of a new core \<open>c\<close>, the random numbers and the log.\<close>

definition core_init :: "'c \<Rightarrow> rng \<Rightarrow> log_line list option \<Rightarrow> 'c sim" where
  "core_init c r f =
     \<lparr>sm_core = c,
      sm_pins = \<lparr>clk = False, reset_pin = False, m2_in = \<lparr>wb_ack_i = False, wb_dat_i = 0\<rparr>,
        m3_in = \<lparr>wb_ack_i = False, wb_dat_i = 0\<rparr>\<rparr>,
      sm_memory = \<lparr>mm_mapping = [], mm_d_wait = 0, mm_i_wait = 0, mm_d_finish = False, mm_i_finish = False,
        mm_world = \<lparr>wd_heap = [], wd_console = []\<rparr>, mm_rng = r\<rparr>,
      sm_cycle_num = 0, sm_ins_num = 0, sm_ins_commit = False, sm_predict = (0, 0), sm_global_flag = 0,
      sm_cosim = cosim0 f 64, sm_calls = []\<rparr>"

section \<open>What the calls say\<close>

text \<open>The value of an accepted write to \<open>tohost\<close>.\<close>

fun tohost_value :: "dpi_call \<Rightarrow> u32 option" where
  "tohost_value (Tohost t) =
     (if th_valid t = 1 \<and> th_ready t = 1 \<and> th_address t = 0x80001000 then Some (th_data t) else None)"
| "tohost_value _ = None"

definition tohost_values :: "dpi_call list \<Rightarrow> u32 list" where
  "tohost_values cs = List.map_filter tohost_value cs"

definition fatal :: "u32 \<Rightarrow> bool" where
  "fatal d \<longleftrightarrow> d \<noteq> 1 \<and> d AND 0x100 \<noteq> 0"

definition verdict :: "dpi_call list \<Rightarrow> nat" where
  "verdict cs = (if tohost_values cs = [] then 0 else if last (tohost_values cs) = 1 then 1 else 2)"

text \<open>A branch the predictor is asked about, and one it predicted right.\<close>

fun counted :: "dpi_call \<Rightarrow> bool" where
  "counted (Prediction p) \<longleftrightarrow>
     (if ins_empty p = 0 then branch_valid_i p AND 1 \<noteq> 0 else branch_valid_i p AND ins_empty p \<noteq> 0)"
| "counted _ \<longleftrightarrow> False"

fun predicted :: "dpi_call \<Rightarrow> bool" where
  "predicted (Prediction p) \<longleftrightarrow>
     counted (Prediction p) \<and> real_branch p = (if ins_empty p = 0 then pc_out p else ins_pc_in p)"
| "predicted _ \<longleftrightarrow> False"

definition predictions :: "dpi_call list \<Rightarrow> nat \<times> nat" where
  "predictions cs = (min (2 ^ 24) (length (filter counted cs)), min (2 ^ 24) (length (filter predicted cs)))"

text \<open>The calls name physical registers that exist.\<close>

fun call_ok :: "dpi_call \<Rightarrow> bool" where
  "call_ok (Trace t) = trace_regs_ok 64 t"
| "call_ok _ = True"

definition core_ok :: "'c core_model \<Rightarrow> bool" where
  "core_ok cm \<longleftrightarrow> (\<forall>p c. list_all call_ok (snd (v_eval cm p c)))"

definition sim_inv :: "'c sim \<Rightarrow> bool" where
  "sim_inv s \<longleftrightarrow>
     mm_wf (sm_memory s) \<and> trace_wf 64 (sm_cosim s) \<and>
     sm_ins_num s \<le> sm_cycle_num s \<and> sm_cycle_num s \<le> 2 ^ 53 \<and>
     sm_predict s = predictions (sm_calls s) \<and>
     sm_global_flag s = verdict (sm_calls s) \<and> list_all (\<lambda>d. \<not> fatal d) (tohost_values (sm_calls s))"

definition fatal_end :: "'c sim \<Rightarrow> bool" where
  "fatal_end s \<longleftrightarrow> (\<exists>d. tohost_values (sm_calls s) \<noteq> [] \<and> last (tohost_values (sm_calls s)) = d \<and> fatal d)"

section \<open>Partial and total correctness of code that may exit\<close>

text \<open>Faults satisfy \<open>E\<close>, states at an \<open>exit\<close> satisfy \<open>Q\<close>, and the others \<open>P\<close>.\<close>

fun ctl_ok :: "(fault \<Rightarrow> bool) \<Rightarrow> ('s \<Rightarrow> bool) \<Rightarrow> ('s \<Rightarrow> bool) \<Rightarrow> 's ctl res \<Rightarrow> bool" where
  "ctl_ok E Q P (Inl e) = E e"
| "ctl_ok E Q P (Inr (Exits m s)) = Q s"
| "ctl_ok E Q P (Inr (Runs s)) = P s"

lemma ctl_ok_bind:
  "ctl_ok E Q P r \<Longrightarrow> (\<And>s. P s \<Longrightarrow> ctl_ok E Q P' (f s)) \<Longrightarrow> ctl_ok E Q P' (ctl_bind r f)"
  by (cases r rule: ctl_bind.cases [of "(r, f)" for r f]) auto

lemma ctl_ok_mono:
  "ctl_ok E Q P r \<Longrightarrow> (\<And>s. P s \<Longrightarrow> P' s) \<Longrightarrow> (\<And>s. Q s \<Longrightarrow> Q' s) \<Longrightarrow> (\<And>e. E e \<Longrightarrow> E' e) \<Longrightarrow> ctl_ok E' Q' P' r"
  by (cases "(E, Q, P, r)" rule: ctl_ok.cases) auto

section \<open>Every call keeps the invariant\<close>

lemma tohost_values_append [simp]: "tohost_values (cs @ ds) = tohost_values cs @ tohost_values ds"
  by (simp add: tohost_values_def List.map_filter_def)

lemma tohost_values_one: "tohost_values [c] = (case tohost_value c of None \<Rightarrow> [] | Some d \<Rightarrow> [d])"
  by (simp add: tohost_values_def List.map_filter_simps split: option.splits)

lemma float_inc_min: "float_inc (min 16777216 n) = Suc (min 16777215 n)"
  by (auto simp: float_inc_def min_def)

lemma prediction_counts:
  "prediction_accuracy p (predictions cs) = predictions (cs @ [Prediction p])"
  by (auto simp: prediction_accuracy_def count_prediction_def predictions_def of_flag_def float_inc_min Let_def)

lemma predictions_other: "\<not> counted c \<Longrightarrow> predictions (cs @ [c]) = predictions cs"
  by (cases c) (auto simp: predictions_def)

text \<open>The invariant holds and neither counter of the cycles and commits has moved.\<close>

definition keeps :: "'c sim \<Rightarrow> 'c sim \<Rightarrow> bool" where
  "keeps s s' \<longleftrightarrow> sim_inv s' \<and> sm_cycle_num s' = sm_cycle_num s \<and> sm_ins_num s' = sm_ins_num s"

abbreviation sim_ok :: "('c sim \<Rightarrow> bool) \<Rightarrow> 'c sim ctl res \<Rightarrow> bool" where
  "sim_ok \<equiv> ctl_ok (\<lambda>e. False) fatal_end"

lemma do_call_keeps:
  assumes "sim_inv s" and "call_ok c"
  shows "sim_ok (keeps s) (do_call c (s\<lparr>sm_calls := sm_calls s @ [c]\<rparr>))"
proof (cases c)
  case (Tohost t)
  then show ?thesis using assms(1)
    by (auto simp: keeps_def sim_inv_def fatal_end_def tohost_handler_def tohost_values_one verdict_def fatal_def
        predictions_other list_all_iff split: if_splits)
next
  case (Commit_check v)
  then show ?thesis using assms(1)
    by (simp add: keeps_def sim_inv_def tohost_values_one verdict_def predictions_other)
next
  case (Prediction p)
  then show ?thesis using assms(1)
    by (simp add: keeps_def sim_inv_def tohost_values_one verdict_def prediction_counts del: counted.simps)
next
  case (Trace t)
  then obtain k where "trace_step t (sm_cosim s) = Inr k" "trace_wf 64 k"
    using trace_step_wf [of 64 "sm_cosim s" t] assms by (auto simp: sim_inv_def)
  then show ?thesis using assms(1) Trace
    by (simp add: keeps_def sim_inv_def tohost_values_one verdict_def predictions_other)
qed

text \<open>Two operations in a row: the second one starts from a state the first one keeps.\<close>

lemma keeps_bind:
  assumes "sim_ok (keeps s) r" and "\<And>t. sim_inv t \<Longrightarrow> sim_ok (keeps t) (f t)"
  shows "sim_ok (keeps s) (ctl_bind r f)"
  using assms by (intro ctl_ok_bind [OF assms(1)] ctl_ok_mono [OF assms(2)]) (auto simp: keeps_def)

lemma do_calls_keeps: "sim_inv s \<Longrightarrow> list_all call_ok cs \<Longrightarrow> sim_ok (keeps s) (do_calls cs s)"
proof (induction cs arbitrary: s)
  case Nil
  then show ?case by (simp add: keeps_def)
next
  case (Cons c cs)
  then show ?case unfolding do_calls.simps by (intro keeps_bind do_call_keeps) auto
qed

section \<open>Every operation of Core keeps the invariant\<close>

lemma core_eval_keeps:
  assumes "core_ok cm" and "sim_inv s"
  shows "sim_ok (keeps s) (core_eval cm c r s)"
proof -
  let ?p = "(sm_pins s)\<lparr>clk := c, reset_pin := r\<rparr>"
  let ?s = "s\<lparr>sm_pins := ?p, sm_core := fst (v_eval cm ?p (sm_core s))\<rparr>"
  have "list_all call_ok (snd (v_eval cm ?p (sm_core s)))" using assms(1) by (simp add: core_ok_def)
  moreover have "sim_inv ?s" using assms(2) by (simp add: sim_inv_def)
  ultimately have "sim_ok (keeps ?s) (do_calls (snd (v_eval cm ?p (sm_core s))) ?s)"
    by (intro do_calls_keeps)
  then show ?thesis by (simp add: core_eval_def keeps_def [abs_def] case_prod_beta Let_def)
qed

lemma reset_loop_keeps: "core_ok cm \<Longrightarrow> sim_inv s \<Longrightarrow> sim_ok (keeps s) (reset_loop cm n s)"
proof (induction n arbitrary: s)
  case 0
  then show ?case by (simp add: keeps_def)
next
  case (Suc n)
  then show ?case unfolding reset_loop.simps by (intro keeps_bind core_eval_keeps) auto
qed

lemma core_reset_keeps: "core_ok cm \<Longrightarrow> sim_inv s \<Longrightarrow> sim_ok (keeps s) (core_reset cm s)"
  unfolding core_reset_def by (intro keeps_bind core_eval_keeps reset_loop_keeps)

lemma count_commit_inv:
  "sim_inv s \<Longrightarrow> sm_ins_num s < sm_cycle_num s \<or> sm_cycle_num s = 2 ^ 53 \<Longrightarrow>
   sim_inv (count_commit s) \<and> sm_cycle_num (count_commit s) = sm_cycle_num s"
  by (auto simp: count_commit_def sim_inv_def double_inc_def)

lemma serve_buses_inv:
  assumes "sim_inv s"
  shows "\<exists>s'. serve_buses cm s = Inr s' \<and> keeps s s'"
proof -
  obtain mm i where 1: "I_request (v_m3 cm (sm_core s)) (sm_memory s) (m3_in (sm_pins s)) = Inr (mm, i)" "mm_wf mm"
    using I_request_wf [of "sm_memory s" "v_m3 cm (sm_core s)" "m3_in (sm_pins s)"] assms by (auto simp: sim_inv_def)
  obtain mm' d where "D_request (v_m2 cm (sm_core s)) mm (m2_in (sm_pins s)) = Inr (mm', d)" "mm_wf mm'"
    using D_request_wf [OF 1(2)] by blast
  then show ?thesis using assms 1 by (auto simp: serve_buses_def keeps_def sim_inv_def)
qed

lemma core_cycle_inv:
  assumes "core_ok cm" and "sim_inv s"
  shows "sim_ok (\<lambda>t. sim_inv t \<and> sm_cycle_num t = double_inc (sm_cycle_num s)) (core_cycle cm s)"
proof -
  let ?s = "s\<lparr>sm_cycle_num := double_inc (sm_cycle_num s)\<rparr>"
  have inv: "sim_inv ?s" and room: "sm_ins_num ?s < sm_cycle_num ?s \<or> sm_cycle_num ?s = 2 ^ 53"
    using assms(2) by (auto simp: sim_inv_def double_inc_def)
  have rest: "sim_ok (\<lambda>u. sim_inv u \<and> sm_cycle_num u = double_inc (sm_cycle_num s))
      (res_bind (serve_buses cm (count_commit t)) (\<lambda>s. core_eval cm True (reset_pin (sm_pins s)) s))"
    if t: "keeps ?s t" for t
  proof -
    have c: "sim_inv (count_commit t)" "sm_cycle_num (count_commit t) = sm_cycle_num ?s"
      using count_commit_inv [of t] t room by (auto simp: keeps_def)
    obtain u where u: "serve_buses cm (count_commit t) = Inr u" "keeps (count_commit t) u"
      using serve_buses_inv [OF c(1)] by blast
    show ?thesis unfolding u(1) res_bind.simps
      using u(2) c(2) by (intro ctl_ok_mono [OF core_eval_keeps [OF assms(1)]]) (auto simp: keeps_def)
  qed
  show ?thesis unfolding core_cycle_def by (rule ctl_ok_bind [OF core_eval_keeps [OF assms(1) inv] rest])
qed

lemma core_init_inv:
  "mm_wf mm \<Longrightarrow> sim_inv (core_init c r (Some []) \<lparr>sm_memory := mm\<rparr>)"
  using cosim0_wf [of 64]
  by (simp add: sim_inv_def core_init_def predictions_def verdict_def tohost_values_def List.map_filter_def)

section \<open>Properties\<close>

fun core_cycles :: "'c core_model \<Rightarrow> nat \<Rightarrow> 'c sim \<Rightarrow> 'c sim ctl res" where
  "core_cycles cm 0 s = Inr (Runs s)"
| "core_cycles cm (Suc n) s = ctl_bind (core_cycle cm s) (core_cycles cm n)"

lemma core_cycles_inv:
  "core_ok cm \<Longrightarrow> sim_inv s \<Longrightarrow>
   sim_ok (\<lambda>t. sim_inv t \<and> sm_cycle_num t = min (2 ^ 53) (sm_cycle_num s + n)) (core_cycles cm n s)"
proof (induction n arbitrary: s)
  case 0
  then show ?case by (simp add: sim_inv_def)
next
  case (Suc n)
  show ?case unfolding core_cycles.simps
  proof (rule ctl_ok_bind [OF core_cycle_inv [OF Suc.prems]])
    fix t :: "'a sim"
    assume t: "sim_inv t \<and> sm_cycle_num t = double_inc (sm_cycle_num s)"
    then have "min (2 ^ 53) (sm_cycle_num t + n) = min (2 ^ 53) (sm_cycle_num s + Suc n)"
      using Suc.prems(2) by (auto simp: double_inc_def sim_inv_def)
    then show "sim_ok (\<lambda>t. sim_inv t \<and> sm_cycle_num t = min (2 ^ 53) (sm_cycle_num s + Suc n)) (core_cycles cm n t)"
      using Suc.IH [OF Suc.prems(1), of t] t by simp
  qed
qed

section \<open>Committed instructions\<close>

text \<open>
  What the core last reported with \<open>commit_check\<close>, and the number of cycles in which this report says
  commit after the falling edge of the clock. The specification reads the calls of the core only.
\<close>

fun commit_report :: "dpi_call \<Rightarrow> u8 option" where
  "commit_report (Commit_check v) = Some v"
| "commit_report _ = None"

definition commit_up :: "dpi_call list \<Rightarrow> bool" where
  "commit_up cs = (case rev (List.map_filter commit_report cs) of [] \<Rightarrow> False | v # _ \<Rightarrow> v \<noteq> 0)"

definition falling_calls :: "'c core_model \<Rightarrow> 'c sim \<Rightarrow> dpi_call list" where
  "falling_calls cm s = sm_calls s @ snd (v_eval cm ((sm_pins s)\<lparr>clk := False\<rparr>) (sm_core s))"

fun commit_cycles :: "'c core_model \<Rightarrow> nat \<Rightarrow> 'c sim \<Rightarrow> nat" where
  "commit_cycles cm 0 s = 0"
| "commit_cycles cm (Suc n) s =
     (case core_cycle cm s of
        Inr (Runs t) \<Rightarrow> (if commit_up (falling_calls cm s) then 1 else 0) + commit_cycles cm n t
      | _ \<Rightarrow> 0)"

lemma commit_up_snoc:
  "commit_up (cs @ [c]) = (case commit_report c of None \<Rightarrow> commit_up cs | Some v \<Rightarrow> v \<noteq> 0)"
  by (simp add: commit_up_def List.map_filter_def split: option.splits)

lemma ctl_bind_Runs:
  "ctl_bind r f = Inr (Runs t) \<longleftrightarrow> (\<exists>s. r = Inr (Runs s) \<and> f s = Inr (Runs t))"
  by (cases "(r, f)" rule: ctl_bind.cases) auto

lemma do_call_commit:
  assumes "do_call c (s\<lparr>sm_calls := sm_calls s @ [c]\<rparr>) = Inr (Runs t)" and "sm_ins_commit s = commit_up (sm_calls s)"
  shows "sm_ins_commit t = commit_up (sm_calls t)" and "sm_calls t = sm_calls s @ [c]"
    and "sm_ins_num t = sm_ins_num s" and "sm_pins t = sm_pins s"
  using assms by (cases c; auto simp: commit_up_snoc split: sum.splits)+

lemma do_calls_commit:
  "do_calls cs s = Inr (Runs t) \<Longrightarrow> sm_ins_commit s = commit_up (sm_calls s) \<Longrightarrow>
   sm_ins_commit t = commit_up (sm_calls t) \<and> sm_calls t = sm_calls s @ cs \<and> sm_ins_num t = sm_ins_num s \<and> sm_pins t = sm_pins s"
proof (induction cs arbitrary: s)
  case (Cons c cs)
  then obtain u where u: "do_call c (s\<lparr>sm_calls := sm_calls s @ [c]\<rparr>) = Inr (Runs u)" "do_calls cs u = Inr (Runs t)"
    by (auto simp: ctl_bind_Runs)
  show ?case using Cons.IH [OF u(2)] do_call_commit [OF u(1) Cons.prems(2)] by simp
qed simp

lemma core_eval_commit:
  assumes "core_eval cm c r s = Inr (Runs t)" and "sm_ins_commit s = commit_up (sm_calls s)"
  shows "sm_ins_commit t = commit_up (sm_calls t) \<and> sm_ins_num t = sm_ins_num s \<and>
    sm_calls t = sm_calls s @ snd (v_eval cm ((sm_pins s)\<lparr>clk := c, reset_pin := r\<rparr>) (sm_core s))"
  using assms do_calls_commit [of _ "s\<lparr>sm_pins := _, sm_core := _\<rparr>" t]
  by (auto simp: core_eval_def Let_def case_prod_beta)

lemma reset_loop_commit:
  "reset_loop cm n s = Inr (Runs t) \<Longrightarrow> sm_ins_commit s = commit_up (sm_calls s) \<Longrightarrow>
   sm_ins_commit t = commit_up (sm_calls t) \<and> sm_ins_num t = sm_ins_num s"
proof (induction n arbitrary: s)
  case (Suc n)
  then show ?case by (auto simp: ctl_bind_Runs dest!: core_eval_commit)
qed simp

lemma core_reset_commit:
  "core_reset cm s = Inr (Runs t) \<Longrightarrow> sm_ins_commit s = commit_up (sm_calls s) \<Longrightarrow>
   sm_ins_commit t = commit_up (sm_calls t) \<and> sm_ins_num t = sm_ins_num s"
  by (auto simp: core_reset_def ctl_bind_Runs dest!: core_eval_commit reset_loop_commit)

lemma core_cycle_commit:
  assumes "core_cycle cm s = Inr (Runs t)" and "sm_ins_commit s = commit_up (sm_calls s)"
  shows "sm_ins_commit t = commit_up (sm_calls t) \<and>
    sm_ins_num t = (if commit_up (falling_calls cm s) then double_inc (sm_ins_num s) else sm_ins_num s)"
proof -
  let ?s = "s\<lparr>sm_cycle_num := double_inc (sm_cycle_num s)\<rparr>"
  obtain u v where u: "core_eval cm False (reset_pin (sm_pins s)) ?s = Inr (Runs u)"
    and v: "serve_buses cm (count_commit u) = Inr v" "core_eval cm True (reset_pin (sm_pins v)) v = Inr (Runs t)"
    using assms(1) by (auto simp: core_cycle_def ctl_bind_Runs res_bind_Inr_iff)
  have "sm_ins_commit v = sm_ins_commit u" "sm_calls v = sm_calls u" "sm_ins_num v = sm_ins_num (count_commit u)"
    using v(1) by (auto simp: serve_buses_def count_commit_def split: if_splits)
  moreover have "sm_ins_commit u = commit_up (falling_calls cm s)" "sm_ins_commit u = commit_up (sm_calls u)"
    "sm_ins_num u = sm_ins_num s"
    using core_eval_commit [OF u] assms(2) by (auto simp: falling_calls_def)
  ultimately show ?thesis
    using core_eval_commit [OF v(2)] by (simp add: count_commit_def)
qed

lemma core_cycles_commit:
  "core_cycles cm n s = Inr (Runs t) \<Longrightarrow> sm_ins_commit s = commit_up (sm_calls s) \<Longrightarrow> sm_ins_num s \<le> 2 ^ 53 \<Longrightarrow>
   sm_ins_num t = min (2 ^ 53) (sm_ins_num s + commit_cycles cm n s)"
proof (induction n arbitrary: s)
  case (Suc n)
  then obtain u where u: "core_cycle cm s = Inr (Runs u)" "core_cycles cm n u = Inr (Runs t)"
    by (auto simp: ctl_bind_Runs)
  have step: "sm_ins_commit u = commit_up (sm_calls u)"
    "sm_ins_num u = (if commit_up (falling_calls cm s) then double_inc (sm_ins_num s) else sm_ins_num s)"
    using core_cycle_commit [OF u(1) Suc.prems(2)] by auto
  then have "sm_ins_num t = min (2 ^ 53) (sm_ins_num u + commit_cycles cm n u)"
    using Suc.IH [OF u(2)] Suc.prems(3) by (simp add: double_inc_def split: if_splits)
  then show ?case using step(2) u(1) Suc.prems(3) by (auto simp: double_inc_def)
qed simp

lemma ctl_ok_conj:
  "ctl_ok E Q P r \<Longrightarrow> (\<And>t. r = Inr (Runs t) \<Longrightarrow> P t \<Longrightarrow> P' t) \<Longrightarrow> ctl_ok E Q P' r"
  by (cases "(E, Q, P, r)" rule: ctl_ok.cases) auto

section \<open>The counters\<close>

text \<open>
  C22. The counters of the simulator, for any core and any number of cycles after the reset (unless
  the core asks for an exit): nothing faults; the cycle counter is the number of cycles and the commit counter the number of
  cycles in which the core's last report says commit, both up to the 53 bits of a double; and the two prediction counters are
  the numbers of branches and of hits only up to the 24 bits of a float, where each of them stops
  on its own.
\<close>

theorem core_counters_bounded:
  assumes "core_ok cm" and "mm_wf mm"
  shows "ctl_ok (\<lambda>e. False) fatal_end
    (\<lambda>u. ctl_ok (\<lambda>e. False) fatal_end
      (\<lambda>t. sm_cycle_num t = min (2 ^ 53) n \<and> sm_ins_num t = min (2 ^ 53) (commit_cycles cm n u) \<and>
        sm_ins_num t \<le> sm_cycle_num t \<and>
        sm_predict t = (min (2 ^ 24) (length (filter counted (sm_calls t))),
          min (2 ^ 24) (length (filter predicted (sm_calls t)))))
      (core_cycles cm n u))
    (core_reset cm (core_init c r (Some []) \<lparr>sm_memory := mm\<rparr>))"
proof (rule ctl_ok_conj [OF core_reset_keeps [OF assms(1) core_init_inv [OF assms(2)]]])
  let ?s = "core_init c r (Some []) \<lparr>sm_memory := mm\<rparr>"
  fix u
  assume u: "core_reset cm ?s = Inr (Runs u)" "keeps ?s u"
  then have inv: "sim_inv u" "sm_cycle_num u = 0" by (auto simp: keeps_def core_init_def)
  have com: "sm_ins_commit u = commit_up (sm_calls u)" "sm_ins_num u = 0"
    using core_reset_commit [OF u(1)] by (auto simp: core_init_def commit_up_def List.map_filter_def)
  show "ctl_ok (\<lambda>e. False) fatal_end
      (\<lambda>t. sm_cycle_num t = min (2 ^ 53) n \<and> sm_ins_num t = min (2 ^ 53) (commit_cycles cm n u) \<and>
        sm_ins_num t \<le> sm_cycle_num t \<and>
        sm_predict t = (min (2 ^ 24) (length (filter counted (sm_calls t))),
          min (2 ^ 24) (length (filter predicted (sm_calls t)))))
      (core_cycles cm n u)"
    by (rule ctl_ok_conj [OF core_cycles_inv [OF assms(1) inv(1), of n]])
      (auto simp: sim_inv_def predictions_def inv(2) core_cycles_commit com)
qed

text \<open>A core that reports a commit in every evaluation and accesses both buses in every cycle.\<close>

definition busy_core :: "nat core_model" where
  "busy_core =
     \<lparr>v_eval = (\<lambda>p c. (c + 1, [Commit_check 1])),
      v_m2 = (\<lambda>c. \<lparr>wb_cyc_o = True, wb_adr_o = 0x80000000, wb_we_o = True, wb_dat_o = 5, wb_sel_o = 1\<rparr>),
      v_m3 = (\<lambda>c. \<lparr>wb_cyc_o = True, wb_adr_o = 0x80000004, wb_we_o = False, wb_dat_o = 0, wb_sel_o = 0\<rparr>)\<rparr>"

lemma busy_commits: "core_cycles busy_core n u = Inr (Runs t) \<Longrightarrow> commit_cycles busy_core n u = n"
proof (induction n arbitrary: u)
  case (Suc n)
  have "commit_up (falling_calls busy_core u)" by (simp add: falling_calls_def busy_core_def commit_up_snoc)
  then show ?case using Suc by (auto simp: ctl_bind_Runs)
qed simp

theorem core_counters_bounded_witness:
  "ctl_ok (\<lambda>e. False) fatal_end
    (\<lambda>u. ctl_ok (\<lambda>e. False) fatal_end (\<lambda>t. sm_cycle_num t = 3 \<and> sm_ins_num t = 3) (core_cycles busy_core 3 u))
    (core_reset busy_core (core_init 0 (\<lambda>_. 0) (Some []) \<lparr>sm_memory := mm_start 8 (\<lambda>_. 0) (\<lambda>_. 0)\<rparr>))"
proof (rule ctl_ok_mono [OF core_counters_bounded [where n = 3]])
  show "core_ok busy_core" by (simp add: core_ok_def busy_core_def)
qed (auto intro!: mm_start_wf elim!: ctl_ok_conj simp: busy_commits)

end
