(* ===== verification/Simulator.thy ===== *)
theory Simulator
  imports Core_Sim
begin

unbundle bit_operations_syntax

text \<open>
  The whole-core simulator, \<open>sim/simulator.cpp\<close>, as \<open>regression.mk\<close> builds it (with \<open>COSIM\<close>): its
  arguments, its set-up and its main loop. The core, the files, the random numbers and the contents of
  fresh memory are arguments. A pointer that the program leaves uninitialised is \<open>None\<close>. Messages on
  the standard streams and the waveform are left out.
\<close>

section \<open>Arguments\<close>

record options =
  op_memory_size :: u32
  op_cycle_limit :: nat
  op_elf :: "string option"
  op_wave :: "string option"
  op_log :: "string option"

definition options0 :: options where
  "options0 = \<lparr>op_memory_size = push_bit 20 1, op_cycle_limit = 0, op_elf = None, op_wave = None, op_log = None\<rparr>"

text \<open>\<open>argv[argc]\<close> is a null pointer and nothing follows it.\<close>

definition arg_at :: "string list \<Rightarrow> nat \<Rightarrow> string res" where
  "arg_at argv i = (if i < length argv then Inr (argv ! i) else Inl (Undefined ''read past the arguments''))"

text \<open>An \<open>int\<close> accumulates the digits; the text after them is left over.\<close>

fun read_digits :: "string \<Rightarrow> nat \<Rightarrow> (nat \<times> string) res" where
  "read_digits [] n = Inr (n, [])"
| "read_digits (c # cs) n =
     (if is_dec c then
        if 10 * n + dec_value c < 2 ^ 31 then read_digits cs (10 * n + dec_value c)
        else Inl (Undefined ''signed overflow'')
      else Inr (n, c # cs))"

definition size_factor :: "string \<Rightarrow> nat" where
  "size_factor rest =
     (case rest of
        [] \<Rightarrow> 1
      | c # _ \<Rightarrow> if c = CHR ''G'' then 2 ^ 30 else if c = CHR ''M'' then 2 ^ 20
                else if c = CHR ''K'' \<or> c = CHR ''k'' then 2 ^ 10 else 1)"

definition read_size :: "string \<Rightarrow> nat res" where
  "read_size a =
     res_bind (read_digits a 0) (\<lambda>(n, rest).
       if n * size_factor rest < 2 ^ 31 then Inr (n * size_factor rest)
       else Inl (Undefined ''signed overflow''))"

text \<open>
  One option letter of argument \<open>p\<close>. \<open>m\<close> and \<open>c\<close> take their value from the next argument not yet
  taken, and the others from the argument after \<open>p\<close>, without taking it.
\<close>

definition parse_opt :: "string list \<Rightarrow> nat \<Rightarrow> char \<Rightarrow> nat \<times> options \<Rightarrow> (nat \<times> options) res" where
  "parse_opt argv p ch = (\<lambda>(i, opt).
     if ch = CHR ''m'' then
       res_bind (arg_at argv (i + 1)) (\<lambda>a.
       res_map (\<lambda>n. (i + 1, opt\<lparr>op_memory_size := of_nat n\<rparr>)) (read_size a))
     else if ch = CHR ''c'' then
       res_bind (arg_at argv (i + 1)) (\<lambda>a.
       res_map (\<lambda>(n, rest). (i + 1, opt\<lparr>op_cycle_limit := n\<rparr>)) (read_digits a 0))
     else if ch = CHR ''l'' then res_map (\<lambda>a. (i, opt\<lparr>op_log := Some a\<rparr>)) (arg_at argv (p + 1))
     else if ch = CHR ''e'' then res_map (\<lambda>a. (i, opt\<lparr>op_elf := Some a\<rparr>)) (arg_at argv (p + 1))
     else if ch = CHR ''w'' then res_map (\<lambda>a. (i, opt\<lparr>op_wave := Some a\<rparr>)) (arg_at argv (p + 1))
     else Inr (i, opt))"

fun parse_opts :: "string list \<Rightarrow> nat \<Rightarrow> string \<Rightarrow> nat \<times> options \<Rightarrow> (nat \<times> options) res" where
  "parse_opts argv p [] s = Inr s"
| "parse_opts argv p (ch # chs) s = res_bind (parse_opt argv p ch s) (parse_opts argv p chs)"

lemma res_bind_cong [fundef_cong]:
  "m = m' \<Longrightarrow> (\<And>x. m' = Inr x \<Longrightarrow> f x = g x) \<Longrightarrow> res_bind m f = res_bind m' g"
  by (cases m') auto

lemma parse_opt_index: "parse_opt argv p ch s = Inr t \<Longrightarrow> fst s \<le> fst t"
  by (cases s) (auto simp: parse_opt_def split: if_splits)

lemma parse_opts_index: "parse_opts argv p chs s = Inr t \<Longrightarrow> fst s \<le> fst t"
  by (induction chs arbitrary: s) (auto dest!: parse_opt_index intro: order_trans)

text \<open>The last argument is never looked at as an option.\<close>

function parse_loop :: "string list \<Rightarrow> nat \<Rightarrow> options \<Rightarrow> options res" where
  "parse_loop argv i opt =
     (if i + 1 < length argv then
        (case argv ! i of
           [] \<Rightarrow> parse_loop argv (i + 1) opt
         | c # chs \<Rightarrow>
             if c = CHR ''-'' then
               res_bind (parse_opts argv i chs (i, opt)) (\<lambda>(i', opt'). parse_loop argv (i' + 1) opt')
             else parse_loop argv (i + 1) opt)
      else Inr opt)"
  by pat_completeness auto
termination
  by (relation "measure (\<lambda>(argv, i, opt). length argv - i)") (auto dest!: parse_opts_index)

declare parse_loop.simps [simp del]

definition parseArguments :: "string list \<Rightarrow> options res" where
  "parseArguments argv = parse_loop argv 1 options0"


section \<open>Main\<close>

text \<open>
  The loop counts cycles in an \<open>int\<close>; without a limit it goes on until the flag is set or the
  counter overflows.
\<close>

function sim_loop :: "'c core_model \<Rightarrow> nat \<Rightarrow> nat \<Rightarrow> 'c sim \<Rightarrow> 'c sim ctl res" where
  "sim_loop cm limit i s =
     (if i < limit \<or> limit = 0 then
        ctl_bind (core_cycle cm s) (\<lambda>s.
          if sm_global_flag s \<noteq> 0 then Inr (Runs s)
          else if i + 1 < 2 ^ 31 then sim_loop cm limit (i + 1) s
          else Inl (Undefined ''signed overflow''))
      else Inr (Runs s))"
  by pat_completeness auto
termination by (relation "measure (\<lambda>(cm, limit, i, s). 2 ^ 31 - i)") auto

declare sim_loop.simps [simp del]


datatype 'c main_result = Return nat | Exit nat "'c sim"


definition exit_code :: "nat \<Rightarrow> nat" where
  "exit_code flag = (if flag = 0 then 1 else if flag = 1 then 0 else if flag = 2 then 1 else 0)"

text \<open>The end of \<open>main\<close>: the exit code, and the log closed.\<close>

fun finish_sim :: "'c sim ctl res \<Rightarrow> 'c main_result res" where
  "finish_sim (Inl e) = Inl e"
| "finish_sim (Inr (Exits m s)) = Inr (Exit 1 s)"
| "finish_sim (Inr (Runs s)) =
     (if cs_log (sm_cosim s) = None then Inl (Undefined ''fclose of a null stream'')
      else Inr (Exit (exit_code (sm_global_flag s)) s))"



section \<open>Reading numbers\<close>

lemma foldl_dec_ge: "v \<le> foldl (\<lambda>v c. 10 * v + dec_value c) v ds"
proof (induction ds arbitrary: v)
  case (Cons d ds)
  show ?case using Cons [of "10 * v + dec_value d"] by simp
qed simp

lemma read_digits_foldl:
  assumes "list_all is_dec ds" and "foldl (\<lambda>v c. 10 * v + dec_value c) v ds < 2 ^ 31"
    and "rest = [] \<or> \<not> is_dec (hd rest)"
  shows "read_digits (ds @ rest) v = Inr (foldl (\<lambda>v c. 10 * v + dec_value c) v ds, rest)"
  using assms(1,2)
proof (induction ds arbitrary: v)
  case Nil
  then show ?case using assms(3) by (cases rest) auto
next
  case (Cons d ds)
  have "10 * v + dec_value d < 2 ^ 31"
    using foldl_dec_ge [of "10 * v + dec_value d" ds] Cons.prems(2) by simp
  then show ?case using Cons by simp
qed

lemma read_digits_dec_nat:
  "n < 2 ^ 31 \<Longrightarrow> rest = [] \<or> \<not> is_dec (hd rest) \<Longrightarrow> read_digits (dec_nat n @ rest) 0 = Inr (n, rest)"
  using read_digits_foldl [of "dec_nat n" 0 rest] dec_nat_chars [of n] by (simp add: foldl_dec_nat)

definition size_suffixes :: "string list" where
  "size_suffixes = [[], ''K'', ''k'', ''M'', ''G'']"

lemma read_size_dec_nat:
  assumes "sfx \<in> set size_suffixes" and "n * size_factor sfx < 2 ^ 31"
  shows "read_size (dec_nat n @ sfx) = Inr (n * size_factor sfx)"
proof -
  have "1 \<le> size_factor sfx" using assms(1) by (auto simp: size_suffixes_def size_factor_def)
  then have "n < 2 ^ 31" using assms(2) by (cases "size_factor sfx") auto
  moreover have "sfx = [] \<or> \<not> is_dec (hd sfx)" using assms(1) by (auto simp: size_suffixes_def is_dec_def)
  ultimately show ?thesis using assms(2) by (simp add: read_size_def read_digits_dec_nat)
qed

section \<open>The loop\<close>




section \<open>Set-up\<close>


section \<open>Properties\<close>


lemma parse_loop_steps:
  "i + 1 < length argv \<Longrightarrow> argv ! i = CHR ''-'' # chs \<Longrightarrow>
     parse_loop argv i opt = res_bind (parse_opts argv i chs (i, opt)) (\<lambda>(i', opt'). parse_loop argv (i' + 1) opt')"
  "i + 1 < length argv \<Longrightarrow> argv ! i = [] \<or> hd (argv ! i) \<noteq> CHR ''-'' \<Longrightarrow>
     parse_loop argv i opt = parse_loop argv (i + 1) opt"
  "\<not> i + 1 < length argv \<Longrightarrow> parse_loop argv i opt = Inr opt"
  by (auto simp: parse_loop.simps [of argv i opt] split: list.split)

lemma parse_command_line:
  assumes "sfx \<in> set size_suffixes" and "n * size_factor sfx < 2 ^ 31" and "k < 2 ^ 31"
    and "log = [] \<or> hd log \<noteq> CHR ''-''"
  shows "parseArguments [prog, ''-m'', dec_nat n @ sfx, ''-c'', dec_nat k, ''-l'', log, ''-e'', elf] =
    Inr \<lparr>op_memory_size = of_nat (n * size_factor sfx), op_cycle_limit = k, op_elf = Some elf,
      op_wave = None, op_log = Some log\<rparr>"
proof -
  let ?v = "[prog, ''-m'', dec_nat n @ sfx, ''-c'', dec_nat k, ''-l'', log, ''-e'', elf]"
  let ?o1 = "options0\<lparr>op_memory_size := of_nat (n * size_factor sfx)\<rparr>"
  let ?o2 = "?o1\<lparr>op_cycle_limit := k\<rparr>"
  have k: "read_digits (dec_nat k) 0 = Inr (k, [])" using read_digits_dec_nat [OF assms(3), of "[]"] by simp
  have "parse_loop ?v 1 options0 = parse_loop ?v 3 ?o1"
    by (subst parse_loop_steps(1) [where chs = "''m''"]) (simp_all add: parse_opt_def arg_at_def read_size_dec_nat [OF assms(1,2)] numeral_3_eq_3)
  also have "\<dots> = parse_loop ?v 5 ?o2"
    by (subst parse_loop_steps(1) [where chs = "''c''"]) (simp_all add: parse_opt_def arg_at_def k)
  also have "\<dots> = parse_loop ?v 6 (?o2\<lparr>op_log := Some log\<rparr>)"
    by (subst parse_loop_steps(1) [where chs = "''l''"]) (simp_all add: parse_opt_def arg_at_def)
  also have "\<dots> = parse_loop ?v 7 (?o2\<lparr>op_log := Some log\<rparr>)"
    using assms(4) by (subst parse_loop_steps(2)) simp_all
  also have "\<dots> = parse_loop ?v 8 (?o2\<lparr>op_log := Some log, op_elf := Some elf\<rparr>)"
    by (subst parse_loop_steps(1) [where chs = "''e''"]) (simp_all add: parse_opt_def arg_at_def)
  also have "\<dots> = Inr (?o2\<lparr>op_log := Some log, op_elf := Some elf\<rparr>)"
    by (subst parse_loop_steps(3)) simp_all
  finally show ?thesis by (simp add: parseArguments_def options0_def)
qed

text \<open>
  C34. The command line is read back: a memory size printed in decimal with one of the suffixes K, k, M
  or G or none, a cycle limit printed in decimal, a log file and an ELF file give exactly these
  options, as long as the numbers fit an \<open>int\<close>; the factors of the suffixes are \<open>2^10\<close> (K and k), \<open>2^20\<close> and \<open>2^30\<close>. The ELF file may even start with a dash, since the last
  argument is never read as an option; the log file must not, because it is.
\<close>

theorem arguments_roundtrip:
  assumes "sfx \<in> set size_suffixes" and "n * size_factor sfx < 2 ^ 31" and "k < 2 ^ 31"
    and "log = [] \<or> hd log \<noteq> CHR ''-''"
  shows "\<exists>opt. parseArguments [prog, ''-m'', dec_nat n @ sfx, ''-c'', dec_nat k, ''-l'', log, ''-e'', elf] = Inr opt \<and>
    unat (op_memory_size opt) = n * size_factor sfx \<and> op_cycle_limit opt = k \<and>
    op_log opt = Some log \<and> op_elf opt = Some elf \<and> op_wave opt = None \<and>
    (sfx, size_factor sfx) \<in> {([], 1), (''K'', 1024), (''k'', 1024), (''M'', 1048576), (''G'', 1073741824)}"
proof -
  have "unat (of_nat (n * size_factor sfx) :: u32) = n * size_factor sfx"
    using assms(2) by (simp add: unsigned_of_nat take_bit_nat_eq_self del: of_nat_mult)
  moreover have "(sfx, size_factor sfx) \<in> {([], 1), (''K'', 1024), (''k'', 1024), (''M'', 1048576), (''G'', 1073741824)}"
    using assms(1) by (auto simp: size_suffixes_def size_factor_def)
  ultimately show ?thesis using parse_command_line [OF assms, of prog elf] by simp
qed

theorem arguments_roundtrip_witness:
  "\<exists>opt. parseArguments [''sim'', ''-m'', ''64K'', ''-c'', ''1000'', ''-l'', ''t.log'', ''-e'', ''a.elf''] = Inr opt \<and>
    unat (op_memory_size opt) = 65536 \<and> op_cycle_limit opt = 1000 \<and>
    op_log opt = Some ''t.log'' \<and> op_elf opt = Some ''a.elf''"
proof -
  have "dec_nat 64 = ''64''" "dec_nat 1000 = ''1000''" by (simp_all add: dec_nat.simps digit_char_def)
  then show ?thesis
    using arguments_roundtrip [of "''K''" 64 1000 "''t.log''" "''sim''" "''a.elf''"]
    by (auto simp: size_suffixes_def size_factor_def)
qed

section \<open>Without a cycle limit\<close>

definition silent_core :: "'c core_model \<Rightarrow> bool" where
  "silent_core cm \<longleftrightarrow> (\<forall>p c. list_all (\<lambda>k. tohost_value k = None) (snd (v_eval cm p c)))"

text \<open>
  The default limit is 0, no limit: a core that never writes to \<open>tohost\<close> keeps the loop running until
  the cycle number overflows, which is undefined.
\<close>

lemma tohost_values_silent: "list_all (\<lambda>k. tohost_value k = None) cs \<Longrightarrow> tohost_values cs = []"
  by (simp add: tohost_values_def List.map_filter_def list_all_iff)

lemma do_calls_silent:
  "sim_inv s \<Longrightarrow> list_all call_ok cs \<Longrightarrow> list_all (\<lambda>k. tohost_value k = None) cs \<Longrightarrow>
   tohost_values (sm_calls s) = [] \<Longrightarrow>
   ctl_ok (\<lambda>e. False) (\<lambda>s. False) (\<lambda>t. keeps s t \<and> tohost_values (sm_calls t) = []) (do_calls cs s)"
proof (induction cs arbitrary: s)
  case Nil
  then show ?case by (simp add: keeps_def)
next
  case (Cons c cs)
  let ?s = "s\<lparr>sm_calls := sm_calls s @ [c]\<rparr>"
  have "ctl_ok (\<lambda>e. False) (\<lambda>s. False) (\<lambda>t. keeps s t \<and> tohost_values (sm_calls t) = []) (do_call c ?s)"
  proof -
    have "sim_ok (keeps s) (do_call c ?s)" using Cons.prems by (intro do_call_keeps) simp_all
    moreover have "do_call c ?s = Inr (Runs t) \<Longrightarrow> sm_calls t = sm_calls s @ [c]" for t
      by (cases c) (auto simp: tohost_handler_def split: if_splits)
    moreover have "do_call c ?s \<noteq> Inr (Exits m t)" for m t
      using Cons.prems(3) by (cases c) (auto simp: tohost_handler_def split: if_splits)
    moreover have "tohost_values [c] = []" using Cons.prems(3) by (intro tohost_values_silent) simp
    ultimately show ?thesis
      using Cons.prems(4) by (cases "do_call c ?s" rule: finish_sim.cases) auto
  qed
  then show ?case unfolding do_calls.simps
    using Cons.prems(2,3)
    by (elim ctl_ok_bind, intro ctl_ok_mono [OF Cons.IH]) (auto simp: keeps_def)
qed

definition silent_inv :: "'c sim \<Rightarrow> bool" where
  "silent_inv s \<longleftrightarrow> sim_inv s \<and> tohost_values (sm_calls s) = []"

lemma core_eval_silent:
  assumes "core_ok cm" and "silent_core cm" and "silent_inv s"
  shows "ctl_ok (\<lambda>e. False) (\<lambda>s. False) (\<lambda>t. keeps s t \<and> silent_inv t) (core_eval cm c r s)"
proof -
  let ?p = "(sm_pins s)\<lparr>clk := c, reset_pin := r\<rparr>"
  let ?s = "s\<lparr>sm_pins := ?p, sm_core := fst (v_eval cm ?p (sm_core s))\<rparr>"
  have "ctl_ok (\<lambda>e. False) (\<lambda>s. False) (\<lambda>t. keeps ?s t \<and> tohost_values (sm_calls t) = [])
      (do_calls (snd (v_eval cm ?p (sm_core s))) ?s)"
    using assms by (intro do_calls_silent) (simp_all add: core_ok_def silent_core_def silent_inv_def sim_inv_def)
  then show ?thesis unfolding core_eval_def Let_def case_prod_beta
    by (rule ctl_ok_mono) (auto simp: keeps_def silent_inv_def)
qed

lemma core_cycle_silent:
  assumes "core_ok cm" and "silent_core cm" and "silent_inv s"
  shows "\<exists>t. core_cycle cm s = Inr (Runs t) \<and> silent_inv t"
proof -
  let ?s = "s\<lparr>sm_cycle_num := double_inc (sm_cycle_num s)\<rparr>"
  have inv: "silent_inv ?s" and room: "sm_ins_num ?s < sm_cycle_num ?s \<or> sm_cycle_num ?s = 2 ^ 53"
    using assms(3) by (auto simp: silent_inv_def sim_inv_def double_inc_def)
  obtain t where t: "core_eval cm False (reset_pin (sm_pins s)) ?s = Inr (Runs t)" "keeps ?s t" "silent_inv t"
    using core_eval_silent [OF assms(1,2) inv, of False "reset_pin (sm_pins s)"]
    by (cases "core_eval cm False (reset_pin (sm_pins s)) ?s" rule: finish_sim.cases) auto
  have "sim_inv (count_commit t)" using count_commit_inv [of t] t(2) room by (auto simp: keeps_def)
  then obtain u where u: "serve_buses cm (count_commit t) = Inr u" "sim_inv u"
    using serve_buses_inv by (metis keeps_def)
  have "sm_calls u = sm_calls t" using u(1) by (auto simp: serve_buses_def count_commit_def)
  then have "silent_inv u" using u(2) t(3) by (simp add: silent_inv_def)
  then obtain v where "core_eval cm True (reset_pin (sm_pins u)) u = Inr (Runs v)" "silent_inv v"
    using core_eval_silent [OF assms(1,2), of u True "reset_pin (sm_pins u)"]
    by (cases "core_eval cm True (reset_pin (sm_pins u)) u" rule: finish_sim.cases) auto
  then show ?thesis using t(1) u(1) by (simp add: core_cycle_def)
qed

theorem unlimited_run_overflows:
  assumes "core_ok cm" and "silent_core cm" and "silent_inv s" and "i < 2 ^ 31"
  shows "sim_loop cm 0 i s = Inl (Undefined ''signed overflow'')"
  using assms(3,4)
proof (induction "2 ^ 31 - i" arbitrary: i s)
  case (Suc n)
  obtain t where t: "core_cycle cm s = Inr (Runs t)" "silent_inv t"
    using core_cycle_silent [OF assms(1,2) Suc.prems(1)] by blast
  have "sm_global_flag t = 0" using t(2) by (simp add: silent_inv_def sim_inv_def verdict_def)
  moreover have "sim_loop cm 0 (i + 1) t = Inl (Undefined ''signed overflow'')" if "i + 1 < 2 ^ 31"
    using that t(2) Suc.hyps(2) by (intro Suc.hyps(1)) simp_all
  ultimately show ?case using t(1) by (subst sim_loop.simps) simp
qed simp

section \<open>A simulation that ends\<close>




end
