(* ===== verification/Core_Wave.thy ===== *)
theory Core_Wave
  imports Core_Sim "HOL-Library.Sublist"
begin

text \<open>
  The build of \<open>sim/core.cpp\<close> with \<open>DUMP_WAVE\<close>, which \<open>regression.mk\<close> selects: next to what the plain build of \<open>Core_Sim\<close>
  does, the simulated time advances and the state of the core is written to the waveform after every
  evaluation. The two builds are two copies of the same code, compiled under \<open>#ifdef\<close>; the theorem shows
  that they agree, and that the waveform has its samples at strictly increasing times.
\<close>

section \<open>State\<close>

definition HALF_CYCLE :: nat where "HALF_CYCLE = 100"

text \<open>\<open>contextp->time()\<close> and the samples of \<open>tfp\<close>: the time, the input pins and the state of the core.\<close>

record 'c wave_core =
  wc_sim :: "'c sim"
  wc_time :: nat
  wc_dumps :: "(nat \<times> core_pins \<times> 'c) list"

definition timeInc :: "nat \<Rightarrow> 'c wave_core \<Rightarrow> 'c wave_core" where
  "timeInc n w = w\<lparr>wc_time := wc_time w + n\<rparr>"

definition dump :: "'c wave_core \<Rightarrow> 'c wave_core" where
  "dump w = w\<lparr>wc_dumps := wc_dumps w @ [(wc_time w, sm_pins (wc_sim w), sm_core (wc_sim w))]\<rparr>"

section \<open>Operations\<close>

fun with_sim :: "'c wave_core \<Rightarrow> 'c sim ctl res \<Rightarrow> 'c wave_core ctl res" where
  "with_sim w (Inl e) = Inl e"
| "with_sim w (Inr (Exits m s)) = Inr (Exits m (w\<lparr>wc_sim := s\<rparr>))"
| "with_sim w (Inr (Runs s)) = Inr (Runs (w\<lparr>wc_sim := s\<rparr>))"

text \<open>\<open>core_logic->eval(); tfp->dump(contextp->time())\<close>: a call of the core may exit before the sample.\<close>

definition wave_eval :: "'c core_model \<Rightarrow> bool \<Rightarrow> bool \<Rightarrow> 'c wave_core \<Rightarrow> 'c wave_core ctl res" where
  "wave_eval cm c r w =
     ctl_bind (with_sim w (core_eval cm c r (wc_sim w))) (\<lambda>w. Inr (Runs (dump w)))"

fun wave_reset_loop :: "'c core_model \<Rightarrow> nat \<Rightarrow> 'c wave_core \<Rightarrow> 'c wave_core ctl res" where
  "wave_reset_loop cm 0 w = Inr (Runs w)"
| "wave_reset_loop cm (Suc n) w =
     ctl_bind (wave_eval cm True True (timeInc HALF_CYCLE w)) (\<lambda>w.
     ctl_bind (wave_eval cm False True (timeInc HALF_CYCLE w)) (wave_reset_loop cm n))"

text \<open>\<open>HALF_CYCLE*0.5\<close> is 50.0, which the call converts to 50.\<close>

definition wave_reset :: "'c core_model \<Rightarrow> 'c wave_core \<Rightarrow> 'c wave_core ctl res" where
  "wave_reset cm w =
     ctl_bind (wave_eval cm False True w) (\<lambda>w.
     ctl_bind (wave_reset_loop cm 300 w) (\<lambda>w.
     ctl_bind (wave_eval cm False False (timeInc (HALF_CYCLE div 2) w)) (\<lambda>w.
     wave_eval cm True False (timeInc (HALF_CYCLE div 2) w))))"

definition wave_cycle :: "'c core_model \<Rightarrow> 'c wave_core \<Rightarrow> 'c wave_core ctl res" where
  "wave_cycle cm w0 =
     (let s0 = wc_sim w0;
          w = timeInc HALF_CYCLE (w0\<lparr>wc_sim := s0\<lparr>sm_cycle_num := double_inc (sm_cycle_num s0)\<rparr>\<rparr>) in
      ctl_bind (wave_eval cm False (reset_pin (sm_pins s0)) w) (\<lambda>w.
      res_bind (serve_buses cm (count_commit (wc_sim w))) (\<lambda>s.
      wave_eval cm True (reset_pin (sm_pins s)) (timeInc HALF_CYCLE (w\<lparr>wc_sim := s\<rparr>)))))"

fun wave_cycles :: "'c core_model \<Rightarrow> nat \<Rightarrow> 'c wave_core \<Rightarrow> 'c wave_core ctl res" where
  "wave_cycles cm 0 w = Inr (Runs w)"
| "wave_cycles cm (Suc n) w = ctl_bind (wave_cycle cm w) (wave_cycles cm n)"

definition wave_init :: "'c \<Rightarrow> rng \<Rightarrow> log_line list option \<Rightarrow> 'c wave_core" where
  "wave_init c r f = \<lparr>wc_sim = core_init c r f, wc_time = 0, wc_dumps = []\<rparr>"

section \<open>Erasing the waveform\<close>

fun map_ctl :: "('s \<Rightarrow> 't) \<Rightarrow> 's ctl res \<Rightarrow> 't ctl res" where
  "map_ctl f (Inl e) = Inl e"
| "map_ctl f (Inr (Exits m s)) = Inr (Exits m (f s))"
| "map_ctl f (Inr (Runs s)) = Inr (Runs (f s))"

lemma map_ctl_bind:
  "(\<And>s. map_ctl f (g s) = h (f s)) \<Longrightarrow> map_ctl f (ctl_bind r g) = ctl_bind (map_ctl f r) h"
  by (cases "(r, g)" rule: ctl_bind.cases) auto

lemma map_ctl_res_bind: "(\<And>x. map_ctl f (g x) = h x) \<Longrightarrow> map_ctl f (res_bind r g) = res_bind r h"
  by (cases r) auto

lemma wave_eval_erase: "map_ctl wc_sim (wave_eval cm c r w) = core_eval cm c r (wc_sim w)"
  by (cases "(w, core_eval cm c r (wc_sim w))" rule: with_sim.cases) (auto simp: wave_eval_def dump_def)

lemma timeInc_sim [simp]: "wc_sim (timeInc n w) = wc_sim w"
  by (simp add: timeInc_def)

lemma wave_reset_loop_erase: "map_ctl wc_sim (wave_reset_loop cm n w) = reset_loop cm n (wc_sim w)"
proof (induction n arbitrary: w)
  case (Suc n)
  have "map_ctl wc_sim (ctl_bind (wave_eval cm False True (timeInc HALF_CYCLE v)) (wave_reset_loop cm n)) =
      ctl_bind (core_eval cm False True (wc_sim v)) (reset_loop cm n)" for v
    using map_ctl_bind [where f = wc_sim and g = "wave_reset_loop cm n", OF Suc] by (simp add: wave_eval_erase)
  then show ?case by (simp add: map_ctl_bind wave_eval_erase)
qed simp

lemma wave_reset_erase: "map_ctl wc_sim (wave_reset cm w) = core_reset cm (wc_sim w)"
  by (simp add: wave_reset_def core_reset_def map_ctl_bind wave_eval_erase wave_reset_loop_erase)

lemma wave_cycle_erase: "map_ctl wc_sim (wave_cycle cm w) = core_cycle cm (wc_sim w)"
  by (simp add: wave_cycle_def core_cycle_def map_ctl_bind map_ctl_res_bind wave_eval_erase Let_def)

lemma wave_cycles_erase: "map_ctl wc_sim (wave_cycles cm n w) = core_cycles cm n (wc_sim w)"
proof (induction n arbitrary: w)
  case (Suc n)
  then show ?case using map_ctl_bind [where f = wc_sim and g = "wave_cycles cm n", OF Suc] by (simp add: wave_cycle_erase)
qed simp

section \<open>The times of the samples\<close>

abbreviation samples :: "'c wave_core \<Rightarrow> nat list" where
  "samples w \<equiv> map fst (wc_dumps w)"

text \<open>
  From \<open>w\<close>, the code adds samples at the times \<open>ts\<close> and ends \<open>d\<close> time units later; when it exits on the
  way, a prefix of the samples has been written.
\<close>

definition emits :: "'c wave_core \<Rightarrow> nat list \<Rightarrow> nat \<Rightarrow> 'c wave_core ctl res \<Rightarrow> bool" where
  "emits w ts d = ctl_ok (\<lambda>e. True) (\<lambda>v. prefix (samples v) (samples w @ ts))
     (\<lambda>v. samples v = samples w @ ts \<and> wc_time v = wc_time w + d)"

lemma emits_return: "emits w [] 0 (Inr (Runs w))"
  by (simp add: emits_def)

lemma emits_bind:
  assumes "emits w ts d r" and "\<And>v. wc_time v = wc_time w + d \<Longrightarrow> emits v us e (f v)"
  shows "emits w (ts @ us) (d + e) (ctl_bind r f)"
proof (cases "(r, f)" rule: ctl_bind.cases)
  case (3 s g)
  then have "samples s = samples w @ ts" "wc_time s = wc_time w + d"
    using assms(1) by (auto simp: emits_def)
  then show ?thesis
    using assms(2) [of s] 3 by (auto simp: emits_def add.assoc intro: ctl_ok_mono)
qed (use assms(1) prefix_prefix in \<open>auto simp: emits_def simp flip: append_assoc\<close>)

lemma emits_res_bind: "(\<And>x. emits w ts d (f x)) \<Longrightarrow> emits w ts d (res_bind r f)"
  by (cases r) (auto simp: emits_def)

lemma emits_timeInc: "emits (timeInc n w) ts d r \<Longrightarrow> emits w ts (n + d) r"
  by (simp add: emits_def timeInc_def add.assoc)

lemma emits_sim: "emits (w\<lparr>wc_sim := s\<rparr>) ts d r = emits w ts d r"
  by (simp add: emits_def)

lemma emits_eval: "emits w [wc_time w] 0 (wave_eval cm c r w)"
  by (cases "(w, core_eval cm c r (wc_sim w))" rule: with_sim.cases) (auto simp: wave_eval_def dump_def emits_def)

lemma emits_later: "emits w [wc_time w + n] n (wave_eval cm c r (timeInc n w))"
  using emits_timeInc [OF emits_eval [of "timeInc n w" cm c r]] by (simp add: timeInc_def)

lemma upt_Suc_map: "[0..<Suc k] = 0 # map Suc [0..<k]"
  by (simp only: map_Suc_upt upt_conv_Cons [of 0 "Suc k"] zero_less_Suc)

text \<open>The times of \<open>n\<close> clock periods after the time \<open>t\<close>.\<close>

definition cycle_times :: "nat \<Rightarrow> nat \<Rightarrow> nat list" where
  "cycle_times t n = map (\<lambda>i. t + HALF_CYCLE * Suc i) [0..<2 * n]"

lemma cycle_times_0: "cycle_times t 0 = []"
  by (simp add: cycle_times_def)

lemma cycle_times_Suc:
  "cycle_times t (Suc n) = [t + HALF_CYCLE] @ [t + HALF_CYCLE + HALF_CYCLE] @ cycle_times (t + HALF_CYCLE + HALF_CYCLE) n"
proof -
  have "[0..<2 * Suc n] = 0 # 1 # map (\<lambda>i. Suc (Suc i)) [0..<2 * n]"
    using upt_Suc_map [of "Suc (2 * n)"] upt_Suc_map [of "2 * n"] by (simp add: comp_def del: upt.simps)
  then show ?thesis by (simp add: cycle_times_def comp_def algebra_simps del: upt.simps)
qed

lemma emits_reset_loop: "emits w (cycle_times (wc_time w) n) (n * (HALF_CYCLE + HALF_CYCLE)) (wave_reset_loop cm n w)"
proof (induction n arbitrary: w)
  case 0
  then show ?case by (simp add: emits_return cycle_times_0)
next
  case (Suc n)
  let ?t = "wc_time w"
  have "emits w ([?t + HALF_CYCLE] @ [?t + HALF_CYCLE + HALF_CYCLE] @ cycle_times (?t + HALF_CYCLE + HALF_CYCLE) n)
      (HALF_CYCLE + (HALF_CYCLE + n * (HALF_CYCLE + HALF_CYCLE))) (wave_reset_loop cm (Suc n) w)"
    unfolding wave_reset_loop.simps
  proof (rule emits_bind [OF emits_later], rule emits_bind, goal_cases)
    case (1 v)
    then show ?case using emits_later [of v HALF_CYCLE cm False True] by simp
  next
    case (2 v u)
    then show ?case using Suc [of u] by simp
  qed
  then show ?case unfolding cycle_times_Suc by (simp add: add.assoc)
qed

text \<open>The schedule of the samples of a reset followed by \<open>n\<close> cycles.\<close>

definition reset_times :: "nat list" where
  "reset_times = map (\<lambda>i. HALF_CYCLE * i) [0..<601] @ [60050, 60100]"

lemma emits_reset:
  assumes "wc_time w = 0"
  shows "emits w reset_times 60100 (wave_reset cm w)"
proof -
  have "[0..<601] = 0 # map Suc [0..<2 * 300]" using upt_Suc_map [of 600] by simp
  then have ts: "reset_times = [wc_time w] @ cycle_times 0 300 @ [60050] @ [60100]"
    using assms by (simp add: reset_times_def cycle_times_def comp_def del: upt.simps)
  have half: "emits v [t + HALF_CYCLE div 2] (HALF_CYCLE div 2) (wave_eval cm b False (timeInc (HALF_CYCLE div 2) v))"
    if "wc_time v = t" for v :: "'a wave_core" and b t
    using emits_later [of v "HALF_CYCLE div 2" cm b False] that by simp
  have "emits w ([wc_time w] @ cycle_times 0 300 @ [60050] @ [60100])
      (0 + (300 * (HALF_CYCLE + HALF_CYCLE) + (HALF_CYCLE div 2 + HALF_CYCLE div 2))) (wave_reset cm w)"
    unfolding wave_reset_def
  proof (rule emits_bind [OF emits_eval], rule emits_bind, goal_cases)
    case (1 v)
    then show ?case using emits_reset_loop [of v 300 cm] assms by simp
  next
    case (2 v u)
    then have u: "wc_time u = 60000" using assms by (simp add: HALF_CYCLE_def)
    show ?case
    proof (rule emits_bind, goal_cases)
      case 1
      then show ?case using half [OF u, of False] by (simp add: HALF_CYCLE_def)
    next
      case (2 t)
      then have "wc_time t = 60050" using u by (simp add: HALF_CYCLE_def)
      then show ?case using half [of t 60050 True] by (simp add: HALF_CYCLE_def)
    qed
  qed
  then show ?thesis unfolding ts by (simp add: HALF_CYCLE_def)
qed

lemma emits_cycle:
  "emits w ([wc_time w + HALF_CYCLE] @ [wc_time w + HALF_CYCLE + HALF_CYCLE]) (HALF_CYCLE + HALF_CYCLE) (wave_cycle cm w)"
  unfolding wave_cycle_def Let_def
proof (rule emits_bind, goal_cases)
  case 1
  let ?s = "(wc_sim w)\<lparr>sm_cycle_num := double_inc (sm_cycle_num (wc_sim w))\<rparr>"
  show ?case
    using emits_later [of "w\<lparr>wc_sim := ?s\<rparr>" HALF_CYCLE cm False] by (simp add: emits_sim)
next
  case (2 v)
  show ?case
  proof (rule emits_res_bind)
    fix t
    show "emits v [wc_time w + HALF_CYCLE + HALF_CYCLE] HALF_CYCLE
        (wave_eval cm True (reset_pin (sm_pins t)) (timeInc HALF_CYCLE (v\<lparr>wc_sim := t\<rparr>)))"
      using emits_later [of "v\<lparr>wc_sim := t\<rparr>" HALF_CYCLE cm True] 2 by (simp add: emits_sim)
  qed
qed

lemma emits_cycles: "emits w (cycle_times (wc_time w) n) (n * (HALF_CYCLE + HALF_CYCLE)) (wave_cycles cm n w)"
proof (induction n arbitrary: w)
  case 0
  then show ?case by (simp add: emits_return cycle_times_0)
next
  case (Suc n)
  let ?t = "wc_time w + HALF_CYCLE + HALF_CYCLE"
  have "emits w (([wc_time w + HALF_CYCLE] @ [?t]) @ cycle_times ?t n)
      (HALF_CYCLE + HALF_CYCLE + n * (HALF_CYCLE + HALF_CYCLE)) (wave_cycles cm (Suc n) w)"
    unfolding wave_cycles.simps
  proof (rule emits_bind [OF emits_cycle])
    fix v :: "'a wave_core"
    assume "wc_time v = wc_time w + (HALF_CYCLE + HALF_CYCLE)"
    then show "emits v (cycle_times ?t n) (n * (HALF_CYCLE + HALF_CYCLE)) (wave_cycles cm n v)"
      using Suc [of v] by (simp add: add.assoc)
  qed
  then show ?case unfolding cycle_times_Suc by simp
qed

lemma schedule_increases: "sorted_wrt (<) (reset_times @ cycle_times 60100 n)"
proof -
  have up: "sorted_wrt (<) (map f [0..<k])" if "\<And>i. f i < f (Suc i)" for f :: "nat \<Rightarrow> nat" and k
    using lift_Suc_mono_less [of f, OF that] by (auto simp: sorted_wrt_map sorted_wrt_iff_nth_less)
  have "x < 60050" if "x \<in> set (map (\<lambda>i. HALF_CYCLE * i) [0..<601])" for x
    using that by (auto simp: HALF_CYCLE_def simp del: upt_Suc)
  moreover have "60100 < x" if "x \<in> set (cycle_times 60100 n)" for x
    using that by (auto simp: cycle_times_def HALF_CYCLE_def)
  ultimately show ?thesis
    using up [of "\<lambda>i. HALF_CYCLE * i" 601] up [of "\<lambda>i. 60100 + HALF_CYCLE * Suc i" "2 * n"]
    by (fastforce simp: reset_times_def cycle_times_def sorted_wrt_append HALF_CYCLE_def simp del: upt_Suc set_upt)
qed

section \<open>Properties\<close>

text \<open>
  C23. The build that writes a waveform behaves as the one that does not: a reset and \<open>n\<close> cycles of any core from any
  state \<open>s\<close> give the same result, fault or exit, apart from the time and the samples. The samples are at the times 0, 100,
  \<open>\<dots>\<close>, 60000, 60050 and 60100 of the reset and at every 100 time units after it, strictly increasing; a program
  that exits early has written an initial part of them.
\<close>

theorem wave_build_refines:
  "map_ctl wc_sim (ctl_bind (wave_reset cm \<lparr>wc_sim = s, wc_time = 0, wc_dumps = []\<rparr>) (wave_cycles cm n)) =
     ctl_bind (core_reset cm s) (core_cycles cm n) \<and>
   ctl_ok (\<lambda>e. True) (\<lambda>w. prefix (map fst (wc_dumps w)) (reset_times @ cycle_times 60100 n))
     (\<lambda>w. map fst (wc_dumps w) = reset_times @ cycle_times 60100 n)
     (ctl_bind (wave_reset cm \<lparr>wc_sim = s, wc_time = 0, wc_dumps = []\<rparr>) (wave_cycles cm n)) \<and>
   sorted_wrt (<) (reset_times @ cycle_times 60100 n)"
proof (intro conjI schedule_increases)
  let ?w = "\<lparr>wc_sim = s, wc_time = 0, wc_dumps = []\<rparr>"
  show "map_ctl wc_sim (ctl_bind (wave_reset cm ?w) (wave_cycles cm n)) = ctl_bind (core_reset cm s) (core_cycles cm n)"
    using map_ctl_bind [where f = wc_sim and g = "wave_cycles cm n", OF wave_cycles_erase] by (simp add: wave_reset_erase)
  have "emits ?w (reset_times @ cycle_times 60100 n) (60100 + n * (HALF_CYCLE + HALF_CYCLE))
      (ctl_bind (wave_reset cm ?w) (wave_cycles cm n))"
  proof (rule emits_bind [OF emits_reset])
    fix v :: "'a wave_core"
    assume "wc_time v = wc_time ?w + 60100"
    then show "emits v (cycle_times 60100 n) (n * (HALF_CYCLE + HALF_CYCLE)) (wave_cycles cm n v)"
      using emits_cycles [of v n cm] by simp
  qed simp
  then show "ctl_ok (\<lambda>e. True) (\<lambda>w. prefix (samples w) (reset_times @ cycle_times 60100 n))
     (\<lambda>w. samples w = reset_times @ cycle_times 60100 n) (ctl_bind (wave_reset cm ?w) (wave_cycles cm n))"
    by (auto simp: emits_def intro: ctl_ok_mono)
qed

end
