(* ===== verification/Backend_Bench.thy ===== *)
theory Backend_Bench
  imports Text_Format
begin

unbundle bit_operations_syntax

text \<open>
  The bench of the backend, \<open>ut/backend.cpp\<close>: it feeds decoded instructions from a CSV file to the
  backend and answers its memory requests from a hexadecimal memory image. The Verilated backend is
  an argument; so is \<open>string::compare\<close>, of whose result the language only fixes the sign. The lines of
  the two files are arguments, printing and the waveform are left out.
\<close>

section \<open>Numbers in text\<close>

text \<open>The digits of \<open>strtol\<close> and \<open>strtoull\<close>; 36 stands for no digit.\<close>

definition digit_value :: "char \<Rightarrow> nat" where
  "digit_value c =
     (let n = of_char c in
      if 48 \<le> n \<and> n \<le> 57 then n - 48
      else if 97 \<le> n \<and> n \<le> 122 then n - 87
      else if 65 \<le> n \<and> n \<le> 90 then n - 55
      else (36 :: nat))"

definition digits_value :: "nat \<Rightarrow> string \<Rightarrow> nat" where
  "digits_value base ds = foldl (\<lambda>v c. base * v + digit_value c) 0 ds"

text \<open>White space, a sign, the prefix of base 16, and the longest run of digits.\<close>

definition scan_sign :: "string \<Rightarrow> bool \<times> string" where
  "scan_sign s =
     (case dropWhile is_space s of
        [] \<Rightarrow> (False, [])
      | c # cs \<Rightarrow> if c = CHR ''-'' then (True, cs) else if c = CHR ''+'' then (False, cs) else (False, c # cs))"

definition scan_prefix :: "nat \<Rightarrow> string \<Rightarrow> string" where
  "scan_prefix base s =
     (if base = 16 \<and> 2 < length s \<and> s ! 0 = CHR ''0'' \<and> (s ! 1 = CHR ''x'' \<or> s ! 1 = CHR ''X'') \<and>
         digit_value (s ! 2) < 16
      then drop 2 s else s)"

definition scan_number :: "nat \<Rightarrow> string \<Rightarrow> bool \<times> string" where
  "scan_number base s =
     (let (neg, t) = scan_sign s in (neg, takeWhile (\<lambda>c. digit_value c < base) (scan_prefix base t)))"

text \<open>\<open>stoi\<close>, \<open>stol\<close> and \<open>stoll\<close> with the number of bits of the result.\<close>

definition sto :: "nat \<Rightarrow> nat \<Rightarrow> string \<Rightarrow> int res" where
  "sto bits base s =
     (let (neg, ds) = scan_number base s;
          v = (if neg then - int (digits_value base ds) else int (digits_value base ds))
      in if ds = [] then Inl (Throw ''invalid_argument'')
         else if v < - (2 ^ (bits - 1)) \<or> 2 ^ (bits - 1) \<le> v then Inl Out_of_range
         else Inr v)"

definition strtoull :: "string \<Rightarrow> u64" where
  "strtoull s =
     (let (neg, ds) = scan_number 16 s; v = digits_value 16 ds
      in if 2 ^ 64 \<le> v then - 1 else if neg then - of_nat v else of_nat v)"

definition substr :: "int \<Rightarrow> int \<Rightarrow> string \<Rightarrow> string res" where
  "substr pos len s =
     (if pos < 0 \<or> int (length s) < pos then Inl Out_of_range
      else Inr (if len < 0 then drop (nat pos) s else take (nat len) (drop (nat pos) s)))"

text \<open>\<open>getline(sin, info, ',')\<close> until it fails.\<close>

fun csv_fields :: "string \<Rightarrow> string \<Rightarrow> string list" where
  "csv_fields acc [] = (if acc = [] then [] else [rev acc])"
| "csv_fields acc (c # cs) =
     (if c = CHR '','' then rev acc # csv_fields [] cs else csv_fields (c # acc) cs)"

section \<open>Memory response\<close>

definition mem_at :: "int \<Rightarrow> string list \<Rightarrow> string res" where
  "mem_at i xs = (if 0 \<le> i \<and> nat i < length xs then Inr (xs ! nat i) else Inl Out_of_range)"

definition c_div8 :: "int \<Rightarrow> int" where
  "c_div8 x = (if 0 \<le> x then x div 8 else - (- x div 8))"

definition c_mod8 :: "int \<Rightarrow> int" where
  "c_mod8 x = x - 8 * c_div8 x"

text \<open>
  \<open>start\<close> is computed as a double and converted to \<open>int32_t\<close>; for a size up to 30 it is exact, beyond
  that the conversion is undefined.
\<close>

definition mem_response :: "string list \<Rightarrow> u32 \<Rightarrow> u32 \<Rightarrow> u64 \<Rightarrow> u64 res" where
  "mem_response m_mem addr sz old =
     (let rel = sint (addr - 0x80000000);
          idx = c_div8 rel;
          offset = c_mod8 rel;
          start = 15 - offset * 2 - 2 ^ unat (sz + 1) + 1;
          e = 15 - offset * 2
      in if unat (sz + 1) > 31 then Inl (Undefined ''conversion out of range'')
         else if start \<ge> 0 then
           if 0 \<le> idx \<and> idx < 2048
           then res_bind (mem_at idx m_mem) (\<lambda>l. res_map strtoull (substr start e l))
           else Inr old
         else
           res_bind (mem_at (idx - 1) m_mem) (\<lambda>l. res_bind (substr (16 + start) 15 l) (\<lambda>a.
           res_bind (mem_at idx m_mem) (\<lambda>k. res_map (\<lambda>b. strtoull (a @ b)) (substr 0 e k)))))"

section \<open>Inputs and outputs of the backend\<close>

text \<open>The value assigned to each input; the conversion to the width of the port is part of the backend.\<close>

record backend_in =
  b_clk :: int
  b_rstn :: int
  b_wfi_ctrl_in :: int
  b_trapped :: int
  b_valid_i :: int
  b_ecause_i :: int
  b_exception_i :: int
  b_uses_rs1_i :: int
  b_uses_rs2_i :: int
  b_uses_csr_i :: int
  b_uses_rd_i :: int
  b_pc_i :: int
  b_next_pc_i :: int
  b_is_alu_i :: int
  b_deco_alu_select_a_i :: int
  b_deco_alu_select_b_i :: int
  b_cmp_function_i :: int
  b_imm_data_i :: int
  b_half_i :: int
  b_alu_function_i :: int
  b_alu_function_modifier_i :: int
  b_branch_i :: int
  b_jump_i :: int
  b_load_i :: int
  b_store_i :: int
  b_load_store_size_i :: int
  b_load_signed_i :: int
  b_rs1_address_i :: int
  b_rs2_address_i :: int
  b_rd_address_i :: int
  b_csr_address_i :: int
  b_csr_data_i :: int
  b_csr_read_i :: int
  b_csr_write_i :: int
  b_csr_readable_i :: int
  b_csr_writeable_i :: int
  b_wfi_i :: int
  b_mret_i :: int
  b_req_ready_i :: int
  b_resp_valid_i :: int
  b_resp_data_i :: u64
  b_resp_lsq_index_i :: u32
  b_is_fence_i :: int

definition backend_in0 :: backend_in where
  "backend_in0 =
     \<lparr>b_clk = 0, b_rstn = 1, b_wfi_ctrl_in = 0, b_trapped = 0, b_valid_i = 0,
      b_ecause_i = 0, b_exception_i = 0, b_uses_rs1_i = 0, b_uses_rs2_i = 0, b_uses_csr_i = 0,
      b_uses_rd_i = 0, b_pc_i = 0x80000000, b_next_pc_i = 0x80000004, b_is_alu_i = 0, b_deco_alu_select_a_i = 0,
      b_deco_alu_select_b_i = 0, b_cmp_function_i = 0, b_imm_data_i = 0, b_half_i = 0, b_alu_function_i = 0,
      b_alu_function_modifier_i = 0, b_branch_i = 0, b_jump_i = 0, b_load_i = 0, b_store_i = 0,
      b_load_store_size_i = 0, b_load_signed_i = 0, b_rs1_address_i = 0, b_rs2_address_i = 0, b_rd_address_i = 0,
      b_csr_address_i = 0, b_csr_data_i = 0, b_csr_read_i = 0, b_csr_write_i = 0, b_csr_readable_i = 0,
      b_csr_writeable_i = 0, b_wfi_i = 0, b_mret_i = 0, b_req_ready_i = 0, b_resp_valid_i = 0,
      b_resp_data_i = 0, b_resp_lsq_index_i = 0, b_is_fence_i = 0\<rparr>"

record backend_out =
  rob_ready_out :: bool
  req_valid_o :: bool
  req_addr_o :: u32
  req_lsq_index_o :: u32
  req_size_o :: u32

section \<open>One line of the CSV file\<close>

text \<open>
  How a column is read: as a binary number, as one with a prefix of two characters, as one with a
  prefix unless it is 0, as a hexadecimal number, or as an immediate with its base in the prefix.
\<close>

datatype column = Bin | Bin2 | Bin2_unless_0 | Hex | Imm

fun read_column :: "column \<Rightarrow> string \<Rightarrow> int res" where
  "read_column Bin f = sto 32 2 f"
| "read_column Bin2 f = sto 32 2 (drop 2 f)"
| "read_column Bin2_unless_0 f = sto 32 2 (if f \<noteq> ''0'' then drop 2 f else f)"
| "read_column Hex f = sto 64 16 f"
| "read_column Imm f =
     (if take 2 f = ''0x'' then sto 64 16 (drop 2 f)
      else if take 2 f = ''0b'' then sto 64 2 (drop 2 f)
      else sto 64 2 f)"

definition column_at :: "string list \<Rightarrow> nat \<Rightarrow> string res" where
  "column_at ws k = (if k < length ws then Inr (ws ! k) else Inl (Undefined ''column missing''))"

text \<open>The columns in the order the code reads them, each with the input it sets.\<close>

definition csv_columns :: "(nat \<times> column \<times> (int \<Rightarrow> backend_in \<Rightarrow> backend_in)) list" where
  "csv_columns =
     [(0, Bin, \<lambda>v p. p\<lparr>b_uses_rs1_i := v\<rparr>),
      (1, Bin, \<lambda>v p. p\<lparr>b_uses_rs2_i := v\<rparr>),
      (2, Bin, \<lambda>v p. p\<lparr>b_uses_csr_i := v\<rparr>),
      (3, Bin, \<lambda>v p. p\<lparr>b_uses_rd_i := v\<rparr>),
      (4, Hex, \<lambda>v p. p\<lparr>b_pc_i := v\<rparr>),
      (5, Hex, \<lambda>v p. p\<lparr>b_next_pc_i := v\<rparr>),
      (6, Bin, \<lambda>v p. p\<lparr>b_is_alu_i := v\<rparr>),
      (7, Bin2, \<lambda>v p. p\<lparr>b_deco_alu_select_a_i := v\<rparr>),
      (8, Bin2, \<lambda>v p. p\<lparr>b_deco_alu_select_b_i := v\<rparr>),
      (9, Bin2, \<lambda>v p. p\<lparr>b_cmp_function_i := v\<rparr>),
      (10, Imm, \<lambda>v p. p\<lparr>b_imm_data_i := v\<rparr>),
      (11, Bin, \<lambda>v p. p\<lparr>b_half_i := v\<rparr>),
      (12, Bin2, \<lambda>v p. p\<lparr>b_alu_function_i := v\<rparr>),
      (13, Bin, \<lambda>v p. p\<lparr>b_alu_function_modifier_i := v\<rparr>),
      (14, Bin, \<lambda>v p. p\<lparr>b_branch_i := v\<rparr>),
      (15, Bin, \<lambda>v p. p\<lparr>b_jump_i := v\<rparr>),
      (16, Bin, \<lambda>v p. p\<lparr>b_load_i := v\<rparr>),
      (17, Bin, \<lambda>v p. p\<lparr>b_store_i := v\<rparr>),
      (18, Bin2, \<lambda>v p. p\<lparr>b_load_store_size_i := v\<rparr>),
      (19, Bin, \<lambda>v p. p\<lparr>b_load_signed_i := v\<rparr>),
      (20, Bin2, \<lambda>v p. p\<lparr>b_rs1_address_i := v\<rparr>),
      (21, Bin2, \<lambda>v p. p\<lparr>b_rs2_address_i := v\<rparr>),
      (22, Bin2_unless_0, \<lambda>v p. p\<lparr>b_rd_address_i := v\<rparr>),
      (23, Bin2, \<lambda>v p. p\<lparr>b_csr_address_i := v\<rparr>),
      (24, Bin, \<lambda>v p. p\<lparr>b_csr_read_i := v\<rparr>),
      (25, Bin, \<lambda>v p. p\<lparr>b_csr_write_i := v\<rparr>)]"

fun set_columns ::
    "string list \<Rightarrow> (nat \<times> column \<times> (int \<Rightarrow> backend_in \<Rightarrow> backend_in)) list \<Rightarrow> backend_in \<Rightarrow> backend_in res" where
  "set_columns ws [] p = Inr p"
| "set_columns ws ((k, c, f) # cs) p =
     res_bind (res_bind (column_at ws k) (read_column c)) (\<lambda>v. set_columns ws cs (f v p))"

text \<open>A one-bit port is a byte of the Verilated class.\<close>

definition port_is_1 :: "int \<Rightarrow> bool" where
  "port_is_1 v \<longleftrightarrow> (word_of_int v :: u8) = 1"

text \<open>
  The rest of the line: \<open>compare\<close> is tested for 1, \<open>mret_i\<close> raises an exception with cause 2.
\<close>

definition set_flags :: "(string \<Rightarrow> string \<Rightarrow> int) \<Rightarrow> string list \<Rightarrow> backend_in \<Rightarrow> backend_in res" where
  "set_flags cmp ws p =
     res_bind (column_at ws 26) (\<lambda>w26. res_bind (column_at ws 27) (\<lambda>w27.
       let mret = cmp w27 ''True'' = 1 in
       res_map (\<lambda>fence. p
           \<lparr>b_csr_data_i := 0,
            b_csr_readable_i := (if port_is_1 (b_csr_read_i p) then 1 else 0),
            b_csr_writeable_i := (if port_is_1 (b_csr_write_i p) then 1 else 0),
            b_wfi_i := (if cmp w26 ''True'' = 1 then 1 else 0),
            b_mret_i := (if mret then 1 else 0),
            b_exception_i := (if mret then 1 else 0),
            b_ecause_i := (if mret then 2 else 0),
            b_req_ready_i := 1,
            b_is_fence_i := fence\<rparr>)
         (res_bind (column_at ws 28) (read_column Bin))))"

definition set_instruction :: "(string \<Rightarrow> string \<Rightarrow> int) \<Rightarrow> string \<Rightarrow> backend_in \<Rightarrow> backend_in res" where
  "set_instruction cmp line p =
     (let ws = csv_fields [] line in
      res_bind (set_columns ws csv_columns (p\<lparr>b_wfi_ctrl_in := 0, b_valid_i := 1\<rparr>)) (set_flags cmp ws))"

section \<open>The bench\<close>

definition BACKEND_MAX_TIME :: nat where "BACKEND_MAX_TIME = 10000"
definition BACKEND_HALF_CYCLE :: nat where "BACKEND_HALF_CYCLE = 5"

record 'd backend_bench =
  bb_dut :: 'd
  bb_in :: backend_in
  bb_lines :: "string list"
  bb_mem :: "string list"
  bb_addr :: u32
  bb_lsq :: u32
  bb_size :: u32
  bb_valid :: bool
  bb_time :: nat
  bb_main_time :: nat

definition answer_request :: "'d backend_bench \<Rightarrow> 'd backend_bench res" where
  "answer_request s =
     (if bb_valid s then
        res_map (\<lambda>d. s\<lparr>bb_in := (bb_in s)\<lparr>b_resp_data_i := d, b_resp_lsq_index_i := bb_lsq s, b_resp_valid_i := 1\<rparr>,
            bb_addr := 0, bb_lsq := 0, bb_size := 0, bb_valid := False\<rparr>)
          (mem_response (bb_mem s) (bb_addr s) (bb_size s) (b_resp_data_i (bb_in s)))
      else Inr (s\<lparr>bb_in := (bb_in s)\<lparr>b_resp_data_i := 0, b_resp_lsq_index_i := 0, b_resp_valid_i := 0\<rparr>\<rparr>))"

text \<open>The falling edge; \<open>None\<close> is the \<open>break\<close> at the end of the file.\<close>

definition negedge :: "(string \<Rightarrow> string \<Rightarrow> int) \<Rightarrow> backend_out \<Rightarrow> 'd backend_bench \<Rightarrow> 'd backend_bench option res" where
  "negedge cmp out s0 =
     (let s = s0\<lparr>bb_in := (bb_in s0)\<lparr>b_clk := 0\<rparr>\<rparr> in
      if rob_ready_out out then
        (case bb_lines s of
           [] \<Rightarrow> Inr None
         | l # ls \<Rightarrow>
             res_bind (set_instruction cmp l (bb_in s)) (\<lambda>p.
             res_map Some (answer_request (s\<lparr>bb_in := p, bb_lines := ls\<rparr>))))
      else Inr (Some s))"

definition backend_eval :: "(backend_in \<Rightarrow> 'd \<Rightarrow> 'd) \<Rightarrow> 'd backend_bench \<Rightarrow> 'd backend_bench" where
  "backend_eval dut s = s\<lparr>bb_dut := dut (bb_in s) (bb_dut s), bb_time := bb_time s + BACKEND_HALF_CYCLE\<rparr>"

definition note_request :: "backend_out \<Rightarrow> 'd backend_bench \<Rightarrow> 'd backend_bench" where
  "note_request out s =
     (if req_valid_o out
      then s\<lparr>bb_valid := True, bb_addr := req_addr_o out, bb_lsq := req_lsq_index_o out, bb_size := req_size_o out\<rparr>
      else s\<lparr>bb_valid := False, bb_addr := 0, bb_lsq := 0, bb_size := 0\<rparr>)"

definition backend_step ::
    "(string \<Rightarrow> string \<Rightarrow> int) \<Rightarrow> (backend_in \<Rightarrow> 'd \<Rightarrow> 'd) \<Rightarrow> ('d \<Rightarrow> backend_out) \<Rightarrow> 'd backend_bench \<Rightarrow>
     'd backend_bench option res" where
  "backend_step cmp dut outp s =
     res_map (map_option (\<lambda>s.
         let s1 = (if bb_main_time s = 2 then s\<lparr>bb_in := (bb_in s)\<lparr>b_rstn := 0\<rparr>\<rparr> else s);
             s2 = backend_eval dut s1
         in (note_request (outp (bb_dut s2)) s2)\<lparr>bb_main_time := bb_main_time s2 + 1\<rparr>))
       (if bb_main_time s mod 2 = 1 then negedge cmp (outp (bb_dut s)) s
        else Inr (Some (s\<lparr>bb_in := (bb_in s)\<lparr>b_clk := 1\<rparr>\<rparr>)))"

lemma answer_request_time: "answer_request s = Inr t \<Longrightarrow> bb_time t = bb_time s"
  unfolding answer_request_def by (auto simp only: res_map_Inr_iff split: if_splits) simp_all

lemma negedge_time: "negedge cmp out s = Inr (Some t) \<Longrightarrow> bb_time t = bb_time s"
  unfolding negedge_def Let_def
  by (auto split: if_splits list.splits dest!: answer_request_time)

lemma backend_step_time:
  assumes "backend_step cmp dut outp s = Inr (Some t)"
  shows "bb_time t = bb_time s + BACKEND_HALF_CYCLE"
proof -
  obtain u where u: "(if bb_main_time s mod 2 = 1 then negedge cmp (outp (bb_dut s)) s
        else Inr (Some (s\<lparr>bb_in := (bb_in s)\<lparr>b_clk := 1\<rparr>\<rparr>))) = Inr (Some u)"
    and t: "bb_time t = bb_time u + BACKEND_HALF_CYCLE"
    using assms unfolding backend_step_def
    by (auto simp only: res_map_Inr_iff map_option_eq_Some) (simp add: Let_def backend_eval_def note_request_def)
  have "bb_time u = bb_time s" using u negedge_time by (auto split: if_splits)
  then show ?thesis using t by simp
qed

function backend_loop ::
    "(string \<Rightarrow> string \<Rightarrow> int) \<Rightarrow> (backend_in \<Rightarrow> 'd \<Rightarrow> 'd) \<Rightarrow> ('d \<Rightarrow> backend_out) \<Rightarrow> 'd backend_bench \<Rightarrow>
     'd backend_bench res" where
  "backend_loop cmp dut outp s =
     (if bb_time s < BACKEND_MAX_TIME then
        (case backend_step cmp dut outp s of
           Inl e \<Rightarrow> Inl e
         | Inr None \<Rightarrow> Inr s
         | Inr (Some t) \<Rightarrow> backend_loop cmp dut outp t)
      else Inr s)"
  by pat_completeness auto
termination
  by (relation "measure (\<lambda>(cmp, dut, outp, s). BACKEND_MAX_TIME - bb_time s)")
    (auto dest!: backend_step_time simp: BACKEND_HALF_CYCLE_def)

text \<open>Two evaluations before the loop, the six header lines skipped.\<close>

definition backend_init ::
    "(backend_in \<Rightarrow> 'd \<Rightarrow> 'd) \<Rightarrow> 'd \<Rightarrow> string list \<Rightarrow> string list \<Rightarrow> 'd backend_bench" where
  "backend_init dut d csv mem =
     (let s = \<lparr>bb_dut = d, bb_in = backend_in0, bb_lines = drop 6 csv, bb_mem = mem, bb_addr = 0, bb_lsq = 0,
            bb_size = 0, bb_valid = False, bb_time = 0, bb_main_time = 0\<rparr>;
          s1 = backend_eval dut s;
          s2 = backend_eval dut (s1\<lparr>bb_in := (bb_in s1)\<lparr>b_clk := 1\<rparr>\<rparr>)
      in s2\<lparr>bb_main_time := 2\<rparr>)"

definition backend_main ::
    "(string \<Rightarrow> string \<Rightarrow> int) \<Rightarrow> (backend_in \<Rightarrow> 'd \<Rightarrow> 'd) \<Rightarrow> ('d \<Rightarrow> backend_out) \<Rightarrow> 'd \<Rightarrow>
     string list \<Rightarrow> string list \<Rightarrow> 'd backend_bench res" where
  "backend_main cmp dut outp d csv mem = backend_loop cmp dut outp (backend_init dut d csv mem)"

section \<open>Hexadecimal lines\<close>

definition hex_digits :: "string \<Rightarrow> bool" where
  "hex_digits l \<longleftrightarrow> list_all (\<lambda>c. digit_value c < 16) l"

lemma digits_value_from:
  "foldl (\<lambda>v c. 16 * v + digit_value c) v ds = 16 ^ length ds * v + digits_value 16 ds"
proof (induction ds arbitrary: v)
  case (Cons d ds)
  show ?case
    using Cons [of "16 * v + digit_value d"] Cons [of "digit_value d"] by (simp add: digits_value_def algebra_simps)
qed (simp add: digits_value_def)

lemma digits_value_append: "digits_value 16 (a @ b) = 16 ^ length b * digits_value 16 a + digits_value 16 b"
  using digits_value_from [of "digits_value 16 a" b] by (simp add: digits_value_def)

lemma digits_value_less: "hex_digits ds \<Longrightarrow> digits_value 16 ds < 16 ^ length ds"
proof (induction ds rule: rev_induct)
  case (snoc d ds)
  then have "digits_value 16 ds + 1 \<le> 16 ^ length ds" "digit_value d < 16" by (auto simp: hex_digits_def)
  then have "16 * (digits_value 16 ds + 1) \<le> 16 * 16 ^ length ds" by (intro mult_le_mono2)
  then show ?case using \<open>digit_value d < 16\<close> by (simp add: digits_value_def)
qed (simp add: digits_value_def)

lemma digits_value_slice:
  assumes "hex_digits l" and "k + n \<le> length l"
  shows "digits_value 16 (take n (drop k l)) = digits_value 16 l div 16 ^ (length l - k - n) mod 16 ^ n"
proof -
  define a b c where "a = take k l" and "b = take n (drop k l)" and "c = drop (k + n) l"
  have "b @ c = drop k l" unfolding b_def c_def by (metis append_take_drop_id drop_drop add.commute)
  then have l: "l = a @ b @ c" by (simp add: a_def)
  have len: "length b = n" "length c = length l - k - n" using assms(2) by (simp_all add: b_def c_def)
  have "hex_digits b" "hex_digits c" using assms(1) unfolding l by (simp_all add: hex_digits_def)
  then have lt: "digits_value 16 b < 16 ^ n" "digits_value 16 c < 16 ^ length c"
    using digits_value_less [of b] digits_value_less [of c] len(1) by simp_all
  have "digits_value 16 l = 16 ^ length c * (16 ^ n * digits_value 16 a + digits_value 16 b) + digits_value 16 c"
    unfolding l digits_value_append by (simp add: len(1) power_add algebra_simps)
  then have "digits_value 16 l div 16 ^ length c = 16 ^ n * digits_value 16 a + digits_value 16 b"
    using lt(2) by simp
  then show ?thesis using lt(1) len(2) by (simp add: b_def [symmetric])
qed

text \<open>A hexadecimal digit starts neither white space nor a sign nor the second half of a prefix.\<close>

lemma hex_digit_char: "digit_value c < 16 \<Longrightarrow>
  \<not> is_space c \<and> c \<noteq> CHR ''-'' \<and> c \<noteq> CHR ''+'' \<and> c \<noteq> CHR ''x'' \<and> c \<noteq> CHR ''X''"
  by (auto simp: digit_value_def is_space_def Let_def split: if_splits)

lemma scan_hex: "hex_digits l \<Longrightarrow> scan_number 16 l = (False, l)"
proof (cases l)
  case (Cons c cs)
  assume hex: "hex_digits l"
  have "scan_sign l = (False, l)"
    using hex hex_digit_char [of c] Cons by (simp add: scan_sign_def hex_digits_def)
  moreover have "scan_prefix 16 l = l"
  proof -
    have "1 < length l \<Longrightarrow> l ! 1 \<noteq> CHR ''x'' \<and> l ! 1 \<noteq> CHR ''X''"
      using hex hex_digit_char [of "l ! 1"] by (simp add: hex_digits_def list_all_length)
    then show ?thesis by (auto simp: scan_prefix_def)
  qed
  moreover have "takeWhile (\<lambda>c. digit_value c < 16) l = l"
    using hex by (simp add: hex_digits_def list_all_iff takeWhile_eq_all_conv)
  ultimately show ?thesis by (simp add: scan_number_def)
qed (simp add: scan_number_def scan_sign_def scan_prefix_def)

lemma strtoull_hex:
  assumes "hex_digits l" and "length l \<le> 16"
  shows "unat (strtoull l) = digits_value 16 l"
proof -
  have "digits_value 16 l < 16 ^ length l" by (rule digits_value_less [OF assms(1)])
  also have "\<dots> \<le> 16 ^ 16" using assms(2) by (intro power_increasing) simp_all
  finally have lt: "digits_value 16 l < 2 ^ 64" by simp
  then show ?thesis
    using scan_hex [OF assms(1)] by (simp add: strtoull_def unsigned_of_nat take_bit_nat_eq_self)
qed

section \<open>What the bench answers\<close>

lemma hex_digits_slice: "hex_digits l \<Longrightarrow> hex_digits (take n (drop k l))"
  by (auto simp: hex_digits_def list_all_iff dest: in_set_takeD in_set_dropD)

lemma response_address:
  assumes "r < 16384"
  shows "sint ((0x80000000 + of_nat r :: u32) - 0x80000000) = int r"
proof -
  have "(0x80000000 + of_nat r :: u32) - 0x80000000 = of_nat r" by simp
  moreover have "sint (of_nat r :: u32) = int r"
    using assms by (simp add: signed_of_nat signed_take_bit_int_eq_self)
  ultimately show ?thesis by simp
qed

text \<open>
  C35. The answer of the bench to a load of \<open>2 ^ s\<close> bytes at byte \<open>p\<close> of double word \<open>i\<close> of the image:
  the digits from the first digit of the loaded bytes on, but \<open>15 - 2 * p\<close> of them (as far as the
  line goes), because the second argument of \<open>substr\<close> is a length and not an end. It is the
  addressed value for a load of up to four bytes at the start of a double word.
\<close>

theorem backend_response_value:
  assumes "i < 2048" and "i < length mem" and "hex_digits (mem ! i)" and "length (mem ! i) = 16"
    and "s \<le> 3" and "p + 2 ^ s \<le> 8"
  shows "\<exists>y. mem_response mem (0x80000000 + of_nat (8 * i + p)) (of_nat s) old = Inr y \<and>
    (let v = digits_value 16 (mem ! i); n = min (15 - 2 * p) (2 * p + 2 * 2 ^ s)
     in unat y = v div 16 ^ (2 * p + 2 * 2 ^ s - n) mod 16 ^ n \<and>
        (p = 0 \<and> s < 3 \<longrightarrow> unat y = v mod 256 ^ 2 ^ s))"
proof -
  let ?l = "mem ! i" and ?st = "16 - 2 * p - 2 * 2 ^ s" and ?n = "min (15 - 2 * p) (2 * p + 2 * 2 ^ s)"
  have fit: "2 * p + 2 * 2 ^ s \<le> 16" using assms(6) by simp
  have p8: "p < 8" using assms(6) zero_less_power [of "2::nat" s] by linarith
  have sz: "unat ((of_nat s :: u32) + 1) = Suc s"
  proof -
    have "unat (of_nat (Suc s) :: u32) = Suc s"
      using assms(5) by (simp add: unsigned_of_nat take_bit_nat_eq_self del: of_nat_Suc)
    then show ?thesis by (simp add: add.commute)
  qed
  have rel: "sint ((0x80000000 + of_nat (8 * i + p) :: u32) - 0x80000000) = int (8 * i + p)"
    using assms(1) p8 by (intro response_address) simp
  have dm: "c_div8 (int (8 * i + p)) = int i" "c_mod8 (int (8 * i + p)) = int p"
    using p8 by (simp_all add: c_mod8_def c_div8_def)
  have start: "15 - int p * 2 - 2 ^ Suc s + 1 = int ?st" using fit by (simp add: of_nat_diff)
  have sub: "substr (int ?st) (15 - int p * 2) ?l = Inr (take (15 - 2 * p) (drop ?st ?l))"
    using assms(4) p8 by (simp add: substr_def nat_diff_distrib' nat_mult_distrib mult.commute)
  have resp: "mem_response mem (0x80000000 + of_nat (8 * i + p)) (of_nat s) old =
      Inr (strtoull (take (15 - 2 * p) (drop ?st ?l)))"
    unfolding mem_response_def Let_def rel dm sz start
    using assms(1,2,5) sub by (simp add: mem_at_def)
  have drop_len: "length (drop ?st ?l) = 2 * p + 2 * 2 ^ s" using assms(4) fit by simp
  have take_n: "take (15 - 2 * p) (drop ?st ?l) = take ?n (drop ?st ?l)"
    using drop_len by (simp add: min_def)
  have val: "unat (strtoull (take ?n (drop ?st ?l))) = digits_value 16 ?l div 16 ^ (2 * p + 2 * 2 ^ s - ?n) mod 16 ^ ?n"
  proof -
    have "unat (strtoull (take ?n (drop ?st ?l))) = digits_value 16 (take ?n (drop ?st ?l))"
      using assms(3,4) by (intro strtoull_hex hex_digits_slice) simp_all
    also have "\<dots> = digits_value 16 ?l div 16 ^ (length ?l - ?st - ?n) mod 16 ^ ?n"
      using assms(4) fit by (intro digits_value_slice [OF assms(3)]) linarith
    also have "length ?l - ?st - ?n = 2 * p + 2 * 2 ^ s - ?n" using assms(4) fit by simp
    finally show ?thesis .
  qed
  have low: "?n = 2 * 2 ^ s" if "p = 0" "s < 3"
  proof -
    have "s = 0 \<or> s = 1 \<or> s = 2" using that(2) by auto
    then show ?thesis using that(1) by auto
  qed
  have "(256 :: nat) ^ k = 16 ^ (2 * k)" for k by (simp add: power_mult)
  then show ?thesis using resp take_n val low by (auto simp: Let_def)
qed

theorem backend_response_value_witness:
  "\<exists>y. mem_response [''0000000000000000'', ''0123456789abcdef''] 0x80000008 2 0 = Inr y \<and> unat y = 0x89abcdef"
proof -
  let ?m = "[''0000000000000000'', ''0123456789abcdef'']"
  have l: "?m ! 1 = ''0123456789abcdef''" by simp
  have v: "hex_digits ''0123456789abcdef''" "digits_value 16 ''0123456789abcdef'' = 0x0123456789abcdef"
    by (simp_all add: hex_digits_def digits_value_def digit_value_def)
  show ?thesis
    using backend_response_value [of 1 ?m 2 0 0] unfolding l by (auto simp: v Let_def)
qed

text \<open>A word at the upper half of a double word loses its last digit, as does a whole double word.\<close>

lemma backend_response_wrong:
  "mem_response [''0123456789abcdef''] 0x80000004 2 0 = Inr 0x0123456"
  "mem_response [''0123456789abcdef''] 0x80000000 3 0 = Inr 0x0123456789abcde"
  by (simp_all add: mem_response_def c_div8_def c_mod8_def mem_at_def substr_def strtoull_def scan_number_def
      scan_sign_def scan_prefix_def digits_value_def digit_value_def is_space_def)

text \<open>
  A line that says \<open>True\<close> for \<open>wfi\<close> or \<open>mret\<close> is fed to the backend without them: \<open>compare\<close> gives 0 for
  equal strings, and the bench tests for 1.
\<close>

lemma true_is_ignored:
  assumes "\<And>x. cmp x x = 0" and "set_flags cmp ws p = Inr p'"
  shows "ws ! 26 = ''True'' \<Longrightarrow> b_wfi_i p' = 0" and "ws ! 27 = ''True'' \<Longrightarrow> b_mret_i p' = 0"
  using assms by (auto simp: set_flags_def column_at_def Let_def split: if_splits)

end
