(* ===== verification/Encodings.thy ===== *)
theory Encodings
  imports Params
begin

text \<open>
  The codes of \<open>sim/l1d/params.hpp\<close> (the same in \<open>sim/lsu_ut/params.hpp\<close>): privilege and access
  modes, exception causes, the functions of the arithmetic unit and of the branch comparator, and
  the store, fence and atomic operations; with them the remaining sizes of the file. An
  enumeration is a datatype with the source's names and a function that gives the code. What the
  widths promise is proved: every code fits the field that carries it and no two operations of
  a unit share one.
\<close>

section \<open>Sizes\<close>

definition IMM_LEN :: nat where "IMM_LEN = 32"
definition AXI_ID_WIDTH :: nat where "AXI_ID_WIDTH = 10"
definition DCACHE_WB_DATA_LEN :: nat where "DCACHE_WB_DATA_LEN = 32"
definition RESET_VECTOR :: u64 where "RESET_VECTOR = 0x80000000"

definition EXCEPTION_CAUSE_WIDTH :: nat where "EXCEPTION_CAUSE_WIDTH = 4"
definition VIR_REG_ADDR_WIDTH :: nat where "VIR_REG_ADDR_WIDTH = 5"
definition PC_WIDTH :: nat where "PC_WIDTH = VIRTUAL_ADDR_LEN"
definition CSR_ADDR_LEN :: nat where "CSR_ADDR_LEN = 12"

definition BUS_MAP_ADDR_LOW :: u64 where "BUS_MAP_ADDR_LOW = 0x30030000"
definition BUS_MAP_ADDR_UPP :: u64 where "BUS_MAP_ADDR_UPP = 0x3000FFFF"
definition WB_DATA_LEN :: nat where "WB_DATA_LEN = 32"

definition FAKE_MEM_ADDR_LEN :: nat where "FAKE_MEM_ADDR_LEN = 16"
definition FAKE_MEM_SIZE :: nat where "FAKE_MEM_SIZE = 8192"
definition FAKE_MEM_DEPTH :: nat where "FAKE_MEM_DEPTH = FAKE_MEM_ADDR_LEN - 3"
definition FAKE_CACHE_MSHR_DEPTH :: nat where "FAKE_CACHE_MSHR_DEPTH = 2"
definition FAKE_CACHE_MSHR_WIDTH :: nat where "FAKE_CACHE_MSHR_WIDTH = 1"
definition FAKE_CACHE_DELAY_WIDTH :: nat where "FAKE_CACHE_DELAY_WIDTH = 5"
definition FAKE_MEM_DELAY_BASE :: nat where "FAKE_MEM_DELAY_BASE = 3"

definition SATP_PPN_WIDTH :: nat where "SATP_PPN_WIDTH = 44"
definition SATP_ASID_WIDTH :: nat where "SATP_ASID_WIDTH = 16"
definition SATP_MODE_WIDTH :: nat where "SATP_MODE_WIDTH = 4"

definition FRLIST_DATA_WIDTH :: nat where "FRLIST_DATA_WIDTH = 6"
definition FRLIST_DEPTH :: nat where "FRLIST_DEPTH = 35"
definition FRLIST_DEPTH_WIDTH :: nat where "FRLIST_DEPTH_WIDTH = 6"
definition PHY_REG_SIZE :: nat where "PHY_REG_SIZE = 36"

definition UNITS_NUM :: nat where "UNITS_NUM = 5"
definition UNITS_NUM_WIDTH :: nat where "UNITS_NUM_WIDTH = 3"

lemmas bank_params =
  L1D_BANK_LINE_DATA_SIZE_def L1D_BANK_SET_NUM_def L1D_BANK_ID_NUM_def L1D_BIT_OFFSET_WIDTH_def
  L1D_TAG_WIDTH_def

lemmas addr_params =
  ADDR_OFFSET_LOW_def ADDR_OFFSET_UPP_def ADDR_INDEX_LOW_def ADDR_INDEX_UPP_def
  PHYSICAL_ADDR_TAG_LOW_def PHYSICAL_ADDR_TAG_UPP_def VIRTUAL_ADDR_TAG_LOW_def
  VIRTUAL_ADDR_TAG_UPP_def

lemmas core_params =
  SATP_PPN_WIDTH_def SATP_ASID_WIDTH_def SATP_MODE_WIDTH_def FRLIST_DATA_WIDTH_def
  FRLIST_DEPTH_def FRLIST_DEPTH_WIDTH_def PHY_REG_SIZE_def UNITS_NUM_def UNITS_NUM_WIDTH_def
  FAKE_MEM_ADDR_LEN_def FAKE_MEM_SIZE_def FAKE_MEM_DEPTH_def FAKE_CACHE_MSHR_DEPTH_def
  FAKE_CACHE_MSHR_WIDTH_def EXCEPTION_CAUSE_WIDTH_def

section \<open>Enumerations\<close>

datatype priv_mode = U_MODE | S_MODE | M_MODE

primrec mode_code :: "priv_mode \<Rightarrow> nat" where
  "mode_code U_MODE = 0"
| "mode_code S_MODE = 1"
| "mode_code M_MODE = 3"

datatype access_mode = ACCESS_MODE_READ | ACCESS_MODE_WRITE | ACCESS_MODE_EXECUTE

primrec access_code :: "access_mode \<Rightarrow> nat" where
  "access_code ACCESS_MODE_READ = 0"
| "access_code ACCESS_MODE_WRITE = 1"
| "access_code ACCESS_MODE_EXECUTE = 2"

datatype exception_cause =
    EXCEPTION_INSTR_ADDR_MISALIGNED | EXCEPTION_INSTR_ACCESS_FAULT
  | EXCEPTION_ILLEGAL_INSTRUCTION | EXCEPTION_BREAKPOINT
  | EXCEPTION_LOAD_ADDR_MISALIGNED | EXCEPTION_LOAD_ACCESS_FAULT
  | EXCEPTION_STORE_ADDR_MISALIGNED | EXCEPTION_STORE_ACCESS_FAULT
  | EXCEPTION_ENV_CALL_U | EXCEPTION_ENV_CALL_S | EXCEPTION_ENV_CALL_M
  | EXCEPTION_INSTR_PAGE_FAULT | EXCEPTION_LOAD_PAGE_FAULT | EXCEPTION_STORE_PAGE_FAULT

primrec exception_code :: "exception_cause \<Rightarrow> nat" where
  "exception_code EXCEPTION_INSTR_ADDR_MISALIGNED = 0x0"
| "exception_code EXCEPTION_INSTR_ACCESS_FAULT = 0x1"
| "exception_code EXCEPTION_ILLEGAL_INSTRUCTION = 0x2"
| "exception_code EXCEPTION_BREAKPOINT = 0x3"
| "exception_code EXCEPTION_LOAD_ADDR_MISALIGNED = 0x4"
| "exception_code EXCEPTION_LOAD_ACCESS_FAULT = 0x5"
| "exception_code EXCEPTION_STORE_ADDR_MISALIGNED = 0x6"
| "exception_code EXCEPTION_STORE_ACCESS_FAULT = 0x7"
| "exception_code EXCEPTION_ENV_CALL_U = 0x8"
| "exception_code EXCEPTION_ENV_CALL_S = 0x9"
| "exception_code EXCEPTION_ENV_CALL_M = 0xb"
| "exception_code EXCEPTION_INSTR_PAGE_FAULT = 0xc"
| "exception_code EXCEPTION_LOAD_PAGE_FAULT = 0xd"
| "exception_code EXCEPTION_STORE_PAGE_FAULT = 0xf"

datatype alu_function =
  ALU_ADD_SUB | ALU_SLL | ALU_SLT | ALU_SLTU | ALU_XOR | ALU_SRL_SRA | ALU_OR | ALU_AND_CLR

primrec alu_code :: "alu_function \<Rightarrow> nat" where
  "alu_code ALU_ADD_SUB = 0b000"
| "alu_code ALU_SLL = 0b001"
| "alu_code ALU_SLT = 0b010"
| "alu_code ALU_SLTU = 0b011"
| "alu_code ALU_XOR = 0b100"
| "alu_code ALU_SRL_SRA = 0b101"
| "alu_code ALU_OR = 0b110"
| "alu_code ALU_AND_CLR = 0b111"

datatype alu_sel = ALU_SEL_REG | ALU_SEL_IMM | ALU_SEL_PC | ALU_SEL_CSR

primrec alu_sel_code :: "alu_sel \<Rightarrow> nat" where
  "alu_sel_code ALU_SEL_REG = 0b00"
| "alu_sel_code ALU_SEL_IMM = 0b01"
| "alu_sel_code ALU_SEL_PC = 0b10"
| "alu_sel_code ALU_SEL_CSR = 0b11"

datatype cmp_function = CMP_EQ | CMP_NE | CMP_LT | CMP_GE | CMP_LTU | CMP_GEU

primrec cmp_code :: "cmp_function \<Rightarrow> nat" where
  "cmp_code CMP_EQ = 0b000"
| "cmp_code CMP_NE = 0b001"
| "cmp_code CMP_LT = 0b110"
| "cmp_code CMP_GE = 0b111"
| "cmp_code CMP_LTU = 0b100"
| "cmp_code CMP_GEU = 0b101"

datatype write_sel = WRITE_SEL_ALU | WRITE_SEL_CSR | WRITE_SEL_LOAD | WRITE_SEL_NEXT_PC

primrec write_sel_code :: "write_sel \<Rightarrow> nat" where
  "write_sel_code WRITE_SEL_ALU = 0b00"
| "write_sel_code WRITE_SEL_CSR = 0b01"
| "write_sel_code WRITE_SEL_LOAD = 0b10"
| "write_sel_code WRITE_SEL_NEXT_PC = 0b11"

datatype amo_function = AMOSWAP | AMOADD | AMOAND | AMOOR | AMOXOR | AMOMAX | AMOMAXU | AMOMIN | AMOMINU

datatype amo_width = AMO_W | AMO_D

datatype fence_op = STU_FENCE | STU_SFENCE_VMA | STU_FENCE_I

primrec stu_fence_code :: "fence_op \<Rightarrow> nat" where
  "stu_fence_code STU_FENCE = 4"
| "stu_fence_code STU_SFENCE_VMA = 5"
| "stu_fence_code STU_FENCE_I = 6"

text \<open>The fences have other codes in the decoder.\<close>

primrec dec_fence_code :: "fence_op \<Rightarrow> nat" where
  "dec_fence_code STU_FENCE = 0"
| "dec_fence_code STU_FENCE_I = 1"
| "dec_fence_code STU_SFENCE_VMA = 2"

datatype reserve_op = STU_SCW | STU_SCD | STU_LRW | STU_LRD

primrec reserve_code :: "reserve_op \<Rightarrow> nat" where
  "reserve_code STU_SCW = 7"
| "reserve_code STU_SCD = 8"
| "reserve_code STU_LRW = 9"
| "reserve_code STU_LRD = 10"

fun amo_code :: "amo_function \<Rightarrow> amo_width \<Rightarrow> nat" where
  "amo_code AMOSWAP AMO_W = 11"
| "amo_code AMOSWAP AMO_D = 12"
| "amo_code AMOADD AMO_W = 13"
| "amo_code AMOADD AMO_D = 14"
| "amo_code AMOAND AMO_W = 15"
| "amo_code AMOAND AMO_D = 16"
| "amo_code AMOOR AMO_W = 17"
| "amo_code AMOOR AMO_D = 18"
| "amo_code AMOXOR AMO_W = 19"
| "amo_code AMOXOR AMO_D = 20"
| "amo_code AMOMAX AMO_W = 21"
| "amo_code AMOMAX AMO_D = 22"
| "amo_code AMOMAXU AMO_W = 23"
| "amo_code AMOMAXU AMO_D = 24"
| "amo_code AMOMIN AMO_W = 25"
| "amo_code AMOMIN AMO_D = 26"
| "amo_code AMOMINU AMO_W = 27"
| "amo_code AMOMINU AMO_D = 28"

datatype store_op = STORE_B | STORE_H | STORE_W | STORE_D

primrec store_code :: "store_op \<Rightarrow> nat" where
  "store_code STORE_B = unat STU_SB"
| "store_code STORE_H = unat STU_SH"
| "store_code STORE_W = unat STU_SW"
| "store_code STORE_D = unat STU_SD"

datatype stu_op = Store store_op | Fence fence_op | Reserve reserve_op | Amo amo_function amo_width

primrec stu_code :: "stu_op \<Rightarrow> nat" where
  "stu_code (Store s) = store_code s"
| "stu_code (Fence f) = stu_fence_code f"
| "stu_code (Reserve r) = reserve_code r"
| "stu_code (Amo f w) = amo_code f w"

section \<open>What a table of codes promises\<close>

text \<open>
  A table lists the operations of a unit; its codes are distinct and fit a field of \<open>width\<close>
  bits. The field can then be decoded: looking a code up in the table undoes encoding, also after
  the code has been stored in the field.
\<close>

definition decode :: "('a \<Rightarrow> nat) \<Rightarrow> 'a list \<Rightarrow> nat \<Rightarrow> 'a option" where
  "decode code ops n = find (\<lambda>x. code x = n) ops"

locale code_table =
  fixes code :: "'a \<Rightarrow> nat" and ops :: "'a list" and width :: nat
  assumes ops_all: "x \<in> set ops"
    and codes_distinct: "distinct (map code ops)"
    and codes_fit: "\<forall>n \<in> set (map code ops). n < 2 ^ width"
begin

lemma code_inj: "code x = code y \<longleftrightarrow> x = y"
  using codes_distinct ops_all unfolding distinct_map inj_on_def by blast

lemma code_fits: "code x < 2 ^ width"
  using codes_fit ops_all by simp

lemma decode_iff: "decode code ops n = Some x \<longleftrightarrow> code x = n"
proof
  show "code x = n" if "decode code ops n = Some x"
    using that by (auto simp: decode_def find_Some_iff)
next
  assume x: "code x = n"
  show "decode code ops n = Some x"
  proof (cases "find (\<lambda>y. code y = n) ops")
    case None
    then show ?thesis using x ops_all by (auto simp: find_None_iff)
  next
    case (Some y)
    then show ?thesis using x code_inj by (auto simp: decode_def find_Some_iff)
  qed
qed

lemma field_roundtrip: "decode code ops (take_bit width (code x)) = Some x"
  using code_fits by (simp add: decode_iff take_bit_nat_eq_self)

lemma undefined_iff: "decode code ops n = None \<longleftrightarrow> n \<notin> set (map code ops)"
  by (auto simp: decode_def find_None_iff)

end

section \<open>The tables\<close>

definition mode_ops :: "priv_mode list" where
  "mode_ops = [U_MODE, S_MODE, M_MODE]"

definition exception_ops :: "exception_cause list" where
  "exception_ops =
    [EXCEPTION_INSTR_ADDR_MISALIGNED, EXCEPTION_INSTR_ACCESS_FAULT,
     EXCEPTION_ILLEGAL_INSTRUCTION, EXCEPTION_BREAKPOINT,
     EXCEPTION_LOAD_ADDR_MISALIGNED, EXCEPTION_LOAD_ACCESS_FAULT,
     EXCEPTION_STORE_ADDR_MISALIGNED, EXCEPTION_STORE_ACCESS_FAULT,
     EXCEPTION_ENV_CALL_U, EXCEPTION_ENV_CALL_S, EXCEPTION_ENV_CALL_M,
     EXCEPTION_INSTR_PAGE_FAULT, EXCEPTION_LOAD_PAGE_FAULT, EXCEPTION_STORE_PAGE_FAULT]"

definition alu_ops :: "alu_function list" where
  "alu_ops = [ALU_ADD_SUB, ALU_SLL, ALU_SLT, ALU_SLTU, ALU_XOR, ALU_SRL_SRA, ALU_OR, ALU_AND_CLR]"

definition cmp_ops :: "cmp_function list" where
  "cmp_ops = [CMP_EQ, CMP_NE, CMP_LT, CMP_GE, CMP_LTU, CMP_GEU]"

definition stu_ops_all :: "stu_op list" where
  "stu_ops_all =
    map Store [STORE_B, STORE_H, STORE_W, STORE_D] @
    map Fence [STU_FENCE, STU_SFENCE_VMA, STU_FENCE_I] @
    map Reserve [STU_SCW, STU_SCD, STU_LRW, STU_LRD] @
    concat (map (\<lambda>f. [Amo f AMO_W, Amo f AMO_D])
      [AMOSWAP, AMOADD, AMOAND, AMOOR, AMOXOR, AMOMAX, AMOMAXU, AMOMIN, AMOMINU])"

lemma mode_ops_all: "x \<in> set mode_ops"
  by (cases x) (simp_all add: mode_ops_def)

lemma exception_ops_all: "x \<in> set exception_ops"
  by (cases x) (simp_all add: exception_ops_def)

lemma alu_ops_all: "x \<in> set alu_ops"
  by (cases x) (simp_all add: alu_ops_def)

lemma cmp_ops_all: "x \<in> set cmp_ops"
  by (cases x) (simp_all add: cmp_ops_def)

lemma stu_ops_all: "x \<in> set stu_ops_all"
proof (cases x)
  case (Store s)
  then show ?thesis by (cases s) (simp_all add: stu_ops_all_def)
next
  case (Fence f)
  then show ?thesis by (cases f) (simp_all add: stu_ops_all_def)
next
  case (Reserve r)
  then show ?thesis by (cases r) (simp_all add: stu_ops_all_def)
next
  case (Amo f w)
  then show ?thesis by (cases f; cases w) (simp_all add: stu_ops_all_def)
qed

text \<open>The store unit's codes are the numbers below 29, in the order of the source.\<close>

lemma stu_codes: "map stu_code stu_ops_all = [0..<29]"
  by (simp add: stu_ops_all_def stu_ops upt_rec)

interpretation mode_table: code_table mode_code mode_ops 2
  by unfold_locales (simp_all add: mode_ops_all, simp_all add: mode_ops_def)

interpretation exception_table: code_table exception_code exception_ops EXCEPTION_CAUSE_WIDTH
  by unfold_locales
    (simp_all add: exception_ops_all, simp_all add: exception_ops_def EXCEPTION_CAUSE_WIDTH_def)

interpretation alu_table: code_table alu_code alu_ops 3
  by unfold_locales (simp_all add: alu_ops_all, simp_all add: alu_ops_def)

interpretation cmp_table: code_table cmp_code cmp_ops 3
  by unfold_locales (simp_all add: cmp_ops_all, simp_all add: cmp_ops_def)

interpretation stu_table: code_table stu_code stu_ops_all STU_OP_WIDTH
  by unfold_locales (use stu_ops_all in \<open>simp_all only: stu_codes\<close>, simp_all add: STU_OP_WIDTH_def)

text \<open>
  The sizes that one part of the file derives and another writes out agree: the set index and the
  line offset address the sets of all banks and the bytes of a line, together they span the page
  offset, the three parts of \<open>satp\<close> fill a register, and the free list holds every physical
  register but the first. The two address ranges are empty, their upper end lies below the lower.
\<close>

lemma sizes_agree:
  "2 ^ L1D_INDEX_WIDTH = L1D_BANK_SET_NUM * L1D_BANK_ID_NUM"
  "2 ^ L1D_OFFSET_WIDTH * 8 = L1D_BANK_LINE_DATA_SIZE"
  "2 ^ L1D_BIT_OFFSET_WIDTH = L1D_BANK_LINE_DATA_SIZE"
  "L1D_TAG_WIDTH = PHYSICAL_ADDR_TAG_LEN"
  "ADDR_INDEX_UPP = 12"
  "PHYSICAL_ADDR_TAG_UPP - PHYSICAL_ADDR_TAG_LOW = PHYSICAL_ADDR_TAG_LEN"
  "VIRTUAL_ADDR_TAG_UPP - VIRTUAL_ADDR_TAG_LOW = VIRTUAL_ADDR_TAG_LEN"
  "SATP_MODE_WIDTH + SATP_ASID_WIDTH + SATP_PPN_WIDTH = XLEN"
  "FRLIST_DEPTH = PHY_REG_SIZE - 1" "PHY_REG_SIZE \<le> 2 ^ PHY_REG_ADDR_WIDTH"
  "FRLIST_DEPTH < 2 ^ FRLIST_DEPTH_WIDTH" "FRLIST_DATA_WIDTH = PHY_REG_ADDR_WIDTH"
  "UNITS_NUM \<le> 2 ^ UNITS_NUM_WIDTH" "FAKE_MEM_SIZE = 2 ^ FAKE_MEM_DEPTH"
  "FAKE_CACHE_MSHR_DEPTH = 2 ^ FAKE_CACHE_MSHR_WIDTH"
  by (simp_all add: bank_params addr_params core_params width_params)

lemma ranges_empty:
  "\<not> (IO_ADDR_LOW \<le> a \<and> a \<le> IO_ADDR_UPP)"
  "\<not> (BUS_MAP_ADDR_LOW \<le> a \<and> a \<le> BUS_MAP_ADDR_UPP)"
  unfolding IO_ADDR_LOW_def IO_ADDR_UPP_def BUS_MAP_ADDR_LOW_def BUS_MAP_ADDR_UPP_def
    word_le_nat_alt by simp_all

section \<open>The opcode in a queue entry\<close>

text \<open>
  The store unit's operations have \<open>STU_OP_WIDTH\<close> bits, but the queue entry gives the opcode field
  only the bits \<open>[2, 6)\<close>. From a field of the declared width every operation is read back as it was put
  in. From the field as laid out that is so exactly for the codes below 16; any other operation comes
  back as the one sixteen codes before it, the double-word \<open>AMOAND\<close> as a byte store.
\<close>

definition lsq_opcode_bits :: nat where
  "lsq_opcode_bits = (let f = l1d_lsq_layout ! 2 in f_upp f - f_low f)"

lemma lsq_opcode_bits [simp]: "lsq_opcode_bits = 4"
  by (simp add: lsq_opcode_bits_def l1d_lsq_layout_def lsq_layout_def width_params Let_def)

lemma stu_code_less: "stu_code x < 29"
  using stu_ops_all [of x] stu_codes by (metis atLeastLessThan_iff image_eqI list.set_map set_upt)

lemma opcode_declared_width:
  "decode stu_code stu_ops_all (take_bit STU_OP_WIDTH (stu_code x)) = Some x"
  by (rule stu_table.field_roundtrip)

lemma opcode_field_reads_back:
  "decode stu_code stu_ops_all (take_bit lsq_opcode_bits (stu_code x)) = Some x \<longleftrightarrow> stu_code x < 16"
  using take_bit_nat_eq_self_iff [of 4 "stu_code x"] by (auto simp: stu_table.decode_iff)

lemma opcode_field_confuses:
  assumes "16 \<le> stu_code x" and "decode stu_code stu_ops_all (take_bit lsq_opcode_bits (stu_code x)) = Some y"
  shows "stu_code y = stu_code x - 16"
  using assms stu_code_less [of x]
  by (simp add: stu_table.decode_iff take_bit_eq_mod le_mod_geq)

lemma opcode_field_confuses_example:
  "decode stu_code stu_ops_all (take_bit lsq_opcode_bits (stu_code (Amo AMOAND AMO_D))) = Some (Store STORE_B)"
  by (simp add: stu_table.decode_iff stu_ops take_bit_eq_mod)

end
