(* ===== verification/Directed.thy ===== *)
theory Directed
  imports Prelude
begin

text \<open>
  The shape shared by the directed self-check benches under \<open>sim/selfcheck\<close>, \<open>src/fu/selftest\<close> and
  \<open>src/fetch/selfcheck\<close>: in every round of its main loop a bench assigns input pins according to the
  time, asserts something of the outputs, evaluates the unit and prints. The schedule does not
  depend on the unit, so what a synchronous unit sees is fixed: the pins at the rising edges of the
  clock. Pins are integers: the values the benches assign fit the fields of the generated class, and where an
  assignment truncates this is written out. The interface \<open>schedule\<close> gives these pins in closed form from the list of the bench's
  assignments; the theories of the benches interpret it.
\<close>

section \<open>Running a bench\<close>

text \<open>
  \<open>n\<close> rounds from time \<open>t\<close> on. The output ports are variables of the generated class: \<open>ou\<close> is what they
  hold, and an evaluation sets them. \<open>check t ou\<close> is the conjunction of the assertions of round \<open>t\<close>;
  \<open>say t\<close> is what the round prints, from the pins and outputs before it and after it. A failed
  assertion aborts the program.
\<close>

fun directed_run ::
    "(nat \<Rightarrow> 'p \<Rightarrow> 'p) \<Rightarrow> (nat \<Rightarrow> 'o \<Rightarrow> bool) \<Rightarrow> (nat \<Rightarrow> 'p \<times> 'o \<Rightarrow> 'p \<times> 'o \<Rightarrow> string list) \<Rightarrow>
     ('p \<Rightarrow> 'd \<Rightarrow> 'd) \<Rightarrow> ('d \<Rightarrow> 'o) \<Rightarrow> nat \<Rightarrow> nat \<Rightarrow> 'p \<Rightarrow> 'o \<Rightarrow> 'd \<Rightarrow> (string list \<times> 'p \<times> 'o \<times> 'd) res" where
  "directed_run drive check say dut outp 0 t p ou d = Inr ([], p, ou, d)"
| "directed_run drive check say dut outp (Suc n) t p ou d =
     (if check t ou then
        let p' = drive t p; d' = dut p' d; ou' = outp d' in
        res_map (\<lambda>(ms, r). (say t (p, ou) (p', ou') @ ms, r))
          (directed_run drive check say dut outp n (Suc t) p' ou' d')
      else Inl (Throw ''assertion failed''))"

text \<open>The assignments of a round: those of the list \<open>events\<close> that are guarded by the time \<open>t\<close>, in order.\<close>

fun apply_events :: "(nat \<times> ('p \<Rightarrow> 'p)) list \<Rightarrow> nat \<Rightarrow> 'p \<Rightarrow> 'p" where
  "apply_events [] t p = p"
| "apply_events ((tm, f) # es) t p = apply_events es t (if t = tm then f p else p)"

section \<open>What the unit sees\<close>

text \<open>The pins after the first \<open>t\<close> rounds, and the pins of the rounds among them in which the clock rises.\<close>

fun pins_at :: "(nat \<Rightarrow> 'p \<Rightarrow> 'p) \<Rightarrow> 'p \<Rightarrow> nat \<Rightarrow> 'p" where
  "pins_at drive p 0 = p"
| "pins_at drive p (Suc t) = drive t (pins_at drive p t)"

fun edges_at :: "(nat \<Rightarrow> 'p \<Rightarrow> 'p) \<Rightarrow> ('p \<Rightarrow> bool) \<Rightarrow> 'p \<Rightarrow> nat \<Rightarrow> 'p list" where
  "edges_at drive clk p 0 = []"
| "edges_at drive clk p (Suc t) =
     edges_at drive clk p t @
     (if clk (pins_at drive p (Suc t)) \<and> \<not> clk (pins_at drive p t) then [pins_at drive p (Suc t)] else [])"

text \<open>
  A synchronous unit with combinational outputs: it keeps the last values on its pins, changes its
  registers on a rising edge only, and its outputs are a function of both.
\<close>

definition sync_unit :: "('p \<Rightarrow> bool) \<Rightarrow> ('p \<Rightarrow> 's \<Rightarrow> 's) \<Rightarrow> 'p \<Rightarrow> 'p \<times> 's \<Rightarrow> 'p \<times> 's" where
  "sync_unit clk step p = (\<lambda>(q, s). (p, if clk p \<and> \<not> clk q then step p s else s))"

text \<open>What the output ports of such a unit hold after \<open>t\<close> rounds, \<open>o0\<close> before the first.\<close>

definition seen_at ::
    "(nat \<Rightarrow> 'p \<Rightarrow> 'p) \<Rightarrow> ('p \<Rightarrow> bool) \<Rightarrow> ('p \<Rightarrow> 's \<Rightarrow> 's) \<Rightarrow> ('p \<Rightarrow> 's \<Rightarrow> 'o) \<Rightarrow> 'p \<Rightarrow> 'o \<Rightarrow> 's \<Rightarrow> nat \<Rightarrow> 'o" where
  "seen_at drive clk step out p0 o0 s t =
     (if t = 0 then o0 else out (pins_at drive p0 t) (fold step (edges_at drive clk p0 t) s))"

section \<open>Lemmas\<close>

text \<open>
  A bench on a synchronous unit in closed form: it ends exactly when every assertion accepts what the
  ports hold at its time, and it prints the messages of the rounds in order.
\<close>

lemma directed_run_from:
  fixes drive :: "nat \<Rightarrow> 'p \<Rightarrow> 'p" and out :: "'p \<Rightarrow> 's \<Rightarrow> 'o" and p0 :: 'p and o0 :: 'o and s :: 's
    and step :: "'p \<Rightarrow> 's \<Rightarrow> 's" and clk :: "'p \<Rightarrow> bool"
  defines "pin \<equiv> pins_at drive p0"
    and "regs \<equiv> \<lambda>t. fold step (edges_at drive clk p0 t) s"
    and "seen \<equiv> seen_at drive clk step out p0 o0 s"
  shows "directed_run drive check say (sync_unit clk step) (\<lambda>(q, s). out q s) n t (pin t) (seen t) (pin t, regs t) =
    (if \<forall>i\<in>{t..<t + n}. check i (seen i)
     then Inr (concat (map (\<lambda>i. say i (pin i, seen i) (pin (Suc i), seen (Suc i))) [t..<t + n]),
               pin (t + n), seen (t + n), (pin (t + n), regs (t + n)))
     else Inl (Throw ''assertion failed''))"
proof (induction n arbitrary: t)
  case (Suc n)
  have pin: "drive t (pin t) = pin (Suc t)"
    by (simp add: pin_def)
  have step: "sync_unit clk step (pin (Suc t)) (pin t, regs t) = (pin (Suc t), regs (Suc t))"
    by (simp add: sync_unit_def pin_def regs_def)
  have out: "out (pin (Suc t)) (regs (Suc t)) = seen (Suc t)"
    by (simp add: seen_def seen_at_def pin_def regs_def)
  have end_eq: "t + Suc n = Suc t + n"
    by simp
  have range: "{t..<Suc t + n} = insert t {Suc t..<Suc t + n}" "[t..<Suc t + n] = t # [Suc t..<Suc t + n]"
    by (auto simp: upt_conv_Cons)
  show ?case
  proof (cases "check t (seen t)")
    case True
    then show ?thesis
      by (simp only: directed_run.simps Let_def pin step prod.case out Suc [of "Suc t"] range
            if_True ball_simps simp_thms end_eq) (simp del: upt_Suc)
  next
    case False
    then show ?thesis by auto
  qed
qed simp

lemma directed_run_closed:
  "directed_run drive check say (sync_unit clk step) (\<lambda>(q, s). out q s) n 0 p0 o0 (p0, s) =
    (if \<forall>i<n. check i (seen_at drive clk step out p0 o0 s i)
     then Inr (concat (map (\<lambda>i. say i (pins_at drive p0 i, seen_at drive clk step out p0 o0 s i)
                                     (pins_at drive p0 (Suc i), seen_at drive clk step out p0 o0 s (Suc i))) [0..<n]),
               pins_at drive p0 n, seen_at drive clk step out p0 o0 s n,
               (pins_at drive p0 n, fold step (edges_at drive clk p0 n) s))
     else Inl (Throw ''assertion failed''))"
proof -
  have "seen_at drive clk step out p0 o0 s 0 = o0"
    by (simp add: seen_at_def)
  then show ?thesis
    using directed_run_from [of drive check say clk step out n 0 p0 o0 s]
    by (simp add: Ball_def del: pins_at.simps(2) edges_at.simps(2))
qed

lemma directed_run_ends_iff:
  "(\<exists>r. directed_run drive check say (sync_unit clk step) (\<lambda>(q, s). out q s) n 0 p0 o0 (p0, s) = Inr r) \<longleftrightarrow>
   (\<forall>i<n. check i (seen_at drive clk step out p0 o0 s i))"
  unfolding directed_run_closed by simp

lemma edges_at_filter:
  "edges_at drive clk p t =
     map (\<lambda>i. pins_at drive p (Suc i))
       (filter (\<lambda>i. clk (pins_at drive p (Suc i)) \<and> \<not> clk (pins_at drive p i)) [0..<t])"
  by (induction t) simp_all

lemma apply_events_fold:
  "apply_events es t p = fold snd (filter (\<lambda>e. fst e = t) es) p"
  by (induction es t p rule: apply_events.induct) auto

lemma filter_sort_key_le_Suc:
  fixes es :: "(nat \<times> 'a) list"
  shows "filter (\<lambda>e. fst e \<le> Suc t) (sort_key fst es) =
     filter (\<lambda>e. fst e \<le> t) (sort_key fst es) @ filter (\<lambda>e. fst e = Suc t) es"
proof -
  have "filter (\<lambda>e. fst e \<le> Suc t) xs = filter (\<lambda>e. fst e \<le> t) xs @ filter (\<lambda>e. fst e = Suc t) xs"
    if "sorted (map fst xs)" for xs :: "(nat \<times> 'a) list"
    using that
  proof (induction xs)
    case (Cons e xs)
    then have "fst e = Suc t \<Longrightarrow> filter (\<lambda>e. fst e \<le> t) xs = []"
      by (fastforce simp: filter_empty_conv)
    with Cons show ?case by (auto simp: le_Suc_eq)
  qed simp
  from this [of "sort_key fst es"] show ?thesis
    by (simp add: sort_key_stable)
qed

section \<open>The interface of a schedule\<close>

text \<open>
  A bench drives its clock and reset pins in \<open>tick\<close> and all other pins in \<open>events\<close>. \<open>ctl\<close> are the values
  of the clock and of the reset, \<open>core\<close> the other pins, \<open>join\<close> puts them together; \<open>level t\<close> is what the
  clock and the reset are after round \<open>t\<close>.
\<close>

locale schedule =
  fixes tick :: "nat \<Rightarrow> 'p \<Rightarrow> 'p"
    and events :: "(nat \<times> ('p \<Rightarrow> 'p)) list"
    and p0 :: 'p
    and ctl :: "'p \<Rightarrow> int \<times> int"
    and core :: "'p \<Rightarrow> 'p"
    and join :: "int \<times> int \<Rightarrow> 'p \<Rightarrow> 'p"
    and level :: "nat \<Rightarrow> int \<times> int"
  assumes join_ctl: "join (ctl p) (core p) = p"
    and core_tick: "core (tick t p) = core p"
    and core_event: "e \<in> set events \<Longrightarrow> core (snd e p) = core (snd e (core p))"
    and ctl_0: "ctl (tick 0 p0) = level 0"
    and ctl_Suc: "ctl p = level t \<Longrightarrow> ctl (tick (Suc t) p) = level (Suc t)"
    and ctl_event: "e \<in> set events \<Longrightarrow> ctl p = level (fst e) \<Longrightarrow> ctl (snd e p) = level (fst e)"
    and low: "fst (ctl p0) = 0"
begin

text \<open>The pins of a round are those of the assignments so far, in the order of their times.\<close>

lemma core_fold:
  assumes "set es \<subseteq> set events" "core p = core q"
  shows "core (fold snd es p) = core (fold snd es q)"
  using assms
proof (induction es arbitrary: p q)
  case (Cons e es)
  then have "core (snd e p) = core (snd e q)"
    using core_event [of e p] core_event [of e q] by simp
  from Cons.IH [OF _ this] Cons.prems(1) show ?case
    by simp
qed simp

lemma ctl_fold:
  assumes "set es \<subseteq> set events" "\<forall>e\<in>set es. fst e = t" "ctl p = level t"
  shows "ctl (fold snd es p) = level t"
  using assms
proof (induction es arbitrary: p)
  case (Cons e es)
  then have "ctl (snd e p) = level t"
    using ctl_event [of e p] by simp
  with Cons show ?case by simp
qed simp

lemma pins_Suc:
  "pins_at (\<lambda>t p. apply_events events t (tick t p)) p0 (Suc t) = fold snd (filter (\<lambda>e. fst e = t) events) (tick t (pins_at (\<lambda>t p. apply_events events t (tick t p)) p0 t))"
  by (simp only: pins_at.simps apply_events_fold)

lemma ctl_pins: "ctl (pins_at (\<lambda>t p. apply_events events t (tick t p)) p0 (Suc t)) = level t"
proof (induction t)
  case 0
  show ?case
    unfolding pins_Suc pins_at.simps(1) by (rule ctl_fold) (use ctl_0 in auto)
next
  case (Suc t)
  show ?case
    unfolding pins_Suc [of "Suc t"] by (rule ctl_fold) (use ctl_Suc [OF Suc] in auto)
qed

lemma rest_pins:
  "core (pins_at (\<lambda>t p. apply_events events t (tick t p)) p0 (Suc t)) = core (fold snd (filter (\<lambda>e. fst e \<le> t) (sort_key fst events)) p0)"
proof (induction t)
  case 0
  have first: "filter (\<lambda>e. fst e \<le> 0) (sort_key fst events) = filter (\<lambda>e. fst e = 0) events"
    using sort_key_stable [of fst 0 events] by simp
  show ?case
    unfolding pins_Suc pins_at.simps(1) first by (rule core_fold) (auto simp: core_tick)
next
  case (Suc t)
  show ?case
    unfolding pins_Suc [of "Suc t"] filter_sort_key_le_Suc fold_append comp_apply
    by (rule core_fold) (use Suc core_tick in auto)
qed

lemma pins:
  "pins_at (\<lambda>t p. apply_events events t (tick t p)) p0 (Suc t) =
   join (level t) (core (fold snd (filter (\<lambda>e. fst e \<le> t) (sort_key fst events)) p0))"
  using join_ctl [of "pins_at (\<lambda>t p. apply_events events t (tick t p)) p0 (Suc t)"]
  by (simp only: ctl_pins rest_pins)

text \<open>The unit samples the pins in the rounds in which the level of the clock rises.\<close>

lemma edges:
  "edges_at (\<lambda>t p. apply_events events t (tick t p)) (\<lambda>p. fst (ctl p) \<noteq> 0) p0 n =
   map (\<lambda>t. pins_at (\<lambda>t p. apply_events events t (tick t p)) p0 (Suc t))
     (filter (\<lambda>t. fst (level t) \<noteq> 0 \<and> (t = 0 \<or> fst (level (t - 1)) = 0)) [0..<n])"
proof -
  have "(fst (ctl (pins_at (\<lambda>t p. apply_events events t (tick t p)) p0 t)) = 0) \<longleftrightarrow> t = 0 \<or> fst (level (t - 1)) = 0" for t
  proof (cases t)
    case 0
    with low show ?thesis by simp
  next
    case (Suc u)
    then show ?thesis by (simp only: ctl_pins) simp
  qed
  then show ?thesis
    unfolding edges_at_filter by (simp only: ctl_pins not_not)
qed

end

section \<open>The clocks of the benches\<close>

text \<open>
  Two clocks occur. The slow one rises in the rounds \<open>1, 11, 21, \<dots>\<close> and falls in the rounds
  \<open>6, 16, 26, \<dots>\<close>, with a reset that is released in round 11; the fast one is high in the odd rounds.
\<close>

definition slow_level :: "nat \<Rightarrow> int" where
  "slow_level t = (if t mod 10 \<in> {1, 2, 3, 4, 5} then 1 else 0)"

definition fast_level :: "nat \<Rightarrow> int" where
  "fast_level t = (if t mod 2 = 1 then 1 else 0)"

lemma mod_10_cases: "(t::nat) mod 10 \<in> {0, 1, 2, 3, 4, 5, 6, 7, 8, 9}"
  unfolding insert_iff empty_iff by presburger

lemma slow_level_Suc:
  "slow_level (Suc t) = (if Suc t mod 10 = 6 then 0 else if Suc t mod 10 = 1 then 1 else slow_level t)"
proof -
  have "t mod 10 \<in> {0, 1, 2, 3, 4, 5, 6, 7, 8, 9}"
    by (rule mod_10_cases)
  then show ?thesis
    by (auto simp: slow_level_def mod_Suc)
qed

lemma slow_level_edge: "(slow_level t \<noteq> 0 \<and> (t = 0 \<or> slow_level (t - 1) = 0)) \<longleftrightarrow> t mod 10 = 1"
proof (cases t)
  case (Suc u)
  have "u mod 10 \<in> {0, 1, 2, 3, 4, 5, 6, 7, 8, 9}"
    by (rule mod_10_cases)
  with Suc show ?thesis
    by (auto simp: slow_level_def mod_Suc)
qed (simp add: slow_level_def)

text \<open>The slow clock with its reset.\<close>

definition slow_ctl :: "nat \<Rightarrow> int \<times> int" where
  "slow_ctl t = (slow_level t, if 10 < t then 1 else 0)"

lemma slow_ctl_simps:
  "slow_ctl 0 = (0, 0)"
  "slow_ctl (Suc t) =
     (if Suc t mod 10 = 6 then 0 else if Suc t mod 10 = 1 then 1 else fst (slow_ctl t),
      if 10 < Suc t then 1 else snd (slow_ctl t))"
  by (auto simp: slow_ctl_def slow_level_Suc) (simp add: slow_level_def)

lemma slow_ctl_edge: "(fst (slow_ctl t) \<noteq> 0 \<and> (t = 0 \<or> fst (slow_ctl (t - 1)) = 0)) \<longleftrightarrow> t mod 10 = 1"
  using slow_level_edge by (simp add: slow_ctl_def)

lemma fast_level_edge: "(fast_level t \<noteq> 0 \<and> (t = 0 \<or> fast_level (t - 1) = 0)) \<longleftrightarrow> odd t"
  by (cases t) (auto simp: fast_level_def odd_iff_mod_2_eq_one mod_Suc)

text \<open>The edges of \<open>n\<close> periods of the slow clock.\<close>

lemma slow_edges: "filter (\<lambda>t. t mod 10 = 1) [0..<10 * n] = map (\<lambda>k. 10 * k + 1) [0..<n]"
proof (induction n)
  case (Suc n)
  have "10 * Suc n = Suc (Suc (Suc (Suc (Suc (Suc (Suc (Suc (Suc (Suc (10 * n))))))))))"
    by simp
  then show ?case
    by (simp only: upt_Suc filter_append) (use Suc in \<open>simp add: mod_Suc\<close>)
qed simp

lemma upt_15: "[0..<15] = [0, 1, 2, 3, 4, 5, 6, 7, 8, 9, 10, 11, 12, 13, 14::nat]"
  by code_simp

lemma slow_edges_150:
  "filter (\<lambda>t. t mod 10 = 1) [0..<150] = [1, 11, 21, 31, 41, 51, 61, 71, 81, 91, 101, 111, 121, 131, 141::nat]"
  using slow_edges [of 15] by (simp add: upt_15)

lemma filter_swap: "filter P (filter Q xs) = filter Q (filter P xs)"
  by (induction xs) auto

lemma slow_edges_before:
  assumes "n \<le> 150"
  shows "filter (\<lambda>t. t mod 10 = 1) [0..<n] =
    filter (\<lambda>t. t < n) [1, 11, 21, 31, 41, 51, 61, 71, 81, 91, 101, 111, 121, 131, 141::nat]"
proof -
  have "[0..<150] = [0..<n] @ [n..<150]"
    using assms upt_add_eq_append [of 0 n "150 - n"] by simp
  then have "filter (\<lambda>t. t < n) [0..<150] = [0..<n]"
    by (simp add: filter_empty_conv)
  from arg_cong [OF this, of "filter (\<lambda>t. t mod 10 = 1)"] show ?thesis
    by (simp only: filter_swap [of "\<lambda>t. t mod 10 = 1"] slow_edges_150)
qed

section \<open>Benches without assertions\<close>

text \<open>They end on every unit, synchronous or not.\<close>

lemma directed_run_total: "\<exists>ms r. directed_run drive (\<lambda>t ou. True) say dut outp n t p ou d = Inr (ms, r)"
proof (induction n arbitrary: t p ou d)
  case (Suc n)
  show ?case
    using Suc [of "Suc t" "drive t p" "outp (dut (drive t p) d)" "dut (drive t p) d"] by (auto simp: Let_def)
qed simp

lemma directed_run_silent:
  "directed_run drive (\<lambda>t ou. True) (\<lambda>t b a. []) dut outp n t p ou d = Inr (ms, r) \<Longrightarrow> ms = []"
  by (induction n arbitrary: t p ou d ms r) (auto simp: Let_def)

section \<open>Evaluation\<close>

text \<open>For evaluation: the events of a bench are applied, not simplified.\<close>

lemma apply_events_weak_cong: "t = t' \<Longrightarrow> p = p' \<Longrightarrow> apply_events es t p = apply_events es t' p'"
  by simp

lemma apply_events_none: "t \<notin> set (map fst es) \<Longrightarrow> apply_events es t p = p"
  by (induction es t p rule: apply_events.induct) auto

section \<open>The interface of a bench with the fast clock\<close>

text \<open>
  The clock is low in the even rounds and high in the odd ones; \<open>edge k\<close> are the pins at its rising
  edge number \<open>k\<close>, in round \<open>2 k + 1\<close>.
\<close>

locale fast_bench =
  fixes drive :: "nat \<Rightarrow> 'p \<Rightarrow> 'p"
    and clk :: "'p \<Rightarrow> bool"
    and p0 :: 'p
    and edge :: "nat \<Rightarrow> 'p"
  assumes first: "drive 1 (drive 0 p0) = edge 0"
    and pair: "drive (Suc (2 * Suc k)) (drive (2 * Suc k) (edge k)) = edge (Suc k)"
    and high: "clk (edge k)"
    and low: "\<not> clk (drive (2 * k) p)"
begin

lemma pins_even: "pins_at drive p0 (2 * Suc k) = edge k"
proof (induction k)
  case 0
  show ?case using first by (simp add: numeral_2_eq_2)
next
  case (Suc k)
  then show ?case using pair [of k] by simp
qed

text \<open>The unit sees the edges in order, and its outputs after an edge are those for the edge's pins.\<close>

lemma edges: "edges_at drive clk p0 (2 * n) = map edge [0..<n]"
proof (induction n)
  case (Suc n)
  have "\<not> clk (pins_at drive p0 (Suc (2 * n)))"
    using low by simp
  with Suc high pins_even [of n] show ?case
    by (simp del: pins_at.simps)
qed simp

lemma seen: "seen_at drive clk step out p0 o0 s (2 * Suc k) = out (edge k) (fold step (map edge [0..<Suc k]) s)"
  unfolding seen_at_def edges pins_even by simp

end

end
