(* ===== verification/Mmu_Benches.thy ===== *)
theory Mmu_Benches
  imports Directed Text_Format
begin

unbundle bit_operations_syntax

text \<open>
  The directed benches of the two memory management units, \<open>sim/selfcheck/rvh_mmu.cpp\<close> and
  \<open>sim/selfcheck/rvh_monolithic_mmu.cpp\<close>: the pins they drive, \<open>init_module\<close>, the assignments of
  their main loops, and the assertions. Both interpret \<open>schedule\<close>; the lemmas say what the unit is
  asked at each rising edge of the clock, and when the runs end.
\<close>

section \<open>The MMU bench\<close>

record mmu_pins =
  mm_clk :: int
  mm_rstn :: int
  mm_priv_lvl_i :: int
  mm_pmp_cfg_set_vld_i :: int
  mm_pmp_cfg_set_addr_i :: int
  mm_pmp_cfg_set_payload_i :: int
  mm_pmp_addr_set_vld_i :: int
  mm_pmp_addr_set_addr_i :: int
  mm_pmp_addr_set_payload_i :: int
  mm_satp_mode_i :: int
  mm_satp_ppn_i :: int
  mm_dtlb_miss_req_vld_i :: int
  mm_dtlb_miss_req_trans_id_i :: int
  mm_dtlb_miss_req_asid_i :: int
  mm_dtlb_miss_req_vpn_i :: int
  mm_dtlb_miss_req_access_type_i :: int
  mm_itlb_miss_req_vld_i :: int
  mm_itlb_miss_req_trans_id_i :: int
  mm_itlb_miss_req_asid_i :: int
  mm_itlb_miss_req_vpn_i :: int
  mm_itlb_miss_req_access_type_i :: int
  mm_ptw_walk_req_rdy_i :: int
  mm_ptw_walk_resp_vld_i :: int
  mm_ptw_walk_resp_pte_i :: int
  mm_tlb_flush_vld_i :: int
  mm_tlb_flush_use_asid_i :: int
  mm_tlb_flush_use_vpn_i :: int
  mm_tlb_flush_vpn_i :: int
  mm_tlb_flush_asid_i :: int

record mmu_outs =
  mm_dtlb_miss_resp_vld_o :: int
  mm_dtlb_miss_resp_page_fault_o :: int

text \<open>\<open>init_module\<close> sets every pin but the clock and the reset.\<close>

definition mmu_init_module :: "mmu_pins \<Rightarrow> mmu_pins" where
  "mmu_init_module p = p\<lparr>mm_priv_lvl_i := 3, mm_pmp_cfg_set_vld_i := 0, mm_pmp_cfg_set_addr_i := 0,
      mm_pmp_cfg_set_payload_i := 0, mm_pmp_addr_set_vld_i := 0, mm_pmp_addr_set_addr_i := 0,
      mm_pmp_addr_set_payload_i := 0, mm_satp_mode_i := 8, mm_satp_ppn_i := 0x3fffff,
      mm_dtlb_miss_req_vld_i := 0, mm_dtlb_miss_req_trans_id_i := 0, mm_dtlb_miss_req_asid_i := 0,
      mm_dtlb_miss_req_vpn_i := 0, mm_dtlb_miss_req_access_type_i := 0, mm_itlb_miss_req_vld_i := 0,
      mm_itlb_miss_req_trans_id_i := 0, mm_itlb_miss_req_asid_i := 0, mm_itlb_miss_req_vpn_i := 0,
      mm_itlb_miss_req_access_type_i := 0, mm_ptw_walk_req_rdy_i := 0, mm_ptw_walk_resp_vld_i := 0,
      mm_ptw_walk_resp_pte_i := 0, mm_tlb_flush_vld_i := 0, mm_tlb_flush_use_asid_i := 0,
      mm_tlb_flush_use_vpn_i := 0, mm_tlb_flush_vpn_i := 0, mm_tlb_flush_asid_i := 0\<rparr>"

definition mmu_start :: mmu_pins where
  "mmu_start = mmu_init_module \<lparr>mm_clk = 0, mm_rstn = 0, mm_priv_lvl_i = 0, mm_pmp_cfg_set_vld_i = 0, mm_pmp_cfg_set_addr_i = 0,
      mm_pmp_cfg_set_payload_i = 0, mm_pmp_addr_set_vld_i = 0, mm_pmp_addr_set_addr_i = 0,
      mm_pmp_addr_set_payload_i = 0, mm_satp_mode_i = 0, mm_satp_ppn_i = 0, mm_dtlb_miss_req_vld_i = 0,
      mm_dtlb_miss_req_trans_id_i = 0, mm_dtlb_miss_req_asid_i = 0, mm_dtlb_miss_req_vpn_i = 0,
      mm_dtlb_miss_req_access_type_i = 0, mm_itlb_miss_req_vld_i = 0, mm_itlb_miss_req_trans_id_i = 0,
      mm_itlb_miss_req_asid_i = 0, mm_itlb_miss_req_vpn_i = 0, mm_itlb_miss_req_access_type_i = 0,
      mm_ptw_walk_req_rdy_i = 0, mm_ptw_walk_resp_vld_i = 0, mm_ptw_walk_resp_pte_i = 0,
      mm_tlb_flush_vld_i = 0, mm_tlb_flush_use_asid_i = 0, mm_tlb_flush_use_vpn_i = 0,
      mm_tlb_flush_vpn_i = 0, mm_tlb_flush_asid_i = 0\<rparr>"

definition mmu_tick :: "nat \<Rightarrow> mmu_pins \<Rightarrow> mmu_pins" where
  "mmu_tick t p =
     (let p1 = (if 10 < t then p\<lparr>mm_rstn := 1\<rparr> else p);
          p2 = (if t mod 10 = 1 then p1\<lparr>mm_clk := 1\<rparr> else p1)
      in if t mod 10 = 6 then p2\<lparr>mm_clk := 0\<rparr> else p2)"

definition mmu_events :: "(nat \<times> (mmu_pins \<Rightarrow> mmu_pins)) list" where
  "mmu_events =
    [(20, \<lambda>p. p\<lparr>mm_dtlb_miss_req_vld_i := 1, mm_dtlb_miss_req_trans_id_i := 0,
        mm_dtlb_miss_req_asid_i := 0x0001, mm_dtlb_miss_req_vpn_i := 0x0080001,
        mm_dtlb_miss_req_access_type_i := 0, mm_ptw_walk_req_rdy_i := 1\<rparr>),
     (25, mmu_init_module),
     (30, \<lambda>p. p\<lparr>mm_ptw_walk_resp_vld_i := 1, mm_ptw_walk_resp_pte_i := 0x003f00ff00ff0031,
        mm_ptw_walk_req_rdy_i := 1\<rparr>),
     (35, mmu_init_module),
     (40, \<lambda>p. p\<lparr>mm_ptw_walk_resp_vld_i := 1, mm_ptw_walk_resp_pte_i := 0x0030000000ff0031,
        mm_ptw_walk_req_rdy_i := 1\<rparr>),
     (45, mmu_init_module),
     (50, \<lambda>p. p\<lparr>mm_ptw_walk_resp_vld_i := 1, mm_ptw_walk_resp_pte_i := 0x003ffffffffff63f,
        mm_ptw_walk_req_rdy_i := 1\<rparr>),
     (55, mmu_init_module),
     (70, \<lambda>p. p\<lparr>mm_dtlb_miss_req_vld_i := 1, mm_dtlb_miss_req_asid_i := 0x0001,
        mm_dtlb_miss_req_vpn_i := 0x0080001, mm_ptw_walk_req_rdy_i := 1\<rparr>),
     (75, mmu_init_module),
     (80, \<lambda>p. p\<lparr>mm_ptw_walk_resp_vld_i := 1, mm_ptw_walk_resp_pte_i := 0x003f00ff00ff0030,
        mm_ptw_walk_req_rdy_i := 1\<rparr>),
     (85, mmu_init_module),
     (100, \<lambda>p. p\<lparr>mm_dtlb_miss_req_vld_i := 1, mm_dtlb_miss_req_asid_i := 0x0001,
        mm_dtlb_miss_req_vpn_i := 0x0080001, mm_ptw_walk_req_rdy_i := 1\<rparr>),
     (105, mmu_init_module),
     (110, \<lambda>p. p\<lparr>mm_ptw_walk_resp_vld_i := 1, mm_ptw_walk_resp_pte_i := 0x003f00ff00ff0035,
        mm_ptw_walk_req_rdy_i := 1\<rparr>),
     (115, mmu_init_module)]"

definition mmu_check :: "nat \<Rightarrow> mmu_outs \<Rightarrow> bool" where
  "mmu_check t ou \<longleftrightarrow>
     (t = 81 \<longrightarrow> mm_dtlb_miss_resp_vld_o ou = 1 \<and> mm_dtlb_miss_resp_page_fault_o ou = 1)"

definition mmu_main ::
    "(mmu_pins \<Rightarrow> 'd \<Rightarrow> 'd) \<Rightarrow> ('d \<Rightarrow> mmu_outs) \<Rightarrow> mmu_outs \<Rightarrow> 'd \<Rightarrow> (string list \<times> mmu_pins \<times> mmu_outs \<times> 'd) res" where
  "mmu_main dut outp ou d =
     directed_run (\<lambda>t p. apply_events mmu_events t (mmu_tick t p)) mmu_check (\<lambda>t b a. tik t) dut outp
       150 0 mmu_start ou d"

section \<open>The monolithic MMU bench\<close>

record mono_pins =
  mo_clk :: int
  mo_rstn :: int
  mo_priv_lvl_i :: int
  mo_satp_mode_i :: int
  mo_satp_asid_i :: int
  mo_satp_ppn_i :: int
  mo_misc_mstatus_i :: int
  mo_pmp_cfg_set_vld_i :: int
  mo_pmp_cfg_set_addr_i :: int
  mo_pmp_cfg_set_payload_i :: int
  mo_pmp_addr_set_vld_i :: int
  mo_pmp_addr_set_addr_i :: int
  mo_pmp_addr_set_payload_i :: int
  mo_dtlb_translate_req_vld_i :: int
  mo_dtlb_translate_req_access_type_i :: int
  mo_dtlb_translate_req_vpn_i :: int
  mo_itlb_translate_req_vld_i :: int
  mo_itlb_translate_req_vpn_i :: int
  mo_dtlb_flush_vld_i :: int
  mo_dtlb_flush_use_asid_i :: int
  mo_dtlb_flush_use_vpn_i :: int
  mo_dtlb_flush_vpn_i :: int
  mo_dtlb_flush_asid_i :: int
  mo_itlb_flush_vld_i :: int
  mo_itlb_flush_use_asid_i :: int
  mo_itlb_flush_use_vpn_i :: int
  mo_itlb_flush_vpn_i :: int
  mo_itlb_flush_asid_i :: int
  mo_ptw_walk_req_rdy_i :: int
  mo_ptw_walk_resp_vld_i :: int
  mo_ptw_walk_resp_pte_i :: int

definition mono_init_module :: "mono_pins \<Rightarrow> mono_pins" where
  "mono_init_module p = p\<lparr>mo_priv_lvl_i := 3, mo_satp_mode_i := 8, mo_satp_asid_i := 0x0001, mo_satp_ppn_i := 0x7fff0000123,
      mo_misc_mstatus_i := 0, mo_pmp_cfg_set_vld_i := 0, mo_pmp_cfg_set_addr_i := 0,
      mo_pmp_cfg_set_payload_i := 0, mo_pmp_addr_set_vld_i := 0, mo_pmp_addr_set_addr_i := 0,
      mo_pmp_addr_set_payload_i := 0, mo_dtlb_translate_req_vld_i := 0,
      mo_dtlb_translate_req_access_type_i := 0, mo_dtlb_translate_req_vpn_i := 0,
      mo_itlb_translate_req_vld_i := 0, mo_itlb_translate_req_vpn_i := 0, mo_dtlb_flush_vld_i := 0,
      mo_dtlb_flush_use_asid_i := 0, mo_dtlb_flush_use_vpn_i := 0, mo_dtlb_flush_vpn_i := 0,
      mo_dtlb_flush_asid_i := 0, mo_itlb_flush_vld_i := 0, mo_itlb_flush_use_asid_i := 0,
      mo_itlb_flush_use_vpn_i := 0, mo_itlb_flush_vpn_i := 0, mo_itlb_flush_asid_i := 0,
      mo_ptw_walk_req_rdy_i := 0, mo_ptw_walk_resp_vld_i := 0, mo_ptw_walk_resp_pte_i := 0\<rparr>"

text \<open>The bench sets neither the clock nor the reset before the loop; the ports of a new unit are 0.\<close>

definition mono_start :: mono_pins where
  "mono_start = mono_init_module \<lparr>mo_clk = 0, mo_rstn = 0, mo_priv_lvl_i = 0, mo_satp_mode_i = 0, mo_satp_asid_i = 0,
      mo_satp_ppn_i = 0, mo_misc_mstatus_i = 0, mo_pmp_cfg_set_vld_i = 0, mo_pmp_cfg_set_addr_i = 0,
      mo_pmp_cfg_set_payload_i = 0, mo_pmp_addr_set_vld_i = 0, mo_pmp_addr_set_addr_i = 0,
      mo_pmp_addr_set_payload_i = 0, mo_dtlb_translate_req_vld_i = 0,
      mo_dtlb_translate_req_access_type_i = 0, mo_dtlb_translate_req_vpn_i = 0,
      mo_itlb_translate_req_vld_i = 0, mo_itlb_translate_req_vpn_i = 0, mo_dtlb_flush_vld_i = 0,
      mo_dtlb_flush_use_asid_i = 0, mo_dtlb_flush_use_vpn_i = 0, mo_dtlb_flush_vpn_i = 0,
      mo_dtlb_flush_asid_i = 0, mo_itlb_flush_vld_i = 0, mo_itlb_flush_use_asid_i = 0,
      mo_itlb_flush_use_vpn_i = 0, mo_itlb_flush_vpn_i = 0, mo_itlb_flush_asid_i = 0,
      mo_ptw_walk_req_rdy_i = 0, mo_ptw_walk_resp_vld_i = 0, mo_ptw_walk_resp_pte_i = 0\<rparr>"

definition mono_tick :: "nat \<Rightarrow> mono_pins \<Rightarrow> mono_pins" where
  "mono_tick t p =
     (let p1 = (if 10 < t then p\<lparr>mo_rstn := 1\<rparr> else p);
          p2 = (if t mod 10 = 1 then p1\<lparr>mo_clk := 1\<rparr> else p1)
      in if t mod 10 = 6 then p2\<lparr>mo_clk := 0\<rparr> else p2)"

text \<open>A page table entry: the page number of an address and the flag bits.\<close>

definition pte_of :: "int \<Rightarrow> int \<Rightarrow> int" where
  "pte_of a flags = (push_bit 10 (drop_bit 12 a)) OR flags"

definition mono_events :: "(nat \<times> (mono_pins \<Rightarrow> mono_pins)) list" where
  "mono_events =
    [(20, \<lambda>p. p\<lparr>mo_pmp_cfg_set_vld_i := 1, mo_pmp_cfg_set_addr_i := 0, mo_pmp_cfg_set_payload_i := 986895,
        mo_pmp_addr_set_vld_i := 1, mo_pmp_addr_set_addr_i := 0,
        mo_pmp_addr_set_payload_i := 0x7fff0000123000\<rparr>),
     (25, \<lambda>p. p\<lparr>mo_pmp_cfg_set_vld_i := 0, mo_pmp_cfg_set_addr_i := 0, mo_pmp_cfg_set_payload_i := 0\<rparr>),
     (30, \<lambda>p. p\<lparr>mo_pmp_addr_set_vld_i := 1, mo_pmp_addr_set_addr_i := 1,
        mo_pmp_addr_set_payload_i := 0x7fff0000321000\<rparr>),
     (40, \<lambda>p. p\<lparr>mo_pmp_addr_set_vld_i := 1, mo_pmp_addr_set_addr_i := 2,
        mo_pmp_addr_set_payload_i := 0x7fffffffffffff\<rparr>),
     (45, \<lambda>p. p\<lparr>mo_pmp_addr_set_vld_i := 0, mo_pmp_addr_set_addr_i := 0, mo_pmp_addr_set_payload_i := 0\<rparr>),
     (50, \<lambda>p. p\<lparr>mo_priv_lvl_i := 1, mo_dtlb_translate_req_vld_i := 1,
        mo_dtlb_translate_req_access_type_i := 0,
        mo_dtlb_translate_req_vpn_i := drop_bit 12 0x80111000, mo_ptw_walk_req_rdy_i := 1\<rparr>),
     (90, \<lambda>p. p\<lparr>mo_ptw_walk_resp_vld_i := 1, mo_ptw_walk_resp_pte_i := pte_of 0x7fff0000321000 33\<rparr>),
     (95, \<lambda>p. p\<lparr>mo_ptw_walk_resp_vld_i := 0, mo_ptw_walk_resp_pte_i := 0\<rparr>),
     (110, \<lambda>p. p\<lparr>mo_ptw_walk_resp_vld_i := 1, mo_ptw_walk_resp_pte_i := pte_of 0x7fff0000456000 33\<rparr>),
     (115, \<lambda>p. p\<lparr>mo_ptw_walk_resp_vld_i := 0, mo_ptw_walk_resp_pte_i := 0\<rparr>),
     (130, \<lambda>p. p\<lparr>mo_ptw_walk_resp_vld_i := 1, mo_ptw_walk_resp_pte_i := pte_of 0x7fff0000654000 111\<rparr>),
     (135, \<lambda>p. p\<lparr>mo_ptw_walk_resp_vld_i := 0, mo_ptw_walk_resp_pte_i := 0\<rparr>),
     (145, \<lambda>p. p\<lparr>mo_dtlb_translate_req_vld_i := 0, mo_dtlb_translate_req_vpn_i := 0\<rparr>),
     (190, \<lambda>p. p\<lparr>mo_dtlb_translate_req_vld_i := 1, mo_dtlb_translate_req_access_type_i := 0,
        mo_dtlb_translate_req_vpn_i := drop_bit 12 0x80111000\<rparr>),
     (195, \<lambda>p. p\<lparr>mo_dtlb_translate_req_vld_i := 0, mo_dtlb_translate_req_vpn_i := 0\<rparr>),
     (220, \<lambda>p. p\<lparr>mo_dtlb_translate_req_vld_i := 1, mo_dtlb_translate_req_access_type_i := 0,
        mo_dtlb_translate_req_vpn_i := drop_bit 12 0x80111000\<rparr>),
     (225, \<lambda>p. p\<lparr>mo_dtlb_translate_req_vld_i := 0, mo_dtlb_translate_req_vpn_i := 0\<rparr>)]"

definition mono_main ::
    "(mono_pins \<Rightarrow> 'd \<Rightarrow> 'd) \<Rightarrow> ('d \<Rightarrow> 'o) \<Rightarrow> 'o \<Rightarrow> 'd \<Rightarrow> (string list \<times> mono_pins \<times> 'o \<times> 'd) res" where
  "mono_main dut outp ou d =
     directed_run (\<lambda>t p. apply_events mono_events t (mono_tick t p)) (\<lambda>t ou. True) (\<lambda>t b a. []) dut outp
       500 0 mono_start ou d"

section \<open>The schedules\<close>

interpretation mmu: schedule mmu_tick mmu_events mmu_start "\<lambda>p. (mm_clk p, mm_rstn p)"
  "\<lambda>p. p\<lparr>mm_clk := 0, mm_rstn := 0\<rparr>" "\<lambda>(c, r) p. p\<lparr>mm_clk := c, mm_rstn := r\<rparr>" slow_ctl
proof (unfold_locales, goal_cases)
  case (3 e p)
  then show ?case by (auto simp: mmu_events_def mmu_init_module_def)
next
  case (6 e p)
  then show ?case by (auto simp: mmu_events_def mmu_init_module_def)
next
  case (5 p t)
  then show ?case by (cases "slow_ctl t") (auto simp: mmu_tick_def slow_ctl_simps)
qed (simp_all add: mmu_tick_def mmu_start_def mmu_init_module_def slow_ctl_simps)

interpretation mono: schedule mono_tick mono_events mono_start "\<lambda>p. (mo_clk p, mo_rstn p)"
  "\<lambda>p. p\<lparr>mo_clk := 0, mo_rstn := 0\<rparr>" "\<lambda>(c, r) p. p\<lparr>mo_clk := c, mo_rstn := r\<rparr>" slow_ctl
proof (unfold_locales, goal_cases)
  case (3 e p)
  then show ?case by (auto simp: mono_events_def mono_init_module_def)
next
  case (6 e p)
  then show ?case by (auto simp: mono_events_def mono_init_module_def)
next
  case (5 p t)
  then show ?case by (cases "slow_ctl t") (auto simp: mono_tick_def slow_ctl_simps)
qed (simp_all add: mono_tick_def mono_start_def mono_init_module_def slow_ctl_simps)

lemma mmu_events_sorted: "sort_key fst mmu_events = mmu_events"
  by (rule sort_key_id_if_sorted) (simp add: mmu_events_def)

lemmas mmu_eval = mmu_events_def slow_ctl_def slow_level_def mmu_start_def mmu_init_module_def

text \<open>The pins at the rising edges of the first 81 rounds: the walk of test 0, and the request of test 1.\<close>

lemma mmu_edges_81:
  "edges_at (\<lambda>t p. apply_events mmu_events t (mmu_tick t p)) (\<lambda>p. mm_clk p \<noteq> 0) mmu_start 81 =
   (let idle = mmu_start\<lparr>mm_clk := 1, mm_rstn := 1\<rparr>;
        req = idle\<lparr>mm_dtlb_miss_req_vld_i := 1, mm_dtlb_miss_req_asid_i := 1,
                   mm_dtlb_miss_req_vpn_i := 0x80001, mm_ptw_walk_req_rdy_i := 1\<rparr>;
        walk = (\<lambda>pte. idle\<lparr>mm_ptw_walk_resp_vld_i := 1, mm_ptw_walk_resp_pte_i := pte, mm_ptw_walk_req_rdy_i := 1\<rparr>)
    in [mmu_start\<lparr>mm_clk := 1\<rparr>, idle, req, walk 0x003f00ff00ff0031, walk 0x0030000000ff0031,
        walk 0x003ffffffffff63f, idle, req])"
proof -
  have times: "filter (\<lambda>t. t mod 10 = 1) [0..<81] = [1, 11, 21, 31, 41, 51, 61, 71::nat]"
    by (subst slow_edges_before) simp_all
  show ?thesis
    unfolding mmu.edges [unfolded fst_conv] slow_ctl_edge times list.map mmu.pins mmu_events_sorted Let_def
    by (simp add: mmu_eval)
qed

text \<open>
  C36. The verdict of the MMU bench. It ends on a unit exactly when, after the walk of test 0 and the
  request of test 1, the unit answers an invalid root entry (bit V is 0) in the same cycle with a page
  fault. The entry of test 2 is never looked at.
\<close>

theorem mmu_verdict:
  "(\<exists>r. mmu_main (sync_unit (\<lambda>p. mm_clk p \<noteq> 0) step) (\<lambda>(q, s). out q s) o0 (mmu_start, s) = Inr r) \<longleftrightarrow>
   (let idle = mmu_start\<lparr>mm_clk := 1, mm_rstn := 1\<rparr>;
        req = idle\<lparr>mm_dtlb_miss_req_vld_i := 1, mm_dtlb_miss_req_asid_i := 1,
                   mm_dtlb_miss_req_vpn_i := 0x80001, mm_ptw_walk_req_rdy_i := 1\<rparr>;
        walk = (\<lambda>pte. idle\<lparr>mm_ptw_walk_resp_vld_i := 1, mm_ptw_walk_resp_pte_i := pte, mm_ptw_walk_req_rdy_i := 1\<rparr>);
        s' = fold step [mmu_start\<lparr>mm_clk := 1\<rparr>, idle, req, walk 0x003f00ff00ff0031, walk 0x0030000000ff0031,
                        walk 0x003ffffffffff63f, idle, req] s;
        ou = out ((walk 0x003f00ff00ff0030)\<lparr>mm_clk := 0\<rparr>) s'
    in mm_dtlb_miss_resp_vld_o ou = 1 \<and> mm_dtlb_miss_resp_page_fault_o ou = 1)"
proof -
  let ?seen = "seen_at (\<lambda>t p. apply_events mmu_events t (mmu_tick t p)) (\<lambda>p. mm_clk p \<noteq> 0) step out mmu_start o0 s"
  have pins: "pins_at (\<lambda>t p. apply_events mmu_events t (mmu_tick t p)) mmu_start (Suc 80) =
      mmu_start\<lparr>mm_rstn := 1, mm_ptw_walk_resp_vld_i := 1,
                mm_ptw_walk_resp_pte_i := 0x003f00ff00ff0030, mm_ptw_walk_req_rdy_i := 1, mm_clk := 0\<rparr>"
    unfolding mmu.pins mmu_events_sorted by (simp add: mmu_eval)
  have only: "(\<forall>i<150. mmu_check i (?seen i)) \<longleftrightarrow> mmu_check 81 (?seen 81)"
    by (auto simp: mmu_check_def)
  show ?thesis
    unfolding mmu_main_def directed_run_ends_iff only mmu_check_def seen_at_def
    using pins by (simp add: Let_def mmu_edges_81)
qed

lemma mono_events_sorted: "sort_key fst mono_events = mono_events"
  by (rule sort_key_id_if_sorted) (simp add: mono_events_def)

lemma upt_23: "[0..<23] = [0, 1, 2, 3, 4, 5, 6, 7, 8, 9, 10, 11, 12, 13, 14, 15, 16, 17, 18, 19, 20, 21, 22::nat]"
  by code_simp

lemmas mono_eval = mono_events_def slow_ctl_def slow_level_def mono_start_def mono_init_module_def

text \<open>After the last assignment the pins ask for nothing.\<close>

lemma mono_pins_late:
  assumes "225 \<le> t"
  shows "mo_pmp_addr_set_vld_i (pins_at (\<lambda>t p. apply_events mono_events t (mono_tick t p)) mono_start (Suc t)) = 0"
    and "mo_dtlb_translate_req_vld_i (pins_at (\<lambda>t p. apply_events mono_events t (mono_tick t p)) mono_start (Suc t)) = 0"
    and "mo_ptw_walk_resp_vld_i (pins_at (\<lambda>t p. apply_events mono_events t (mono_tick t p)) mono_start (Suc t)) = 0"
proof -
  have "filter (\<lambda>e. fst e \<le> t) mono_events = mono_events"
    using assms by (simp add: filter_id_conv mono_events_def)
  then show "mo_pmp_addr_set_vld_i (pins_at (\<lambda>t p. apply_events mono_events t (mono_tick t p)) mono_start (Suc t)) = 0"
    and "mo_dtlb_translate_req_vld_i (pins_at (\<lambda>t p. apply_events mono_events t (mono_tick t p)) mono_start (Suc t)) = 0"
    and "mo_ptw_walk_resp_vld_i (pins_at (\<lambda>t p. apply_events mono_events t (mono_tick t p)) mono_start (Suc t)) = 0"
    unfolding mono.pins mono_events_sorted by (simp_all only: case_prod_beta) (simp_all add: mono_eval)
qed

lemma mono_edges_split:
  "edges_at (\<lambda>t p. apply_events mono_events t (mono_tick t p)) (\<lambda>p. mo_clk p \<noteq> 0) mono_start 500 =
   map (\<lambda>k. pins_at (\<lambda>t p. apply_events mono_events t (mono_tick t p)) mono_start (Suc (10 * k + 1))) [0..<23] @
   map (\<lambda>k. pins_at (\<lambda>t p. apply_events mono_events t (mono_tick t p)) mono_start (Suc (10 * k + 1))) [23..<50]"
proof -
  have times: "filter (\<lambda>t. t mod 10 = 1) [0..<500] = map (\<lambda>k. 10 * k + 1) ([0..<23] @ [23..<50])"
    using slow_edges [of 50] upt_add_eq_append [of 0 23 27] by simp
  show ?thesis
    unfolding mono.edges [unfolded fst_conv] slow_ctl_edge times by (simp only: map_append map_map comp_def)
qed

text \<open>The pins of the first 23 cycles.\<close>

lemma mono_edges_early:
  "map (\<lambda>k. pins_at (\<lambda>t p. apply_events mono_events t (mono_tick t p)) mono_start (Suc (10 * k + 1))) [0..<23] =
   (let idle = mono_start\<lparr>mo_clk := 1, mo_rstn := 1\<rparr>;
        pmp = (\<lambda>i a. idle\<lparr>mo_pmp_addr_set_vld_i := 1, mo_pmp_addr_set_addr_i := i, mo_pmp_addr_set_payload_i := a\<rparr>);
        quiet = idle\<lparr>mo_priv_lvl_i := 1, mo_ptw_walk_req_rdy_i := 1\<rparr>;
        req = quiet\<lparr>mo_dtlb_translate_req_vld_i := 1, mo_dtlb_translate_req_vpn_i := 0x80111\<rparr>;
        walk = (\<lambda>pte. req\<lparr>mo_ptw_walk_resp_vld_i := 1, mo_ptw_walk_resp_pte_i := pte\<rparr>)
    in [mono_start\<lparr>mo_clk := 1\<rparr>, idle,
        (pmp 0 0x7fff0000123000)\<lparr>mo_pmp_cfg_set_vld_i := 1, mo_pmp_cfg_set_payload_i := 0x0f0f0f\<rparr>,
        pmp 1 0x7fff0000321000, pmp 2 0x7fffffffffffff, req, req, req, req,
        walk (pte_of 0x7fff0000321000 0x21), req, walk (pte_of 0x7fff0000456000 0x21), req,
        walk (pte_of 0x7fff0000654000 0x6f), req, quiet, quiet, quiet, quiet, req, quiet, quiet, req])"
  unfolding upt_23 list.map mono.pins mono_events_sorted Let_def by (simp add: mono_eval)

text \<open>
  What the monolithic MMU is asked in the 50 cycles of its bench: three protection registers are
  written, one address is translated, first with a request that is held during the walk and then with
  two requests of one cycle each, and the walk gets two pointers and a leaf.
\<close>

theorem mono_schedule:
  "(let es = edges_at (\<lambda>t p. apply_events mono_events t (mono_tick t p)) (\<lambda>p. mo_clk p \<noteq> 0) mono_start 500 in
    map (\<lambda>p. (mo_pmp_addr_set_addr_i p, mo_pmp_addr_set_payload_i p)) (filter (\<lambda>p. mo_pmp_addr_set_vld_i p = 1) es) =
      [(0, 0x7fff0000123000), (1, 0x7fff0000321000), (2, 0x7fffffffffffff)] \<and>
    map mo_dtlb_translate_req_vpn_i (filter (\<lambda>p. mo_dtlb_translate_req_vld_i p = 1) es) = replicate 12 0x80111 \<and>
    map mo_ptw_walk_resp_pte_i (filter (\<lambda>p. mo_ptw_walk_resp_vld_i p = 1) es) =
      [pte_of 0x7fff0000321000 0x21, pte_of 0x7fff0000456000 0x21, pte_of 0x7fff0000654000 0x6f])"
proof -
  let ?late = "map (\<lambda>k. pins_at (\<lambda>t p. apply_events mono_events t (mono_tick t p)) mono_start (Suc (10 * k + 1))) [23..<50]"
  have late: "filter (\<lambda>p. mo_pmp_addr_set_vld_i p = 1) ?late = []" "filter (\<lambda>p. mo_dtlb_translate_req_vld_i p = 1) ?late = []"
      "filter (\<lambda>p. mo_ptw_walk_resp_vld_i p = 1) ?late = []"
    unfolding filter_map comp_def map_is_Nil_conv filter_empty_conv set_upt Ball_def atLeastLessThan_iff
    by (simp_all add: mono_pins_late del: pins_at.simps)
  have twelve: "replicate 12 v = [v, v, v, v, v, v, v, v, v, v, v, v]" for v :: int
    by (simp add: numeral_eq_Suc)
  show ?thesis
    unfolding Let_def mono_edges_split filter_append late mono_edges_early
    by (simp add: mono_start_def mono_init_module_def twelve)
qed

end
