(* ===== verification/Unit_Benches.thy ===== *)
theory Unit_Benches
  imports Directed Text_Format
begin

text \<open>
  Four directed benches: the load/store unit (\<open>sim/selfcheck/lsu.cpp\<close>), the fetch unit
  (\<open>src/fetch/selfcheck/fetch.cpp\<close>), the functional units (\<open>sim/selfcheck/new_fu.cpp\<close>, whose tests are
  commented out) and the backend (\<open>sim/selfcheck/backend.cpp\<close>). None of them asserts anything; the
  lemmas say what they offer their units at the rising edges of the clock, and that they end.
\<close>

section \<open>The load/store unit\<close>

record ls_pins =
  ls_clk :: int
  ls_rstn :: int
  ls_stall :: int
  ls_valid_i :: int
  ls_rob_index_i :: int
  ls_rd_addr_i :: int
  ls_rs1_data_i :: int
  ls_rs2_data_i :: int
  ls_imm_i :: int
  ls_opcode_i :: int
  ls_size_i :: int
  ls_load_sign_i :: int
  ls_req_ready_i :: int
  ls_resp_valid_i :: int
  ls_resp_data_i :: int

definition ls_start :: ls_pins where
  "ls_start =
     \<lparr>ls_clk = 0, ls_rstn = 0, ls_stall = 0, ls_valid_i = 0, ls_rob_index_i = 1, ls_rd_addr_i = 1,
      ls_rs1_data_i = 0, ls_rs2_data_i = 0, ls_imm_i = 0, ls_opcode_i = 0, ls_size_i = 0,
      ls_load_sign_i = 0, ls_req_ready_i = 1, ls_resp_valid_i = 0, ls_resp_data_i = 0\<rparr>"

definition ls_tick :: "nat \<Rightarrow> ls_pins \<Rightarrow> ls_pins" where
  "ls_tick t p =
     (let p1 = (if 10 < t then p\<lparr>ls_rstn := 1\<rparr> else p);
          p2 = (if t mod 10 = 1 then p1\<lparr>ls_clk := 1\<rparr> else p1)
      in if t mod 10 = 6 then p2\<lparr>ls_clk := 0\<rparr> else p2)"

text \<open>The assignments in the order of the source: the one that ends the store is guarded by 25 as well.\<close>

definition ls_events :: "(nat \<times> (ls_pins \<Rightarrow> ls_pins)) list" where
  "ls_events =
    [(20, \<lambda>p. p\<lparr>ls_valid_i := 1, ls_rob_index_i := 1, ls_rd_addr_i := 1,
        ls_rs1_data_i := 0x0000000080000000, ls_rs2_data_i := 0x1234567812345678, ls_imm_i := 0x10,
        ls_opcode_i := 0\<rparr>),
     (25, \<lambda>p. p\<lparr>ls_valid_i := 0\<rparr>),
     (30, \<lambda>p. p\<lparr>ls_valid_i := 1, ls_rob_index_i := 2, ls_rd_addr_i := 2,
        ls_rs1_data_i := 0x0000000080000000, ls_rs2_data_i := 0x1234567812345678, ls_imm_i := 0x20,
        ls_opcode_i := 1\<rparr>),
     (25, \<lambda>p. p\<lparr>ls_valid_i := 0\<rparr>),
     (60, \<lambda>p. p\<lparr>ls_resp_valid_i := 1, ls_resp_data_i := 0x114514\<rparr>),
     (65, \<lambda>p. p\<lparr>ls_resp_valid_i := 0, ls_resp_data_i := 0\<rparr>),
     (80, \<lambda>p. p\<lparr>ls_valid_i := 1, ls_rob_index_i := 3, ls_rd_addr_i := 3,
        ls_rs1_data_i := 0x0000000080000000, ls_rs2_data_i := 0x11451400114514, ls_imm_i := 0x30,
        ls_opcode_i := 1, ls_req_ready_i := 0\<rparr>),
     (85, \<lambda>p. p\<lparr>ls_valid_i := 0\<rparr>),
     (110, \<lambda>p. p\<lparr>ls_req_ready_i := 1\<rparr>),
     (110, \<lambda>p. p\<lparr>ls_valid_i := 1, ls_rd_addr_i := 0\<rparr>),
     (120, \<lambda>p. p\<lparr>ls_rd_addr_i := 4, ls_size_i := 1, ls_imm_i := 0x11\<rparr>)]"

definition ls_main ::
    "(ls_pins \<Rightarrow> 'd \<Rightarrow> 'd) \<Rightarrow> ('d \<Rightarrow> 'o) \<Rightarrow> 'o \<Rightarrow> 'd \<Rightarrow> (string list \<times> ls_pins \<times> 'o \<times> 'd) res" where
  "ls_main dut outp ou d =
     directed_run (\<lambda>t p. apply_events ls_events t (ls_tick t p)) (\<lambda>t ou. True) (\<lambda>t b a. tik t) dut outp
       150 0 ls_start ou d"

section \<open>The fetch unit\<close>

record fetch_pins =
  fe_clk :: int
  fe_rst :: int
  fe_branch_valid_first_i :: int
  fe_branch_valid_second_i :: int
  fe_btb_req_pc_i :: int
  fe_btb_predict_target_i :: int
  fe_prev_pc_first_i :: int
  fe_prev_taken_first_i :: int
  fe_prev_pc_second_i :: int
  fe_prev_taken_second_i :: int
  fe_real_branch_i :: int
  fe_global_wfi_i :: int
  fe_global_ret_i :: int
  fe_global_trap_i :: int
  fe_global_predict_miss_i :: int
  fe_trap_vector_i :: int
  fe_mret_vector_i :: int
  fe_fetch_l1i_if_req_rdy_i :: int
  fe_l1i_fetch_if_resp_vld_i :: int
  fe_l1i_fetch_if_resp_data_i :: "int list"

record fetch_outs =
  fe_pc_first_o :: int
  fe_next_pc_first_o :: int
  fe_predict_pc_first_o :: int
  fe_instruction_first_o :: int
  fe_is_rv_first_o :: int
  fe_is_first_valid_o :: int
  fe_pc_second_o :: int
  fe_next_pc_second_o :: int
  fe_predict_pc_second_o :: int
  fe_instruction_second_o :: int
  fe_is_rv_second_o :: int
  fe_is_second_valid_o :: int
  fe_fetch_l1i_if_req_vld_o :: int
  fe_fetch_l1i_if_req_index_o :: int
  fe_fetch_l1i_if_req_offset_o :: int
  fe_fetch_l1i_if_req_vtag_o :: int
  fe_ins_empty_o :: int

definition fetch_start :: fetch_pins where
  "fetch_start =
     \<lparr>fe_clk = 0, fe_rst = 1, fe_branch_valid_first_i = 0, fe_branch_valid_second_i = 0,
      fe_btb_req_pc_i = 0x80000000, fe_btb_predict_target_i = 0, fe_prev_pc_first_i = 0,
      fe_prev_taken_first_i = 0, fe_prev_pc_second_i = 0, fe_prev_taken_second_i = 0, fe_real_branch_i = 0,
      fe_global_wfi_i = 0, fe_global_ret_i = 0, fe_global_trap_i = 0, fe_global_predict_miss_i = 0,
      fe_trap_vector_i = 0x00000000, fe_mret_vector_i = 0x00000000, fe_fetch_l1i_if_req_rdy_i = 0,
      fe_l1i_fetch_if_resp_vld_i = 0, fe_l1i_fetch_if_resp_data_i = [0, 0, 0, 0]\<rparr>"

definition fetch_tick :: "nat \<Rightarrow> fetch_pins \<Rightarrow> fetch_pins" where
  "fetch_tick t p =
     (if t mod 2 = 1 then p\<lparr>fe_clk := 1, fe_rst := 0\<rparr>
      else if t \<noteq> 0 then p\<lparr>fe_clk := 0, fe_rst := 0\<rparr> else p\<lparr>fe_clk := 0\<rparr>)"

definition fetch_events :: "(nat \<times> (fetch_pins \<Rightarrow> fetch_pins)) list" where
  "fetch_events =
    [(4, \<lambda>p. p\<lparr>fe_l1i_fetch_if_resp_vld_i := 1, fe_fetch_l1i_if_req_rdy_i := 1,
        fe_btb_req_pc_i := 0x80000008, fe_btb_predict_target_i := 0x70000000,
        fe_l1i_fetch_if_resp_data_i := [0xaaa3, 0xaaa3, 0xaaa3, 0xaaa3]\<rparr>),
     (10, \<lambda>p. p\<lparr>fe_l1i_fetch_if_resp_vld_i := 1, fe_fetch_l1i_if_req_rdy_i := 1,
        fe_btb_req_pc_i := 0x70000004, fe_btb_predict_target_i := 0x80000024,
        fe_l1i_fetch_if_resp_data_i := [0xaaa0, 0xaaa0, 0xaaa0, 0xaaa0]\<rparr>),
     (20, \<lambda>p. p\<lparr>fe_real_branch_i := 0x70000000, fe_branch_valid_first_i := 1\<rparr>)]"

definition fetch_print :: "nat \<Rightarrow> fetch_pins \<Rightarrow> fetch_outs \<Rightarrow> string" where
  "fetch_print t p ou =
     ''main_time: '' @ dec_nat t @ '', l1i_fetch_if_resp_data_i[0]: '' @
     printf_x (fe_l1i_fetch_if_resp_data_i p ! 0) @ '', l1i_fetch_if_resp_vld_i: '' @
     printf_d (fe_l1i_fetch_if_resp_vld_i p) @ '', fetch_l1i_if_req_rdy_i: '' @
     printf_d (fe_fetch_l1i_if_req_rdy_i p) @ '', '' @ [newline] @ ''pc_first_o: '' @
     printf_x (fe_pc_first_o ou) @ '', next_pc_first_o: '' @
     printf_x (fe_next_pc_first_o ou) @ '', predict_pc_first_o: '' @
     printf_x (fe_predict_pc_first_o ou) @ '', instruction_first_o: '' @
     printf_x (fe_instruction_first_o ou) @ '', is_rv_first_o: '' @
     printf_d (fe_is_rv_first_o ou) @ '', is_first_valid_o: '' @
     printf_d (fe_is_first_valid_o ou) @ '', '' @ [newline] @ ''pc_second_o: '' @
     printf_x (fe_pc_second_o ou) @ '', next_pc_second_o: '' @
     printf_x (fe_next_pc_second_o ou) @ '', predict_pc_second_o: '' @
     printf_x (fe_predict_pc_second_o ou) @ '', instruction_second_o: '' @
     printf_x (fe_instruction_second_o ou) @ '', is_rv_second_o: '' @
     printf_d (fe_is_rv_second_o ou) @ '', is_second_valid_o: '' @
     printf_d (fe_is_second_valid_o ou) @ '', '' @ [newline] @ ''fetch_l1i_if_req_vld_o: '' @
     printf_d (fe_fetch_l1i_if_req_vld_o ou) @ '', fetch_l1i_if_req_index_o: '' @
     printf_x (fe_fetch_l1i_if_req_index_o ou) @ '', fetch_l1i_if_req_offset_o: '' @
     printf_x (fe_fetch_l1i_if_req_offset_o ou) @ '', fetch_l1i_if_req_vtag_o: '' @
     printf_x (fe_fetch_l1i_if_req_vtag_o ou) @ '', ins_empty_o: '' @
     printf_d (fe_ins_empty_o ou) @ [newline]"

definition fetch_say :: "nat \<Rightarrow> fetch_pins \<times> fetch_outs \<Rightarrow> fetch_pins \<times> fetch_outs \<Rightarrow> string list" where
  "fetch_say t before after =
     [''main_time: '' @ dec_nat t @ ''=============='' @ [newline], fetch_print t (fst after) (snd after)]"

definition fetch_main ::
    "(fetch_pins \<Rightarrow> 'd \<Rightarrow> 'd) \<Rightarrow> ('d \<Rightarrow> fetch_outs) \<Rightarrow> fetch_outs \<Rightarrow> 'd \<Rightarrow>
     (string list \<times> fetch_pins \<times> fetch_outs \<times> 'd) res" where
  "fetch_main dut outp ou d =
     directed_run (\<lambda>t p. apply_events fetch_events t (fetch_tick t p)) (\<lambda>t ou. True) fetch_say dut outp
       50 0 fetch_start ou d"

section \<open>The functional units\<close>

record nf_pins =
  nf_clk :: int
  nf_rstn :: int
  nf_flush :: int
  nf_stall :: int
  nf_rs1_data_i :: int
  nf_rs2_data_i :: int
  nf_rob_index_i :: int
  nf_rd_addr_i :: int
  nf_issue_valid_i :: int
  nf_is_alu_i :: int
  nf_half_i :: int
  nf_pc_i :: int
  nf_next_pc_i :: int
  nf_alu_select_a_i :: int
  nf_alu_select_b_i :: int
  nf_imm_data_i :: int
  nf_csr_data_i :: int
  nf_alu_function_i :: int
  nf_cmp_function_i :: int
  nf_alu_function_modifier_i :: int
  nf_jump_i :: int
  nf_branch_i :: int
  nf_load_i :: int
  nf_store_i :: int
  nf_load_store_size_i :: int
  nf_load_signed_i :: int
  nf_is_load_store_i :: int
  nf_req_ready_i :: int
  nf_resp_valid_i :: int
  nf_resp_data_i :: int
  nf_is_csr_i :: int

definition nf_set_zero :: "nf_pins \<Rightarrow> nf_pins" where
  "nf_set_zero p = p\<lparr>nf_flush := 0, nf_stall := 0, nf_rs1_data_i := 0, nf_rs2_data_i := 0, nf_rob_index_i := 0,
      nf_rd_addr_i := 0, nf_issue_valid_i := 0, nf_is_alu_i := 0, nf_half_i := 0, nf_pc_i := 0,
      nf_next_pc_i := 0, nf_alu_select_a_i := 0, nf_alu_select_b_i := 0, nf_imm_data_i := 0,
      nf_csr_data_i := 0, nf_alu_function_i := 0, nf_cmp_function_i := 0, nf_alu_function_modifier_i := 0,
      nf_jump_i := 0, nf_branch_i := 0, nf_load_i := 0, nf_store_i := 0, nf_load_store_size_i := 0,
      nf_load_signed_i := 0, nf_is_load_store_i := 0, nf_req_ready_i := 1, nf_resp_valid_i := 0,
      nf_resp_data_i := 0, nf_is_csr_i := 0\<rparr>"

definition nf_start :: nf_pins where
  "nf_start = nf_set_zero
      \<lparr>nf_clk = 0, nf_rstn = 1, nf_flush = 0, nf_stall = 0, nf_rs1_data_i = 0, nf_rs2_data_i = 0,
      nf_rob_index_i = 0, nf_rd_addr_i = 0, nf_issue_valid_i = 0, nf_is_alu_i = 0, nf_half_i = 0,
      nf_pc_i = 0, nf_next_pc_i = 0, nf_alu_select_a_i = 0, nf_alu_select_b_i = 0, nf_imm_data_i = 0,
      nf_csr_data_i = 0, nf_alu_function_i = 0, nf_cmp_function_i = 0, nf_alu_function_modifier_i = 0,
      nf_jump_i = 0, nf_branch_i = 0, nf_load_i = 0, nf_store_i = 0, nf_load_store_size_i = 0,
      nf_load_signed_i = 0, nf_is_load_store_i = 0, nf_req_ready_i = 0, nf_resp_valid_i = 0,
      nf_resp_data_i = 0, nf_is_csr_i = 0\<rparr>"

definition nf_drive :: "nat \<Rightarrow> nf_pins \<Rightarrow> nf_pins" where
  "nf_drive t p =
     (let p1 = (if t mod 2 = 1 then p\<lparr>nf_clk := 1\<rparr> else p\<lparr>nf_clk := 0\<rparr>)
      in if t = 2 then p1\<lparr>nf_rstn := 0\<rparr> else p1)"

definition nf_main ::
    "(nf_pins \<Rightarrow> 'd \<Rightarrow> 'd) \<Rightarrow> ('d \<Rightarrow> 'o) \<Rightarrow> 'o \<Rightarrow> 'd \<Rightarrow> (string list \<times> nf_pins \<times> 'o \<times> 'd) res" where
  "nf_main dut outp ou d =
     res_map (\<lambda>(ms, r). (ms @ [newline # ''========== new_fu tests pass! =========='' @ [newline, newline]], r))
       (directed_run nf_drive (\<lambda>t ou. True) (\<lambda>t b a. []) dut outp 100 0 nf_start ou d)"

section \<open>The backend\<close>

record sb_pins =
  sb_clk :: int
  sb_rstn :: int
  sb_wfi_ctrl_in :: int
  sb_trapped :: int
  sb_valid_i :: int
  sb_ecause_i :: int
  sb_exception_i :: int
  sb_wfi_i :: int
  sb_mret_i :: int
  sb_uses_rs1_i :: int
  sb_uses_rs2_i :: int
  sb_uses_csr_i :: int
  sb_uses_rd_i :: int
  sb_pc_i :: int
  sb_next_pc_i :: int
  sb_is_alu_i :: int
  sb_deco_alu_select_a_i :: int
  sb_deco_alu_select_b_i :: int
  sb_cmp_function_i :: int
  sb_imm_data_i :: int
  sb_half_i :: int
  sb_alu_function_i :: int
  sb_alu_function_modifier_i :: int
  sb_branch_i :: int
  sb_jump_i :: int
  sb_load_i :: int
  sb_store_i :: int
  sb_load_store_size_i :: int
  sb_load_signed_i :: int
  sb_rs1_address_i :: int
  sb_rs2_address_i :: int
  sb_rd_address_i :: int
  sb_is_csr_i :: int
  sb_csr_address_i :: int
  sb_csr_data_i :: int
  sb_csr_read_i :: int
  sb_csr_write_i :: int
  sb_csr_readable_i :: int
  sb_csr_writeable_i :: int

text \<open>\<open>reset\<close>, for a unit that exists: it also writes the clock and the reset.\<close>

definition sb_reset :: "sb_pins \<Rightarrow> sb_pins" where
  "sb_reset p = p\<lparr>sb_clk := 0, sb_rstn := 0, sb_wfi_ctrl_in := 0, sb_trapped := 0, sb_valid_i := 0,
      sb_ecause_i := 0, sb_exception_i := 0, sb_wfi_i := 0, sb_mret_i := 0, sb_uses_rs1_i := 0,
      sb_uses_rs2_i := 0, sb_uses_csr_i := 0, sb_uses_rd_i := 0, sb_pc_i := 0, sb_next_pc_i := 0,
      sb_is_alu_i := 0, sb_deco_alu_select_a_i := 0, sb_deco_alu_select_b_i := 0, sb_cmp_function_i := 0,
      sb_imm_data_i := 0, sb_half_i := 0, sb_alu_function_i := 0, sb_alu_function_modifier_i := 0,
      sb_branch_i := 0, sb_jump_i := 0, sb_load_i := 0, sb_store_i := 0, sb_load_store_size_i := 0,
      sb_load_signed_i := 0, sb_rs1_address_i := 0, sb_rs2_address_i := 0, sb_rd_address_i := 0,
      sb_is_csr_i := 0, sb_csr_address_i := 0, sb_csr_data_i := 0, sb_csr_read_i := 0, sb_csr_write_i := 0,
      sb_csr_readable_i := 0, sb_csr_writeable_i := 0\<rparr>"

definition sb_start :: sb_pins where
  "sb_start = (sb_reset
      \<lparr>sb_clk = 0, sb_rstn = 0, sb_wfi_ctrl_in = 0, sb_trapped = 0, sb_valid_i = 0, sb_ecause_i = 0,
      sb_exception_i = 0, sb_wfi_i = 0, sb_mret_i = 0, sb_uses_rs1_i = 0, sb_uses_rs2_i = 0,
      sb_uses_csr_i = 0, sb_uses_rd_i = 0, sb_pc_i = 0, sb_next_pc_i = 0, sb_is_alu_i = 0,
      sb_deco_alu_select_a_i = 0, sb_deco_alu_select_b_i = 0, sb_cmp_function_i = 0, sb_imm_data_i = 0,
      sb_half_i = 0, sb_alu_function_i = 0, sb_alu_function_modifier_i = 0, sb_branch_i = 0, sb_jump_i = 0,
      sb_load_i = 0, sb_store_i = 0, sb_load_store_size_i = 0, sb_load_signed_i = 0, sb_rs1_address_i = 0,
      sb_rs2_address_i = 0, sb_rd_address_i = 0, sb_is_csr_i = 0, sb_csr_address_i = 0, sb_csr_data_i = 0,
      sb_csr_read_i = 0, sb_csr_write_i = 0, sb_csr_readable_i = 0, sb_csr_writeable_i = 0\<rparr>)\<lparr>sb_rstn := 1\<rparr>"

definition sb_tick :: "nat \<Rightarrow> sb_pins \<Rightarrow> sb_pins" where
  "sb_tick t p =
     (let p1 = (if t mod 10 = 0 then p\<lparr>sb_clk := 1\<rparr> else if t mod 10 = 5 then p\<lparr>sb_clk := 0\<rparr> else p)
      in if t = 100 then p1\<lparr>sb_rstn := 0\<rparr> else p1)"

text \<open>Both assignments come after the time at which the source starts to look at them, 120.\<close>

definition sb_events :: "(nat \<times> (sb_pins \<Rightarrow> sb_pins)) list" where
  "sb_events =
    [(300, \<lambda>p. p\<lparr>sb_valid_i := 1, sb_uses_rs1_i := 1, sb_uses_rs2_i := 0, sb_uses_rd_i := 1,
        sb_load_i := 1, sb_store_i := 0, sb_load_store_size_i := 0, sb_load_signed_i := 0,
        sb_rs1_address_i := 1, sb_rs2_address_i := 0, sb_rd_address_i := 2\<rparr>),
     (335, sb_reset)]"

definition sb_main ::
    "(sb_pins \<Rightarrow> 'd \<Rightarrow> 'd) \<Rightarrow> ('d \<Rightarrow> 'o) \<Rightarrow> 'o \<Rightarrow> 'd \<Rightarrow> (string list \<times> sb_pins \<times> 'o \<times> 'd) res" where
  "sb_main dut outp ou d =
     res_map (\<lambda>(ms, r). (ms @ [''backend build done'' @ [newline]], r))
       (directed_run (\<lambda>t p. apply_events sb_events t (sb_tick t p)) (\<lambda>t ou. True) (\<lambda>t b a. []) dut outp
          1000 0 sb_start ou d)"

section \<open>The schedules\<close>

interpretation ls: schedule ls_tick ls_events ls_start "\<lambda>p. (ls_clk p, ls_rstn p)"
  "\<lambda>p. p\<lparr>ls_clk := 0, ls_rstn := 0\<rparr>" "\<lambda>(c, r) p. p\<lparr>ls_clk := c, ls_rstn := r\<rparr>" slow_ctl
proof (unfold_locales, goal_cases)
  case (3 e p)
  then show ?case by (auto simp: ls_events_def)
next
  case (6 e p)
  then show ?case by (auto simp: ls_events_def)
next
  case (5 p t)
  then show ?case by (cases "slow_ctl t") (auto simp: ls_tick_def slow_ctl_simps)
qed (simp_all add: ls_tick_def ls_start_def slow_ctl_simps)

definition fetch_ctl :: "nat \<Rightarrow> int \<times> int" where
  "fetch_ctl t = (fast_level t, if t = 0 then 1 else 0)"

interpretation fetch: schedule fetch_tick fetch_events fetch_start "\<lambda>p. (fe_clk p, fe_rst p)"
  "\<lambda>p. p\<lparr>fe_clk := 0, fe_rst := 0\<rparr>" "\<lambda>(c, r) p. p\<lparr>fe_clk := c, fe_rst := r\<rparr>" fetch_ctl
proof (unfold_locales, goal_cases)
  case (3 e p)
  then show ?case by (auto simp: fetch_events_def)
next
  case (6 e p)
  then show ?case by (auto simp: fetch_events_def)
qed (simp_all add: fetch_tick_def fetch_start_def fetch_ctl_def fast_level_def)

definition sb_ctl :: "nat \<Rightarrow> int \<times> int" where
  "sb_ctl t = (if t mod 10 < 5 then 1 else 0, if t < 100 then 1 else 0)"

lemma sb_ctl_Suc:
  "sb_ctl (Suc t) =
     (if Suc t mod 10 = 0 then 1 else if Suc t mod 10 = 5 then 0 else fst (sb_ctl t),
      if Suc t = 100 then 0 else snd (sb_ctl t))"
  using mod_10_cases [of t] by (auto simp: sb_ctl_def mod_Suc)

lemma sb_ctl_edge: "(fst (sb_ctl t) \<noteq> 0 \<and> (t = 0 \<or> fst (sb_ctl (t - 1)) = 0)) \<longleftrightarrow> t mod 10 = 0"
proof (cases t)
  case (Suc u)
  then show ?thesis using mod_10_cases [of u] by (auto simp: sb_ctl_def mod_Suc)
qed (simp add: sb_ctl_def)

interpretation sb: schedule sb_tick sb_events sb_start "\<lambda>p. (sb_clk p, sb_rstn p)"
  "\<lambda>p. p\<lparr>sb_clk := 0, sb_rstn := 0\<rparr>" "\<lambda>(c, r) p. p\<lparr>sb_clk := c, sb_rstn := r\<rparr>" sb_ctl
proof (unfold_locales, goal_cases)
  case (3 e p)
  then show ?case by (auto simp: sb_events_def sb_reset_def)
next
  case (5 p t)
  then show ?case by (cases "sb_ctl t") (auto simp: sb_tick_def sb_ctl_Suc)
next
  case (6 e p)
  then show ?case by (auto simp: sb_events_def sb_reset_def sb_ctl_def)
qed (simp_all add: sb_tick_def sb_start_def sb_reset_def sb_ctl_def)

section \<open>What the units are offered\<close>

text \<open>
  The load/store unit is offered one load, then the same store in five cycles in a row, because
  nothing ends it, a store while the cache is not ready, and four more stores.
\<close>

theorem lsu_offers:
  "map (\<lambda>p. (ls_rob_index_i p, ls_opcode_i p, ls_rd_addr_i p, ls_imm_i p, ls_size_i p, ls_req_ready_i p))
     (filter (\<lambda>p. ls_valid_i p = 1)
       (edges_at (\<lambda>t p. apply_events ls_events t (ls_tick t p)) (\<lambda>p. ls_clk p \<noteq> 0) ls_start 150)) =
   [(1, 0, 1, 0x10, 0, 1),
    (2, 1, 2, 0x20, 0, 1), (2, 1, 2, 0x20, 0, 1), (2, 1, 2, 0x20, 0, 1), (2, 1, 2, 0x20, 0, 1), (2, 1, 2, 0x20, 0, 1),
    (3, 1, 3, 0x30, 0, 0), (3, 1, 0, 0x30, 0, 1),
    (3, 1, 4, 0x11, 1, 1), (3, 1, 4, 0x11, 1, 1), (3, 1, 4, 0x11, 1, 1)]"
proof -
  have plan: "sort_key fst ls_events = take 2 ls_events @ [ls_events ! 3, ls_events ! 2] @ drop 4 ls_events"
    by (simp add: ls_events_def)
  show ?thesis
    unfolding ls.edges [unfolded fst_conv] slow_ctl_edge slow_edges_150 list.map ls.pins plan
    by (simp add: ls_events_def slow_ctl_def slow_level_def ls_start_def)
qed

text \<open>
  C37. The reset of the fetch unit falls in the round in which the clock first rises: at no rising edge,
  however long the bench runs, is the reset active.
\<close>

theorem fetch_never_reset:
  "list_all (\<lambda>p. fe_rst p = 0)
     (edges_at (\<lambda>t p. apply_events fetch_events t (fetch_tick t p)) (\<lambda>p. fe_clk p \<noteq> 0) fetch_start n)"
proof -
  have "fe_rst (pins_at (\<lambda>t p. apply_events fetch_events t (fetch_tick t p)) fetch_start (Suc t)) = 0" if "odd t" for t
    using fetch.ctl_pins [of t] that by (cases t) (auto simp: fetch_ctl_def)
  then show ?thesis
    unfolding fetch.edges [unfolded fst_conv] fetch_ctl_def fst_conv fast_level_edge
    by (auto simp: list_all_iff simp del: pins_at.simps)
qed

text \<open>The functional unit bench offers its unit nothing and reports success for every unit.\<close>

lemma nf_issue_valid: "nf_issue_valid_i (pins_at nf_drive nf_start t) = 0"
proof (induction t)
  case (Suc t)
  moreover have "nf_issue_valid_i (nf_drive t p) = nf_issue_valid_i p" for p
    by (simp add: nf_drive_def Let_def)
  ultimately show ?case by simp
qed (simp add: nf_start_def nf_set_zero_def)

theorem nf_main_vacuous:
  "(\<exists>r. nf_main dut outp ou d = Inr ([newline # ''========== new_fu tests pass! =========='' @ [newline, newline]], r)) \<and>
   list_all (\<lambda>p. nf_issue_valid_i p = 0) (edges_at nf_drive (\<lambda>p. nf_clk p \<noteq> 0) nf_start n)"
proof -
  obtain ms r where "directed_run nf_drive (\<lambda>t ou. True) (\<lambda>t b a. []) dut outp 100 0 nf_start ou d = Inr (ms, r)"
    using directed_run_total [of nf_drive "\<lambda>t b a. []" dut outp 100 0 nf_start ou d] by blast
  moreover from directed_run_silent [OF this] have "ms = []" .
  ultimately show ?thesis
    by (cases r) (simp add: nf_main_def edges_at_filter list_all_iff nf_issue_valid del: pins_at.simps)
qed

text \<open>
  The backend samples the load of the bench at four rising edges, and in the rounds of these edges
  the reset pin is 0.
\<close>

lemma sb_pins_valid:
  "sb_valid_i (pins_at (\<lambda>t p. apply_events sb_events t (sb_tick t p)) sb_start (Suc t)) =
   (if 300 \<le> t \<and> t < 335 then 1 else 0)"
proof -
  have sorted: "sort_key fst sb_events = sb_events"
    by (rule sort_key_id_if_sorted) (simp add: sb_events_def)
  have "sb_valid_i (fold snd (filter (\<lambda>e. fst e \<le> t) sb_events) sb_start) = (if 300 \<le> t \<and> t < 335 then 1 else 0)"
    by (simp add: sb_events_def) (simp add: sb_start_def sb_reset_def)
  then show ?thesis
    unfolding sb.pins sorted by (simp add: case_prod_beta)
qed

theorem sb_load_offered:
  "{t. t < 1000 \<and> sb_clk (pins_at (\<lambda>t p. apply_events sb_events t (sb_tick t p)) sb_start t) = 0 \<and>
      sb_clk (pins_at (\<lambda>t p. apply_events sb_events t (sb_tick t p)) sb_start (Suc t)) = 1 \<and>
      sb_valid_i (pins_at (\<lambda>t p. apply_events sb_events t (sb_tick t p)) sb_start (Suc t)) = 1} = {300, 310, 320, 330} \<and>
   (\<forall>t. sb_rstn (pins_at (\<lambda>t p. apply_events sb_events t (sb_tick t p)) sb_start (Suc t)) = (if t < 100 then 1 else 0))"
proof -
  let ?pin = "pins_at (\<lambda>t p. apply_events sb_events t (sb_tick t p)) sb_start"
  have ctl: "sb_clk (?pin (Suc t)) = fst (sb_ctl t)" "sb_rstn (?pin (Suc t)) = snd (sb_ctl t)" for t
    using sb.ctl_pins [of t] by (simp_all del: pins_at.simps add: prod_eq_iff)
  have low: "sb_clk (?pin t) = 0 \<longleftrightarrow> t = 0 \<or> fst (sb_ctl (t - 1)) = 0" for t
    using sb.low by (cases t) (simp_all add: ctl del: pins_at.simps(2))
  have rise: "(sb_clk (?pin t) = 0 \<and> sb_clk (?pin (Suc t)) = 1) = (t mod 10 = 0)" for t
    unfolding low ctl using sb_ctl_edge [of t] by (auto simp: sb_ctl_def split: if_splits)
  have valid: "(sb_valid_i (?pin (Suc t)) = 1) = (300 \<le> t \<and> t < 335)" for t
    unfolding sb_pins_valid by simp
  have "{t. t < 1000 \<and> sb_clk (?pin t) = 0 \<and> sb_clk (?pin (Suc t)) = 1 \<and> sb_valid_i (?pin (Suc t)) = 1} =
      {t. t < 1000 \<and> t mod 10 = 0 \<and> 300 \<le> t \<and> t < 335}"
    unfolding valid by (rule Collect_cong) (simp only: rise flip: conj_assoc)
  also have "\<dots> = set (filter (\<lambda>t. t mod 10 = 0) [300..<335])"
    unfolding set_filter set_upt set_eq_iff mem_Collect_eq atLeastLessThan_iff by auto
  also have "filter (\<lambda>t. t mod 10 = 0) [300..<335] = [300, 310, 320, 330::nat]"
    by simp
  finally show ?thesis
    unfolding ctl by (simp add: sb_ctl_def)
qed

end
