(* ===== verification/Predictor_Benches.thy ===== *)
theory Predictor_Benches
  imports Directed Text_Format
begin

text \<open>
  The directed benches of the branch predictors, \<open>sim/selfcheck/gshare.cpp\<close> and
  \<open>sim/selfcheck/btb.cpp\<close>, and of the fetch unit that uses them, \<open>sim/selfcheck/fetch.cpp\<close>. Their clock is
  high in the odd rounds, and the first two compute pins from pins. The lemmas give what the units see at every
  rising edge; for the gshare predictor, also when its assertions hold.
\<close>

section \<open>The gshare predictor\<close>

record gs_pins =
  gs_clk :: int
  gs_reset :: int
  gs_pc :: int
  gs_prev_pc :: int
  gs_prev_branch_in :: int
  gs_prev_taken :: int

text \<open>The sixteen ports \<open>PHT0\<close> to \<open>PHT15\<close> are a list.\<close>

record gs_outs =
  gs_cur_pred :: int
  gs_PHT :: "int list"

definition gs_start :: gs_pins where
  "gs_start = \<lparr>gs_clk = 0, gs_reset = 1, gs_pc = 0x80000000, gs_prev_pc = 0, gs_prev_branch_in = 0, gs_prev_taken = 0\<rparr>"

text \<open>The case labels of the switch: the even times of three ranges.\<close>

definition gs_drive :: "nat \<Rightarrow> gs_pins \<Rightarrow> gs_pins" where
  "gs_drive t p =
     (let p1 = (if t mod 2 = 1 then p\<lparr>gs_clk := 1\<rparr> else p\<lparr>gs_clk := 0, gs_pc := gs_pc p + 4\<rparr>);
          p2 = (if t = 2 then p1\<lparr>gs_reset := 0\<rparr> else p1)
      in if even t \<and> (4 \<le> t \<and> t \<le> 22 \<or> 48 \<le> t \<and> t \<le> 146)
         then p2\<lparr>gs_prev_pc := gs_pc p2 - 4, gs_prev_branch_in := 1, gs_prev_taken := 0\<rparr>
         else if even t \<and> 26 \<le> t \<and> t \<le> 44
         then p2\<lparr>gs_prev_pc := gs_pc p2 - 4, gs_prev_branch_in := 1, gs_prev_taken := 1\<rparr>
         else p2)"

definition gs_check :: "nat \<Rightarrow> gs_outs \<Rightarrow> bool" where
  "gs_check t ou \<longleftrightarrow> (even t \<and> 148 \<le> t \<and> t \<le> 166 \<longrightarrow> gs_cur_pred ou = 0)"

text \<open>The format of the last line has fifteen conversions for the sixteen counters.\<close>

definition gs_say :: "nat \<Rightarrow> gs_pins \<times> gs_outs \<Rightarrow> gs_pins \<times> gs_outs \<Rightarrow> string list" where
  "gs_say t before after =
     (if t mod 2 = 1 then []
      else [''main_time: '' @ dec_nat t @ [CHR 0x09] @ '' write pc: '' @ printf_x (gs_pc (fst after)) @ [newline]]) @
     [''main_time: '' @ dec_nat t @ [CHR 0x09] @ '' pc: '' @ printf_x (gs_pc (fst after)) @
        [CHR 0x09] @ '' cur_pred: '' @ printf_d (gs_cur_pred (snd after)) @ [newline],
      ''PHT 0-15:'' @ [CHR 0x09],
      concat (map (\<lambda>v. printf_d v @ '' '') (take 14 (gs_PHT (snd after)))) @
        printf_d (gs_PHT (snd after) ! 14) @ [newline]]"

definition gs_main ::
    "(gs_pins \<Rightarrow> 'd \<Rightarrow> 'd) \<Rightarrow> ('d \<Rightarrow> gs_outs) \<Rightarrow> gs_outs \<Rightarrow> 'd \<Rightarrow> (string list \<times> gs_pins \<times> gs_outs \<times> 'd) res" where
  "gs_main dut outp ou d = directed_run gs_drive gs_check gs_say dut outp 170 0 gs_start ou d"

section \<open>The branch target buffer\<close>

record bt_pins =
  bt_clk :: int
  bt_reset :: int
  bt_pc_in :: int
  bt_is_req_pc :: int
  bt_req_pc :: int
  bt_predict_target :: int

record bt_outs =
  bt_next_pc_out :: int
  bt_token :: int
  bt_gotten :: int
  bt_counter :: int

definition bt_start :: bt_pins where
  "bt_start = \<lparr>bt_clk = 0, bt_reset = 1, bt_pc_in = 0x80000000, bt_is_req_pc = 0, bt_req_pc = 0, bt_predict_target = 0\<rparr>"

definition bt_events :: "(nat \<times> (bt_pins \<Rightarrow> bt_pins)) list" where
  "bt_events =
    [(4, \<lambda>p. p\<lparr>bt_is_req_pc := 1, bt_req_pc := 0x80000030, bt_predict_target := 0x70000000\<rparr>),
     (6, \<lambda>p. p\<lparr>bt_is_req_pc := 1, bt_req_pc := 0x80000034, bt_predict_target := 0x70000004\<rparr>),
     (8, \<lambda>p. p\<lparr>bt_is_req_pc := 1, bt_req_pc := 0x80000038, bt_predict_target := 0x70000008\<rparr>),
     (10, \<lambda>p. p\<lparr>bt_is_req_pc := 1, bt_req_pc := 0x8000003c, bt_predict_target := 0x7000000c\<rparr>),
     (12, \<lambda>p. p\<lparr>bt_pc_in := 0x80000030, bt_predict_target := 0, bt_req_pc := 0\<rparr>),
     (20, \<lambda>p. p\<lparr>bt_is_req_pc := 1, bt_req_pc := 0x80000030, bt_predict_target := 0x70000030\<rparr>),
     (22, \<lambda>p. p\<lparr>bt_is_req_pc := 1, bt_req_pc := 0x80000038, bt_predict_target := 0x70000038\<rparr>),
     (24, \<lambda>p. p\<lparr>bt_pc_in := 0x80000030, bt_predict_target := 0, bt_req_pc := 0\<rparr>),
     (32, \<lambda>p. p\<lparr>bt_is_req_pc := 1, bt_req_pc := 0x80000050, bt_predict_target := 0x70000050\<rparr>),
     (34, \<lambda>p. p\<lparr>bt_is_req_pc := 1, bt_req_pc := 0x80000058, bt_predict_target := 0x70000058\<rparr>),
     (36, \<lambda>p. p\<lparr>bt_pc_in := 0x80000050, bt_predict_target := 0, bt_req_pc := 0\<rparr>)]"

definition bt_drive :: "nat \<Rightarrow> bt_pins \<Rightarrow> bt_pins" where
  "bt_drive t p =
     (let p1 = (if t mod 2 = 1 then p\<lparr>bt_clk := 1\<rparr> else p\<lparr>bt_clk := 0, bt_is_req_pc := 0, bt_pc_in := bt_pc_in p + 4\<rparr>)
      in apply_events bt_events t (if t = 2 then p1\<lparr>bt_reset := 0\<rparr> else p1))"

definition bt_say :: "nat \<Rightarrow> bt_pins \<times> bt_outs \<Rightarrow> bt_pins \<times> bt_outs \<Rightarrow> string list" where
  "bt_say t before after =
     (let line = (\<lambda>pc. ''main_time: '' @ dec_nat t @ '', write pc: '' @ printf_x pc @ [newline]) in
      (if t mod 2 = 1 then [] else [line (bt_pc_in (fst before) + 4)]) @
      (if t \<in> {12, 24, 36} then [line (bt_pc_in (fst after))] else []) @
      [''main_time: '' @ dec_nat t @ '', pc_in: '' @ printf_x (bt_pc_in (fst after)) @
       '', next_pc_out: '' @ printf_x (bt_next_pc_out (snd after)) @
       '', req_pc: '' @ printf_x (bt_req_pc (fst after)) @
       '', predict_target: '' @ printf_x (bt_predict_target (fst after)) @
       '', token: '' @ printf_d (bt_token (snd after)) @
       '', gotten: '' @ printf_d (bt_gotten (snd after)) @
       '', counter: '' @ printf_d (bt_counter (snd after)) @ [newline]])"

definition bt_main ::
    "(bt_pins \<Rightarrow> 'd \<Rightarrow> 'd) \<Rightarrow> ('d \<Rightarrow> bt_outs) \<Rightarrow> bt_outs \<Rightarrow> 'd \<Rightarrow> (string list \<times> bt_pins \<times> bt_outs \<times> 'd) res" where
  "bt_main dut outp ou d = directed_run bt_drive (\<lambda>t ou. True) bt_say dut outp 100 0 bt_start ou d"

section \<open>The fetch unit\<close>

record sf_pins =
  sf_clk :: int
  sf_reset :: int
  sf_trap :: int
  sf_mret :: int
  sf_trap_vector :: int
  sf_mret_vector :: int
  sf_invalidate :: int
  sf_prev_pc :: int
  sf_prev_branch_in :: int
  sf_prev_taken :: int
  sf_valid_real_branch :: int
  sf_is_req_pc :: int
  sf_btb_req_pc :: int
  sf_btb_predict_target :: int
  sf_icache_ready :: int
  sf_rd_en :: int
  sf_real_branch :: int

record sf_outs =
  sf_pc :: int
  sf_fetch_data :: int
  sf_pc_out :: int
  sf_next_pc_out :: int
  sf_instruction_out :: int
  sf_ins_empty :: int
  sf_buffer_full :: int
  sf_ins_pc_in :: int
  sf_ins_next_pc_in :: int
  sf_instruction_in :: int
  sf_wrong_pred :: int

definition sf_start :: sf_pins where
  "sf_start =
     \<lparr>sf_clk = 0, sf_reset = 1, sf_trap = 0, sf_mret = 0, sf_trap_vector = 0x00000000,
      sf_mret_vector = 0x00000000, sf_invalidate = 0, sf_prev_pc = 0x00000000, sf_prev_branch_in = 0,
      sf_prev_taken = 0, sf_valid_real_branch = 0, sf_is_req_pc = 0, sf_btb_req_pc = 0,
      sf_btb_predict_target = 0, sf_icache_ready = 0, sf_rd_en = 0, sf_real_branch = 0\<rparr>"

definition sf_events :: "(nat \<times> (sf_pins \<Rightarrow> sf_pins)) list" where
  "sf_events =
    [(4, \<lambda>p. p\<lparr>sf_icache_ready := 1, sf_rd_en := 0, sf_is_req_pc := 1, sf_btb_req_pc := 0x80000008,
        sf_btb_predict_target := 0x70000000\<rparr>),
     (6, \<lambda>p. p\<lparr>sf_is_req_pc := 1, sf_btb_req_pc := 0x70000004, sf_btb_predict_target := 0x80000024\<rparr>),
     (12, \<lambda>p. p\<lparr>sf_icache_ready := 1\<rparr>),
     (16, \<lambda>p. p\<lparr>sf_icache_ready := 1\<rparr>),
     (18, \<lambda>p. p\<lparr>sf_icache_ready := 1\<rparr>),
     (20, \<lambda>p. p\<lparr>sf_icache_ready := 1\<rparr>),
     (22, \<lambda>p. p\<lparr>sf_icache_ready := 1\<rparr>),
     (24, \<lambda>p. p\<lparr>sf_icache_ready := 1\<rparr>),
     (26, \<lambda>p. p\<lparr>sf_icache_ready := 1\<rparr>),
     (30, \<lambda>p. p\<lparr>sf_icache_ready := 1, sf_valid_real_branch := 1, sf_real_branch := 0x70000000\<rparr>),
     (32, \<lambda>p. p\<lparr>sf_icache_ready := 1, sf_valid_real_branch := 0, sf_rd_en := 1\<rparr>),
     (34, \<lambda>p. p\<lparr>sf_icache_ready := 1\<rparr>),
     (36, \<lambda>p. p\<lparr>sf_icache_ready := 1\<rparr>),
     (38, \<lambda>p. p\<lparr>sf_icache_ready := 1\<rparr>)]"

definition sf_drive :: "nat \<Rightarrow> sf_pins \<Rightarrow> sf_pins" where
  "sf_drive t p =
     (let p1 = (if t mod 2 = 1 then p\<lparr>sf_clk := 1\<rparr> else p\<lparr>sf_is_req_pc := 0, sf_clk := 0, sf_icache_ready := 0\<rparr>)
      in apply_events sf_events t (if t = 2 then p1\<lparr>sf_reset := 0\<rparr> else p1))"

definition sf_print :: "nat \<Rightarrow> sf_pins \<Rightarrow> sf_outs \<Rightarrow> string" where
  "sf_print t p ou =
     ''main_time: '' @ dec_nat t @ '', pc: '' @ printf_x (sf_pc ou) @ '', fetch_data: '' @
     printf_x (sf_fetch_data ou) @ '', pc_out: '' @ printf_x (sf_pc_out ou) @
     '', next_pc_out: '' @ printf_x (sf_next_pc_out ou) @ '', instruction_out: '' @
     printf_x (sf_instruction_out ou) @ '', real_branch: '' @ printf_x (sf_real_branch p) @
     '', ins_empty: '' @ printf_d (sf_ins_empty ou) @ '',buffer_full: '' @
     printf_d (sf_buffer_full ou) @ '','' @ [newline] @ ''  ins_pc_in: '' @
     printf_x (sf_ins_pc_in ou) @ '', ins_next_pc_in, '' @ printf_x (sf_ins_next_pc_in ou) @
     '', instruction: '' @ printf_x (sf_instruction_in ou) @ '', wrong_pred: '' @
     printf_d (sf_wrong_pred ou) @ '', icache_ready: '' @ printf_d (sf_icache_ready p) @
     '', decache read: '' @ printf_d (sf_rd_en p) @ [newline]"

definition sf_say :: "nat \<Rightarrow> sf_pins \<times> sf_outs \<Rightarrow> sf_pins \<times> sf_outs \<Rightarrow> string list" where
  "sf_say t before after =
     (if t mod 2 = 1 then []
      else [''main_time: '' @ dec_nat t @ '', write pc: '' @ printf_x (sf_pc (snd before)) @ [newline]]) @
     [sf_print t (fst after) (snd after)]"

definition sf_main ::
    "(sf_pins \<Rightarrow> 'd \<Rightarrow> 'd) \<Rightarrow> ('d \<Rightarrow> sf_outs) \<Rightarrow> sf_outs \<Rightarrow> 'd \<Rightarrow> (string list \<times> sf_pins \<times> sf_outs \<times> 'd) res" where
  "sf_main dut outp ou d = directed_run sf_drive (\<lambda>t ou. True) sf_say dut outp 50 0 sf_start ou d"

section \<open>What the gshare predictor sees\<close>

text \<open>
  The pins at the rising edge of round \<open>2 k + 1\<close>. The branch of the previous cycle is reported in
  every cycle from the third on: at the end of a test, and after the last one, nothing withdraws it,
  so the last branch of each test is reported again.
\<close>

definition gs_edge :: "nat \<Rightarrow> gs_pins" where
  "gs_edge k =
     \<lparr>gs_clk = 1, gs_reset = (if k = 0 then 1 else 0), gs_pc = 0x80000000 + 4 * (int k + 1),
      gs_prev_pc =
        (if k < 2 then 0
         else 0x80000000 + 4 * (if k = 12 then 11 else if k = 23 then 22 else if 74 \<le> k then 73 else int k)),
      gs_prev_branch_in = (if k < 2 then 0 else 1), gs_prev_taken = (if 13 \<le> k \<and> k \<le> 23 then 1 else 0)\<rparr>"

lemma gs_drive_pair:
  "gs_drive (Suc (2 * Suc k)) (gs_drive (2 * Suc k) (gs_edge k)) = gs_edge (Suc k)"
  by (auto simp: gs_drive_def gs_edge_def Let_def)

interpretation gs: fast_bench gs_drive "\<lambda>p. gs_clk p \<noteq> 0" gs_start gs_edge
proof (unfold_locales, goal_cases)
  case (2 k)
  show ?case by (rule gs_drive_pair)
qed (simp_all add: gs_drive_def gs_start_def gs_edge_def Let_def)

text \<open>
  The verdict of the bench: it ends exactly when the prediction is "not taken" after each of the edges
  74 to 83, the first of which ends the training of test 3.
\<close>

theorem gshare_verdict:
  "(\<exists>r. gs_main (sync_unit (\<lambda>p. gs_clk p \<noteq> 0) step) (\<lambda>(q, s). out q s) o0 (gs_start, s) = Inr r) \<longleftrightarrow>
   list_all (\<lambda>k. gs_cur_pred (out (gs_edge k) (fold step (map gs_edge [0..<Suc k]) s)) = 0) [73..<83]"
proof -
  let ?seen = "seen_at gs_drive (\<lambda>p. gs_clk p \<noteq> 0) step out gs_start o0 s"
  have "(\<forall>i<170. gs_check i (?seen i)) \<longleftrightarrow> (\<forall>k\<in>{73..<83}. gs_cur_pred (?seen (2 * Suc k)) = 0)"
  proof (intro iffI ballI allI impI)
    fix k :: nat
    assume "\<forall>i<170. gs_check i (?seen i)" and "k \<in> {73..<83}"
    moreover from this(2) have "2 * Suc k < 170" "148 \<le> 2 * Suc k" "2 * Suc k \<le> 166" by simp_all
    ultimately have "gs_check (2 * Suc k) (?seen (2 * Suc k))" by blast
    then show "gs_cur_pred (?seen (2 * Suc k)) = 0"
      using \<open>148 \<le> 2 * Suc k\<close> \<open>2 * Suc k \<le> 166\<close> unfolding gs_check_def by simp
  next
    fix i
    assume hyp: "\<forall>k\<in>{73..<83}. gs_cur_pred (?seen (2 * Suc k)) = 0"
    show "gs_check i (?seen i)"
      unfolding gs_check_def
    proof
      assume i: "even i \<and> 148 \<le> i \<and> i \<le> 166"
      then have "i = 2 * Suc (i div 2 - 1)" "i div 2 - 1 \<in> {73..<83}"
        unfolding atLeastLessThan_iff by presburger+
      with hyp show "gs_cur_pred (?seen i) = 0" by metis
    qed
  qed
  then show ?thesis
    unfolding gs_main_def directed_run_ends_iff gs.seen
    by (simp only: list_all_iff set_upt)
qed

section \<open>What the branch target buffer sees\<close>

text \<open>
  The pins at the rising edge of round \<open>2 k + 1\<close>: entries are written in the cycles of tests 1, 2 and
  3, and after each group the program counter passes over the addresses just written.
\<close>

definition bt_entry :: "nat \<Rightarrow> (int \<times> int) option" where
  "bt_entry = map_of
     [(2, (0x80000030, 0x70000000)), (3, (0x80000034, 0x70000004)), (4, (0x80000038, 0x70000008)),
      (5, (0x8000003c, 0x7000000c)), (10, (0x80000030, 0x70000030)), (11, (0x80000038, 0x70000038)),
      (16, (0x80000050, 0x70000050)), (17, (0x80000058, 0x70000058))]"

definition bt_edge :: "nat \<Rightarrow> bt_pins" where
  "bt_edge k =
     \<lparr>bt_clk = 1, bt_reset = (if k = 0 then 1 else 0),
      bt_pc_in =
        (if k < 6 then 0x80000000 + 4 * (int k + 1) else if k < 12 then 0x80000030 + 4 * (int k - 6)
         else if k < 18 then 0x80000030 + 4 * (int k - 12) else 0x80000050 + 4 * (int k - 18)),
      bt_is_req_pc = (if bt_entry k = None then 0 else 1),
      bt_req_pc = (case bt_entry k of None \<Rightarrow> 0 | Some e \<Rightarrow> fst e),
      bt_predict_target = (case bt_entry k of None \<Rightarrow> 0 | Some e \<Rightarrow> snd e)\<rparr>"

lemmas bt_apply = arg_cong [OF bt_events_def, of "\<lambda>es. apply_events es t p" for t p]

lemma bt_drive_odd: "odd t \<Longrightarrow> bt_drive t p = p\<lparr>bt_clk := 1\<rparr>"
proof -
  assume odd: "odd t"
  then have "apply_events bt_events t q = q" for q
    by (intro apply_events_none) (auto simp: bt_events_def)
  with odd show ?thesis
    by (auto simp: bt_drive_def Let_def odd_iff_mod_2_eq_one)
qed

lemma bt_drive_pair:
  "bt_drive (Suc (2 * Suc k)) (bt_drive (2 * Suc k) (bt_edge k)) = bt_edge (Suc k)"
proof (cases "k < 18")
  case True
  then have "k \<in> {0, 1, 2, 3, 4, 5, 6, 7, 8, 9, 10, 11, 12, 13, 14, 15, 16, 17}"
    unfolding insert_iff empty_iff by presburger
  then show ?thesis
    unfolding insert_iff empty_iff
    by (elim disjE; simp add: bt_drive_odd; simp add: bt_drive_def bt_apply bt_edge_def bt_entry_def cong: apply_events_weak_cong)
next
  case False
  then have "apply_events bt_events (2 * Suc k) q = q" for q
    by (intro apply_events_none) (auto simp: bt_events_def)
  with False show ?thesis
    by (simp add: bt_drive_odd) (simp add: bt_drive_def bt_edge_def bt_entry_def)
qed

interpretation bt: fast_bench bt_drive "\<lambda>p. bt_clk p \<noteq> 0" bt_start bt_edge
proof (unfold_locales, goal_cases)
  case 1
  show ?case by (simp add: bt_drive_odd) (simp add: bt_drive_def bt_events_def bt_start_def bt_edge_def bt_entry_def)
next
  case (2 k)
  show ?case by (rule bt_drive_pair)
next
  case (4 k p)
  have "bt_clk (apply_events bt_events t q) = bt_clk q" for t q
    by (simp add: bt_events_def)
  then show ?case by (simp add: bt_drive_def Let_def)
qed (simp add: bt_edge_def)

section \<open>What the fetch unit sees\<close>

text \<open>
  The pins at the rising edge of round \<open>2 k + 1\<close>. Two entries are written into the branch target
  buffer, the cache answers in thirteen cycles, one redirection is requested, and instructions are
  read from the buffer from the cycle after it on.
\<close>

definition sf_edge :: "nat \<Rightarrow> sf_pins" where
  "sf_edge k = sf_start
     \<lparr>sf_clk := 1, sf_reset := (if k = 0 then 1 else 0),
      sf_is_req_pc := (if k \<in> {2, 3} then 1 else 0),
      sf_btb_req_pc := (if k < 2 then 0 else if k = 2 then 0x80000008 else 0x70000004),
      sf_btb_predict_target := (if k < 2 then 0 else if k = 2 then 0x70000000 else 0x80000024),
      sf_icache_ready := (if k \<in> {2, 6, 8, 9, 10, 11, 12, 13, 15, 16, 17, 18, 19} then 1 else 0),
      sf_valid_real_branch := (if k = 15 then 1 else 0),
      sf_real_branch := (if k < 15 then 0 else 0x70000000),
      sf_rd_en := (if k < 16 then 0 else 1)\<rparr>"

lemmas sf_apply = arg_cong [OF sf_events_def, of "\<lambda>es. apply_events es t p" for t p]

lemma sf_drive_odd: "odd t \<Longrightarrow> sf_drive t p = p\<lparr>sf_clk := 1\<rparr>"
proof -
  assume odd: "odd t"
  then have "apply_events sf_events t q = q" for q
    by (intro apply_events_none) (auto simp: sf_events_def)
  with odd show ?thesis
    by (auto simp: sf_drive_def Let_def odd_iff_mod_2_eq_one)
qed

lemma sf_drive_pair:
  "sf_drive (Suc (2 * Suc k)) (sf_drive (2 * Suc k) (sf_edge k)) = sf_edge (Suc k)"
proof (cases "k < 19")
  case True
  then have "k \<in> {0, 1, 2, 3, 4, 5, 6, 7, 8, 9, 10, 11, 12, 13, 14, 15, 16, 17, 18}"
    unfolding insert_iff empty_iff by presburger
  then show ?thesis
    unfolding insert_iff empty_iff
    by (elim disjE; simp add: sf_drive_odd; simp add: sf_drive_def sf_apply sf_edge_def sf_start_def cong: apply_events_weak_cong)
next
  case False
  then have "apply_events sf_events (2 * Suc k) q = q" for q
    by (intro apply_events_none) (auto simp: sf_events_def)
  with False show ?thesis
    by (simp add: sf_drive_odd) (simp add: sf_drive_def sf_edge_def sf_start_def)
qed

interpretation sf: fast_bench sf_drive "\<lambda>p. sf_clk p \<noteq> 0" sf_start sf_edge
proof (unfold_locales, goal_cases)
  case 1
  show ?case by (simp add: sf_drive_odd) (simp add: sf_drive_def sf_events_def sf_start_def sf_edge_def)
next
  case (2 k)
  show ?case by (rule sf_drive_pair)
next
  case (4 k p)
  have "sf_clk (apply_events sf_events t q) = sf_clk q" for t q
    by (simp add: sf_events_def)
  then show ?case by (simp add: sf_drive_def Let_def)
qed (simp add: sf_edge_def)

lemma sf_edges: "edges_at sf_drive (\<lambda>p. sf_clk p \<noteq> 0) sf_start 50 = map sf_edge [0..<25]"
  using sf.edges [of 25] by simp

text \<open>The buffer the comments of the bench describe: a write maps an address to its predicted target.\<close>

definition bt_ideal :: "bt_pins \<Rightarrow> (int \<rightharpoonup> int) \<Rightarrow> (int \<rightharpoonup> int)" where
  "bt_ideal p m = (if bt_is_req_pc p = 1 then m(bt_req_pc p \<mapsto> bt_predict_target p) else m)"

lemma bt_ideal_edge:
  "bt_ideal (bt_edge k) = (\<lambda>m. case bt_entry k of None \<Rightarrow> m | Some e \<Rightarrow> m(fst e \<mapsto> snd e))"
  by (rule ext) (simp add: bt_ideal_def bt_edge_def split: option.splits)

lemma bt_upto:
  "[0..<6] = [0, 1, 2, 3, 4, 5::nat]"
  "[0..<7] = [0, 1, 2, 3, 4, 5, 6::nat]"
  "[0..<8] = [0, 1, 2, 3, 4, 5, 6, 7::nat]"
  "[0..<9] = [0, 1, 2, 3, 4, 5, 6, 7, 8::nat]"
  "[0..<12] = [0, 1, 2, 3, 4, 5, 6, 7, 8, 9, 10, 11::nat]"
  "[0..<14] = [0, 1, 2, 3, 4, 5, 6, 7, 8, 9, 10, 11, 12, 13::nat]"
  "[0..<18] = [0, 1, 2, 3, 4, 5, 6, 7, 8, 9, 10, 11, 12, 13, 14, 15, 16, 17::nat]"
  "[0..<20] = [0, 1, 2, 3, 4, 5, 6, 7, 8, 9, 10, 11, 12, 13, 14, 15, 16, 17, 18, 19::nat]"
  by code_simp+

text \<open>
  On the pins of the bench, this buffer answers the addresses looked up after each group of writes
  with the targets written last.
\<close>

theorem btb_plan:
  "(let es = edges_at bt_drive (\<lambda>p. bt_clk p \<noteq> 0) bt_start 100;
        answer = (\<lambda>k. fold bt_ideal (take k es) Map.empty (bt_pc_in (es ! k)))
    in map answer [6, 7, 8, 9] = map Some [0x70000000, 0x70000004, 0x70000008, 0x7000000c] \<and>
       map answer [12, 14] = map Some [0x70000030, 0x70000038] \<and>
       map answer [18, 20] = map Some [0x70000050, 0x70000058])"
proof -
  have es: "edges_at bt_drive (\<lambda>p. bt_clk p \<noteq> 0) bt_start 100 = map bt_edge [0..<50]"
    using bt.edges [of 50] by simp
  let ?enter = "\<lambda>k m. case bt_entry k of None \<Rightarrow> m | Some e \<Rightarrow> m(fst e \<mapsto> snd e)"
  have answer: "fold bt_ideal (take k (map bt_edge [0..<50])) Map.empty (bt_pc_in (map bt_edge [0..<50] ! k)) =
      fold ?enter [0..<k] Map.empty (bt_pc_in (bt_edge k))" if "k < 50" for k
    using that by (simp add: fold_map comp_def bt_ideal_edge take_map)
  show ?thesis
    unfolding Let_def es list.map
    by (simp only: answer [of 6] answer [of 7] answer [of 8] answer [of 9] answer [of 12] answer [of 14]
          answer [of 18] answer [of 20] bt_upto rel_simps) (simp add: bt_edge_def bt_entry_def)
qed

text \<open>
  The addresses the two predictor benches compute stay below \<open>2 ^ 32\<close>, so the 32-bit additions of the
  source do not wrap.
\<close>

lemma predictor_addresses:
  "list_all (\<lambda>p. 0 \<le> gs_pc p \<and> gs_pc p < 2 ^ 32) (edges_at gs_drive (\<lambda>p. gs_clk p \<noteq> 0) gs_start (2 * 85))"
  "list_all (\<lambda>p. 0 \<le> bt_pc_in p \<and> bt_pc_in p < 2 ^ 32) (edges_at bt_drive (\<lambda>p. bt_clk p \<noteq> 0) bt_start (2 * 50))"
  unfolding gs.edges bt.edges by (auto simp: list_all_iff gs_edge_def bt_edge_def)

end
