(* ===== verification/Fu_Benches.thy ===== *)
theory Fu_Benches
  imports Directed Text_Format
begin

text \<open>
  The directed benches under \<open>src/fu/selftest\<close>: \<open>alu.cpp\<close>, \<open>md.cpp\<close> and \<open>fu.cpp\<close>. They assert nothing; they compare
  outputs with expected values and print. The lemmas say which messages a unit gets: the first two
  benches tell a right unit from a wrong one by what it answers, the third reports success in any case.
\<close>

section \<open>The ALU\<close>

record alu_pins =
  al_clk :: int
  al_rstn :: int
  al_wfi :: int
  al_trap :: int
  al_opr1_i :: int
  al_opr2_i :: int
  al_half_i :: int
  al_alu_function_select_i :: int
  al_function_modifier_i :: int
  al_rob_index_i :: int
  al_prd_addr_i :: int
  al_rcu_fu_alu_req_valid_i :: int
  al_cmp_function_select_i :: int
  al_is_jump_i :: int
  al_is_branch_i :: int
  al_pc_i :: int
  al_next_pc_i :: int
  al_cmp_input_a_i :: int
  al_cmp_input_b_i :: int

record alu_outs =
  al_alu_result_o :: int
  al_prd_addr_o :: int
  al_rob_index_o :: int
  al_fu_rcu_alu_resp_valid_o :: int
  al_is_branch_o :: int
  al_is_jump_o :: int
  al_pc_o :: int
  al_next_pc_o :: int

definition alu_start :: alu_pins where
  "alu_start =
     \<lparr>al_clk = 0, al_rstn = 0, al_wfi = 0, al_trap = 0, al_opr1_i = 0, al_opr2_i = 0, al_half_i = 0,
      al_alu_function_select_i = 0, al_function_modifier_i = 0, al_rob_index_i = 0, al_prd_addr_i = 0,
      al_rcu_fu_alu_req_valid_i = 0, al_cmp_function_select_i = 0, al_is_jump_i = 0, al_is_branch_i = 0,
      al_pc_i = 0, al_next_pc_i = 0, al_cmp_input_a_i = 0, al_cmp_input_b_i = 0\<rparr>"

definition alu_tick :: "nat \<Rightarrow> alu_pins \<Rightarrow> alu_pins" where
  "alu_tick t p = (if t mod 2 = 1 then p\<lparr>al_clk := 1\<rparr> else p\<lparr>al_clk := 0\<rparr>)"

text \<open>The operand \<open>-4\<close> is stored into a port of 64 bits.\<close>

definition alu_events :: "(nat \<times> (alu_pins \<Rightarrow> alu_pins)) list" where
  "alu_events =
    [(4, \<lambda>p. p\<lparr>al_pc_i := 20, al_next_pc_i := 24, al_opr1_i := 123, al_opr2_i := 456,
        al_alu_function_select_i := 0, al_rob_index_i := 3, al_prd_addr_i := 4,
        al_rcu_fu_alu_req_valid_i := 1\<rparr>),
     (6, \<lambda>p. p\<lparr>al_pc_i := 24, al_next_pc_i := 28, al_opr1_i := 24, al_opr2_i := 2 ^ 64 - 4,
        al_alu_function_select_i := 0, al_rob_index_i := 4, al_prd_addr_i := 0,
        al_rcu_fu_alu_req_valid_i := 1, al_is_jump_i := 0, al_is_branch_i := 1,
        al_cmp_input_a_i := 2, al_cmp_input_b_i := 3, al_cmp_function_select_i := 0\<rparr>)]"

definition alu_ok_6 :: "alu_outs \<Rightarrow> bool" where
  "alu_ok_6 ou \<longleftrightarrow>
     al_alu_result_o ou = 579 \<and> al_prd_addr_o ou = 4 \<and> al_rob_index_o ou = 3 \<and>
     al_fu_rcu_alu_resp_valid_o ou = 1 \<and> al_is_branch_o ou = 0 \<and> al_is_jump_o ou = 0 \<and>
     al_pc_o ou = 20 \<and> al_next_pc_o ou = 24"

definition alu_ok_8 :: "alu_outs \<Rightarrow> bool" where
  "alu_ok_8 ou \<longleftrightarrow>
     al_alu_result_o ou = 20 \<and> al_prd_addr_o ou = 0 \<and> al_rob_index_o ou = 4 \<and>
     al_fu_rcu_alu_resp_valid_o ou = 1 \<and> al_is_branch_o ou = 1 \<and> al_is_jump_o ou = 0 \<and>
     al_pc_o ou = 24 \<and> al_next_pc_o ou = 28"

definition alu_say :: "nat \<Rightarrow> alu_pins \<times> alu_outs \<Rightarrow> alu_pins \<times> alu_outs \<Rightarrow> string list" where
  "alu_say t before after =
     (if t = 6 \<and> \<not> alu_ok_6 (snd before) then [''!!!!WRONG in case 6'' @ [newline]] else []) @
     (if t = 8 \<and> \<not> alu_ok_8 (snd before) then [''FAULT IN CASE 8''] else []) @
     [''dump '' @ dec_nat t @ '' '' @ [newline]]"

definition alu_main ::
    "(alu_pins \<Rightarrow> 'd \<Rightarrow> 'd) \<Rightarrow> ('d \<Rightarrow> alu_outs) \<Rightarrow> alu_outs \<Rightarrow> 'd \<Rightarrow> (string list \<times> alu_pins \<times> alu_outs \<times> 'd) res" where
  "alu_main dut outp ou d =
     res_map (\<lambda>(ms, r). (ms @ [''DONE'' @ [newline]], r))
       (directed_run (\<lambda>t p. apply_events alu_events t (alu_tick t p)) (\<lambda>t ou. True) alu_say dut outp 10 0 alu_start ou d)"

section \<open>The multiplier and divider\<close>

record md_pins =
  md_clk :: int
  md_rst :: int
  md_trap :: int
  md_fu_md_prd_addr_i :: int
  md_fu_md_oprd1_i :: int
  md_fu_md_oprd2_i :: int
  md_fu_md_rob_index_i :: int
  md_fu_md_md_op_i :: int
  md_fu_md_muldiv_i :: int
  md_fu_md_req_valid_i :: int

record md_outs =
  md_fu_md_req_ready_o :: int
  md_md_fu_wrb_prd_addr_o :: int
  md_md_fu_wrb_rob_index_o :: int
  md_md_fu_wrb_data_o :: int
  md_md_fu_wrb_resp_valid_o :: int

definition md_start :: md_pins where
  "md_start =
     \<lparr>md_clk = 0, md_rst = 0, md_trap = 0, md_fu_md_prd_addr_i = 0, md_fu_md_oprd1_i = 0,
      md_fu_md_oprd2_i = 0, md_fu_md_rob_index_i = 0, md_fu_md_md_op_i = 0, md_fu_md_muldiv_i = 0,
      md_fu_md_req_valid_i = 0\<rparr>"

text \<open>The bench also stores 0 into the output ports before the loop.\<close>

definition md_out_start :: md_outs where
  "md_out_start =
     \<lparr>md_fu_md_req_ready_o = 0, md_md_fu_wrb_prd_addr_o = 0, md_md_fu_wrb_rob_index_o = 0,
      md_md_fu_wrb_data_o = 0, md_md_fu_wrb_resp_valid_o = 0\<rparr>"

definition md_tick :: "nat \<Rightarrow> md_pins \<Rightarrow> md_pins" where
  "md_tick t p = (if t mod 2 = 1 then p\<lparr>md_clk := 1\<rparr> else p\<lparr>md_clk := 0\<rparr>)"

definition md_events :: "(nat \<times> (md_pins \<Rightarrow> md_pins)) list" where
  "md_events =
    [(2, \<lambda>p. p\<lparr>md_rst := 1\<rparr>),
     (4, \<lambda>p. p\<lparr>md_rst := 0, md_fu_md_prd_addr_i := 2, md_fu_md_oprd1_i := 8, md_fu_md_oprd2_i := 4,
        md_fu_md_rob_index_i := 5, md_fu_md_md_op_i := 4, md_fu_md_muldiv_i := 1,
        md_fu_md_req_valid_i := 1\<rparr>),
     (6, \<lambda>p. p\<lparr>md_fu_md_req_valid_i := 0\<rparr>)]"

definition md_ok :: "md_outs \<Rightarrow> bool" where
  "md_ok ou \<longleftrightarrow> md_md_fu_wrb_prd_addr_o ou = 2 \<and> md_md_fu_wrb_rob_index_o ou = 5 \<and>
     md_md_fu_wrb_data_o ou = 2 \<and> md_md_fu_wrb_resp_valid_o ou = 1"

definition md_say :: "nat \<Rightarrow> md_pins \<times> md_outs \<Rightarrow> md_pins \<times> md_outs \<Rightarrow> string list" where
  "md_say t before after =
     (if md_md_fu_wrb_resp_valid_o (snd before) = 1 then
        if \<not> md_ok (snd before) then [''WRONG in Line 88  main_time '' @ dec_nat t @ [newline]]
        else [''Pass!!!'' @ [newline] @ ''main_time: '' @ dec_nat t @ [newline] @ '' '']
      else [])"

definition md_main ::
    "(md_pins \<Rightarrow> 'd \<Rightarrow> 'd) \<Rightarrow> ('d \<Rightarrow> md_outs) \<Rightarrow> 'd \<Rightarrow> (string list \<times> md_pins \<times> md_outs \<times> 'd) res" where
  "md_main dut outp d =
     res_map (\<lambda>(ms, r). (ms @ [''DONE'' @ [newline]], r))
       (directed_run (\<lambda>t p. apply_events md_events t (md_tick t p)) (\<lambda>t ou. True) md_say dut outp
          200 0 md_start md_out_start d)"

section \<open>The functional unit\<close>

text \<open>The statements for the two \<open>next_pc_i\<close> ports are comma expressions that store nothing.\<close>

record fu_pins =
  fu_clk :: int
  fu_rstn :: int
  fu_wfi :: int
  fu_trap :: int
  fu_rcu_fu_alu1_rob_index_i :: int
  fu_rcu_fu_alu2_rob_index_i :: int
  fu_rcu_fu_alu1_prd_addr_i :: int
  fu_rcu_fu_alu2_prd_addr_i :: int
  fu_rcu_fu_alu1_is_branch_i :: int
  fu_rcu_fu_alu2_is_branch_i :: int
  fu_rcu_fu_alu1_is_jump_i :: int
  fu_rcu_fu_alu2_is_jump_i :: int
  fu_rcu_fu_alu1_req_valid_i :: int
  fu_rcu_fu_alu2_req_valid_i :: int
  fu_rcu_fu_alu1_half_i :: int
  fu_rcu_fu_alu2_half_i :: int
  fu_rcu_fu_alu1_pc_i :: int
  fu_rcu_fu_alu2_pc_i :: int
  fu_rcu_fu_alu1_func3_i :: int
  fu_rcu_fu_alu2_func3_i :: int
  fu_rcu_fu_alu1_func_modifier_i :: int
  fu_rcu_fu_alu2_func_modifier_i :: int
  fu_rcu_fu_alu1_next_pc_i :: int
  fu_rcu_fu_alu2_next_pc_i :: int
  fu_rcu_fu_alu1_rs1_i :: int
  fu_rcu_fu_alu2_rs1_i :: int
  fu_rcu_fu_alu1_rs2_i :: int
  fu_rcu_fu_alu2_rs2_i :: int
  fu_rcu_fu_alu1_imm_data_i :: int
  fu_rcu_fu_alu1_opr1_sel_i :: int
  fu_rcu_fu_alu2_opr1_sel_i :: int
  fu_rcu_fu_alu1_opr2_sel_i :: int
  fu_rcu_fu_alu2_opr2_sel_i :: int
  fu_rcu_fu_alu1_predict_pc_i :: int

record fu_outs =
  fu_fu_rcu_alu1_resp_valid_o :: int
  fu_fu_rcu_alu2_resp_valid_o :: int
  fu_fu_rcu_alu1_wrb_rob_index_o :: int
  fu_fu_rcu_alu2_wrb_rob_index_o :: int
  fu_fu_rcu_alu1_wrb_enable_o :: int
  fu_fu_rcu_alu2_wrb_enable_o :: int
  fu_fu_rcu_alu2_wrb_prd_addr_o :: int
  fu_fu_rcu_alu1_wrb_data_o :: int
  fu_fu_rcu_alu2_wrb_data_o :: int

definition fu_start :: fu_pins where
  "fu_start =
     \<lparr>fu_clk = 0, fu_rstn = 0, fu_wfi = 0, fu_trap = 0, fu_rcu_fu_alu1_rob_index_i = 0,
      fu_rcu_fu_alu2_rob_index_i = 0, fu_rcu_fu_alu1_prd_addr_i = 0, fu_rcu_fu_alu2_prd_addr_i = 0,
      fu_rcu_fu_alu1_is_branch_i = 0, fu_rcu_fu_alu2_is_branch_i = 0, fu_rcu_fu_alu1_is_jump_i = 0,
      fu_rcu_fu_alu2_is_jump_i = 0, fu_rcu_fu_alu1_req_valid_i = 0, fu_rcu_fu_alu2_req_valid_i = 0,
      fu_rcu_fu_alu1_half_i = 0, fu_rcu_fu_alu2_half_i = 0, fu_rcu_fu_alu1_pc_i = 0,
      fu_rcu_fu_alu2_pc_i = 0, fu_rcu_fu_alu1_func3_i = 0, fu_rcu_fu_alu2_func3_i = 0,
      fu_rcu_fu_alu1_func_modifier_i = 0, fu_rcu_fu_alu2_func_modifier_i = 0, fu_rcu_fu_alu1_next_pc_i = 0,
      fu_rcu_fu_alu2_next_pc_i = 0, fu_rcu_fu_alu1_rs1_i = 0, fu_rcu_fu_alu2_rs1_i = 0,
      fu_rcu_fu_alu1_rs2_i = 0, fu_rcu_fu_alu2_rs2_i = 0, fu_rcu_fu_alu1_imm_data_i = 0,
      fu_rcu_fu_alu1_opr1_sel_i = 0, fu_rcu_fu_alu2_opr1_sel_i = 0, fu_rcu_fu_alu1_opr2_sel_i = 0,
      fu_rcu_fu_alu2_opr2_sel_i = 0, fu_rcu_fu_alu1_predict_pc_i = 0\<rparr>"

definition fu_tick :: "nat \<Rightarrow> fu_pins \<Rightarrow> fu_pins" where
  "fu_tick t p = (if t mod 2 = 1 then p\<lparr>fu_clk := 1\<rparr> else p\<lparr>fu_clk := 0\<rparr>)"

definition fu_events :: "(nat \<times> (fu_pins \<Rightarrow> fu_pins)) list" where
  "fu_events =
    [(4, \<lambda>p. p\<lparr>fu_rcu_fu_alu1_rs1_i := 10, fu_rcu_fu_alu2_rs1_i := 235, fu_rcu_fu_alu1_rs2_i := 6,
        fu_rcu_fu_alu2_rs2_i := 568, fu_rcu_fu_alu1_imm_data_i := 10,
        fu_rcu_fu_alu1_opr1_sel_i := 2, fu_rcu_fu_alu2_opr1_sel_i := 0,
        fu_rcu_fu_alu1_opr2_sel_i := 1, fu_rcu_fu_alu2_opr2_sel_i := 0,
        fu_rcu_fu_alu1_rob_index_i := 4, fu_rcu_fu_alu2_rob_index_i := 3,
        fu_rcu_fu_alu2_prd_addr_i := 1, fu_rcu_fu_alu1_is_branch_i := 1,
        fu_rcu_fu_alu2_is_branch_i := 0, fu_rcu_fu_alu1_is_jump_i := 0,
        fu_rcu_fu_alu2_is_jump_i := 0, fu_rcu_fu_alu1_req_valid_i := 1,
        fu_rcu_fu_alu2_req_valid_i := 1, fu_rcu_fu_alu1_pc_i := 5, fu_rcu_fu_alu2_pc_i := 6,
        fu_rcu_fu_alu1_next_pc_i := 7, fu_rcu_fu_alu2_next_pc_i := 8, fu_rcu_fu_alu1_func3_i := 0,
        fu_rcu_fu_alu2_func3_i := 0, fu_rcu_fu_alu1_predict_pc_i := 15\<rparr>)]"

text \<open>
  The last conjunct of the source reads the global variable \<open>fu_rcu_alu1_branch_predict_miss_o\<close>, not the
  port of that name; nothing assigns the variable, so it is the argument \<open>0\<close> here.
\<close>

definition fu_ok :: "int \<Rightarrow> fu_outs \<Rightarrow> bool" where
  "fu_ok miss ou \<longleftrightarrow>
     fu_fu_rcu_alu1_resp_valid_o ou = 1 \<and> fu_fu_rcu_alu2_resp_valid_o ou = 1 \<and>
     fu_fu_rcu_alu1_wrb_rob_index_o ou = 4 \<and> fu_fu_rcu_alu2_wrb_rob_index_o ou = 3 \<and>
     fu_fu_rcu_alu1_wrb_enable_o ou = 0 \<and> fu_fu_rcu_alu2_wrb_enable_o ou = 1 \<and>
     fu_fu_rcu_alu2_wrb_prd_addr_o ou = 1 \<and> fu_fu_rcu_alu1_wrb_data_o ou = 15 \<and>
     fu_fu_rcu_alu2_wrb_data_o ou = 803 \<and> miss = 0"

definition fu_say :: "nat \<Rightarrow> fu_pins \<times> fu_outs \<Rightarrow> fu_pins \<times> fu_outs \<Rightarrow> string list" where
  "fu_say t before after =
     (if t = 6 then (if \<not> fu_ok 0 (snd before) then [''FAILED: Case 6''] else []) @ [''PASS!  Case 6''] else [])"

definition fu_main ::
    "(fu_pins \<Rightarrow> 'd \<Rightarrow> 'd) \<Rightarrow> ('d \<Rightarrow> fu_outs) \<Rightarrow> fu_outs \<Rightarrow> 'd \<Rightarrow> (string list \<times> fu_pins \<times> fu_outs \<times> 'd) res" where
  "fu_main dut outp ou d =
     res_map (\<lambda>(ms, r). (ms @ [''DONE'' @ [newline]], r))
       (directed_run (\<lambda>t p. apply_events fu_events t (fu_tick t p)) (\<lambda>t ou. True) fu_say dut outp 10 0 fu_start ou d)"

section \<open>The schedules\<close>

definition fast_ctl :: "nat \<Rightarrow> int \<times> int" where
  "fast_ctl t = (fast_level t, 0)"

lemma fast_ctl_edge: "(fst (fast_ctl t) \<noteq> 0 \<and> (t = 0 \<or> fst (fast_ctl (t - 1)) = 0)) \<longleftrightarrow> odd t"
  using fast_level_edge by (simp add: fast_ctl_def)

interpretation alu: schedule alu_tick alu_events alu_start "\<lambda>p. (al_clk p, al_rstn p)"
  "\<lambda>p. p\<lparr>al_clk := 0, al_rstn := 0\<rparr>" "\<lambda>(c, r) p. p\<lparr>al_clk := c, al_rstn := r\<rparr>" fast_ctl
proof (unfold_locales, goal_cases)
  case (3 e p)
  then show ?case by (auto simp: alu_events_def)
next
  case (6 e p)
  then show ?case by (auto simp: alu_events_def)
qed (simp_all add: alu_tick_def alu_start_def fast_ctl_def fast_level_def)

interpretation md: schedule md_tick md_events md_start "\<lambda>p. (md_clk p, md_trap p)"
  "\<lambda>p. p\<lparr>md_clk := 0, md_trap := 0\<rparr>" "\<lambda>(c, r) p. p\<lparr>md_clk := c, md_trap := r\<rparr>" fast_ctl
proof (unfold_locales, goal_cases)
  case (3 e p)
  then show ?case by (auto simp: md_events_def)
next
  case (6 e p)
  then show ?case by (auto simp: md_events_def)
qed (simp_all add: md_tick_def md_start_def fast_ctl_def fast_level_def)

interpretation fu: schedule fu_tick fu_events fu_start "\<lambda>p. (fu_clk p, fu_rstn p)"
  "\<lambda>p. p\<lparr>fu_clk := 0, fu_rstn := 0\<rparr>" "\<lambda>(c, r) p. p\<lparr>fu_clk := c, fu_rstn := r\<rparr>" fast_ctl
proof (unfold_locales, goal_cases)
  case (3 e p)
  then show ?case by (auto simp: fu_events_def)
next
  case (6 e p)
  then show ?case by (auto simp: fu_events_def)
qed (simp_all add: fu_tick_def fu_start_def fast_ctl_def fast_level_def)

section \<open>The verdicts\<close>

lemma odd_rounds: "filter odd [0..<6] = [1, 3, 5::nat]" "filter odd [0..<8] = [1, 3, 5, 7::nat]"
  by code_simp+

text \<open>The operations the ALU is offered: an addition from round 4, a branch from round 6.\<close>

definition alu_add :: alu_pins where
  "alu_add = alu_start\<lparr>al_clk := 1, al_pc_i := 20, al_next_pc_i := 24, al_opr1_i := 123, al_opr2_i := 456,
     al_rob_index_i := 3, al_prd_addr_i := 4, al_rcu_fu_alu_req_valid_i := 1\<rparr>"

definition alu_branch :: alu_pins where
  "alu_branch = alu_start\<lparr>al_clk := 1, al_pc_i := 24, al_next_pc_i := 28, al_opr1_i := 24, al_opr2_i := 2 ^ 64 - 4,
     al_rob_index_i := 4, al_rcu_fu_alu_req_valid_i := 1, al_is_branch_i := 1, al_cmp_input_a_i := 2, al_cmp_input_b_i := 3\<rparr>"

lemma alu_events_sorted: "sort_key fst alu_events = alu_events"
  by (rule sort_key_id_if_sorted) (simp add: alu_events_def)

lemma alu_seen:
  "seen_at (\<lambda>t p. apply_events alu_events t (alu_tick t p)) (\<lambda>p. al_clk p \<noteq> 0) step out alu_start o0 s 6 =
     out alu_add (fold step [alu_start\<lparr>al_clk := 1\<rparr>, alu_start\<lparr>al_clk := 1\<rparr>, alu_add] s)"
  "seen_at (\<lambda>t p. apply_events alu_events t (alu_tick t p)) (\<lambda>p. al_clk p \<noteq> 0) step out alu_start o0 s 8 =
     out alu_branch (fold step [alu_start\<lparr>al_clk := 1\<rparr>, alu_start\<lparr>al_clk := 1\<rparr>, alu_add, alu_branch] s)"
proof -
  let ?D = "\<lambda>t p. apply_events alu_events t (alu_tick t p)"
  have pins: "pins_at ?D alu_start (Suc 1) = alu_start\<lparr>al_clk := 1\<rparr>" "pins_at ?D alu_start (Suc 3) = alu_start\<lparr>al_clk := 1\<rparr>"
      "pins_at ?D alu_start (Suc 5) = alu_add" "pins_at ?D alu_start (Suc 7) = alu_branch"
    unfolding alu.pins alu_events_sorted
    by (simp_all add: alu_events_def fast_ctl_def fast_level_def alu_start_def alu_add_def alu_branch_def)
  show "seen_at ?D (\<lambda>p. al_clk p \<noteq> 0) step out alu_start o0 s 6 =
      out alu_add (fold step [alu_start\<lparr>al_clk := 1\<rparr>, alu_start\<lparr>al_clk := 1\<rparr>, alu_add] s)"
    "seen_at ?D (\<lambda>p. al_clk p \<noteq> 0) step out alu_start o0 s 8 =
      out alu_branch (fold step [alu_start\<lparr>al_clk := 1\<rparr>, alu_start\<lparr>al_clk := 1\<rparr>, alu_add, alu_branch] s)"
    unfolding seen_at_def alu.edges [unfolded fst_conv] fast_ctl_edge odd_rounds list.map pins
    using pins(3,4) by simp_all
qed

lemma alu_say_messages:
  "''!!!!WRONG in case 6'' @ [newline] \<in> set (alu_say t b a) \<longleftrightarrow> t = 6 \<and> \<not> alu_ok_6 (snd b)"
  "''FAULT IN CASE 8'' \<in> set (alu_say t b a) \<longleftrightarrow> t = 8 \<and> \<not> alu_ok_8 (snd b)"
  by (simp_all add: alu_say_def)

text \<open>
  The ALU bench ends on every unit, and complains about the sum or about the branch exactly when the unit's answers
  to them are not the expected ones.
\<close>

theorem alu_verdict:
  "\<exists>ms r. alu_main (sync_unit (\<lambda>p. al_clk p \<noteq> 0) step) (\<lambda>(q, s). out q s) o0 (alu_start, s) = Inr (ms, r) \<and>
     (''!!!!WRONG in case 6'' @ [newline] \<notin> set ms \<longleftrightarrow>
        alu_ok_6 (out alu_add (fold step [alu_start\<lparr>al_clk := 1\<rparr>, alu_start\<lparr>al_clk := 1\<rparr>, alu_add] s))) \<and>
     (''FAULT IN CASE 8'' \<notin> set ms \<longleftrightarrow>
        alu_ok_8 (out alu_branch (fold step [alu_start\<lparr>al_clk := 1\<rparr>, alu_start\<lparr>al_clk := 1\<rparr>, alu_add, alu_branch] s)))"
  unfolding alu_main_def directed_run_closed
  by (simp add: alu_say_messages [simplified append.simps] alu_seen del: pins_at.simps)

text \<open>
  The bench of the multiplier and divider offers the division of 8 by 4 in one cycle and judges every
  answer: it complains exactly when an answer is not the expected one. A unit that never answers gets no
  complaint.
\<close>

lemma md_say_wrong:
  "(\<exists>m\<in>set (md_say t b a). take 5 m = ''WRONG'') \<longleftrightarrow> md_md_fu_wrb_resp_valid_o (snd b) = 1 \<and> \<not> md_ok (snd b)"
  by (simp add: md_say_def)

theorem md_verdict:
  "\<exists>ms r. md_main (sync_unit (\<lambda>p. md_clk p \<noteq> 0) step) (\<lambda>(q, s). out q s) (md_start, s) = Inr (ms, r) \<and>
     ((\<exists>m\<in>set ms. take 5 m = ''WRONG'') \<longleftrightarrow>
      (\<exists>t<200. let ou = seen_at (\<lambda>t p. apply_events md_events t (md_tick t p)) (\<lambda>p. md_clk p \<noteq> 0) step out
                           md_start md_out_start s t
               in md_md_fu_wrb_resp_valid_o ou = 1 \<and> \<not> md_ok ou))"
proof -
  have "(\<exists>m\<in>set (concat (map f [0..<n]) @ [''DONE'' @ [newline]]). take 5 m = ''WRONG'') \<longleftrightarrow>
      (\<exists>t<n. \<exists>m\<in>set (f t). take 5 m = ''WRONG'')" for f :: "nat \<Rightarrow> string list" and n
    by auto
  then show ?thesis
    unfolding md_main_def directed_run_closed
    by (simp add: md_say_wrong Let_def del: pins_at.simps set_append bex_simps)
qed

text \<open>The rounds in which the divider is asked: at the rising edge of round 5 only.\<close>

lemma md_request:
  "md_fu_md_req_valid_i (pins_at (\<lambda>t p. apply_events md_events t (md_tick t p)) md_start (Suc t)) =
   (if t = 4 \<or> t = 5 then 1 else 0)"
proof -
  have sorted: "sort_key fst md_events = md_events"
    by (rule sort_key_id_if_sorted) (simp add: md_events_def)
  have "md_fu_md_req_valid_i (fold snd (filter (\<lambda>e. fst e \<le> t) md_events) md_start) = (if t = 4 \<or> t = 5 then 1 else 0)"
    by (auto simp: md_events_def md_start_def)
  then show ?thesis
    unfolding md.pins sorted by (simp add: case_prod_beta)
qed

text \<open>
  The bench of the functional unit prints that case 6 passed for every unit, whatever it prints before; it complains
  exactly when one of the nine ports it reads is wrong.
\<close>

lemma fu_say_messages:
  "''PASS!  Case 6'' \<in> set (fu_say t b a) \<longleftrightarrow> t = 6"
  "''FAILED: Case 6'' \<in> set (fu_say t b a) \<longleftrightarrow> t = 6 \<and> \<not> fu_ok 0 (snd b)"
  by (simp_all add: fu_say_def)

theorem fu_always_passes:
  "\<exists>ms r. fu_main (sync_unit (\<lambda>p. fu_clk p \<noteq> 0) step) (\<lambda>(q, s). out q s) o0 (fu_start, s) = Inr (ms, r) \<and>
     ''PASS!  Case 6'' \<in> set ms \<and>
     (''FAILED: Case 6'' \<in> set ms \<longleftrightarrow>
      \<not> fu_ok 0 (seen_at (\<lambda>t p. apply_events fu_events t (fu_tick t p)) (\<lambda>p. fu_clk p \<noteq> 0) step out fu_start o0 s 6))"
  unfolding fu_main_def directed_run_closed
  by (simp add: fu_say_messages del: pins_at.simps)

end
