(* ===== verification/Decode_Bench.thy ===== *)
theory Decode_Bench
  imports Directed Text_Format
begin

text \<open>
  The bench of the decoder, \<open>sim/selfcheck/decode.cpp\<close>: it reads 43 instructions as hexadecimal text and
  drives them, one per cycle, into the unit. The lemmas show that a file of instructions in the usual
  format reaches the unit unchanged, followed by one cycle with the instruction 0.
\<close>

section \<open>Reading the file\<close>

text \<open>\<open>infile >> c\<close> skips white space; at the end of the file it leaves \<open>c\<close> as it is.\<close>

definition get_char :: "char \<times> string \<Rightarrow> char \<times> string" where
  "get_char = (\<lambda>(c, file). case dropWhile is_space file of [] \<Rightarrow> (c, []) | x # xs \<Rightarrow> (x, xs))"

definition digit_of :: "char \<Rightarrow> u32" where
  "digit_of c =
     (if 48 \<le> (of_char c :: nat) \<and> of_char c \<le> (57 :: nat) then of_char c - 48
      else if 97 \<le> (of_char c :: nat) \<and> of_char c \<le> (102 :: nat) then (of_char c - 97) + 10 else 0)"

text \<open>The inner loop, \<open>n\<close> characters into one word, and the outer loop.\<close>

fun read_word :: "nat \<Rightarrow> u32 \<Rightarrow> char \<times> string \<Rightarrow> u32 \<times> char \<times> string" where
  "read_word 0 w f = (w, f)"
| "read_word (Suc n) w f = (let f' = get_char f in read_word n (w * 16 + digit_of (fst f')) f')"

fun read_words :: "nat \<Rightarrow> char \<times> string \<Rightarrow> u32 list \<times> char \<times> string" where
  "read_words 0 f = ([], f)"
| "read_words (Suc n) f =
     (let (w, f') = read_word 8 0 f; (ws, f'') = read_words n f' in (w # ws, f''))"

text \<open>The array of 100 words, of which the loops fill the first 43.\<close>

definition instruction_array :: "char \<Rightarrow> string \<Rightarrow> u32 list" where
  "instruction_array c file = fst (read_words 43 (c, file)) @ replicate 57 0"

section \<open>Driving the unit\<close>

record decode_pins =
  dc_clk :: int
  dc_instruction_in :: u32

text \<open>The loop over the simulated time, which advances by half a cycle twice in every round.\<close>

function decode_loop ::
    "(decode_pins \<Rightarrow> 'd \<Rightarrow> 'd) \<Rightarrow> u32 list \<Rightarrow> nat \<Rightarrow> nat \<Rightarrow> decode_pins \<Rightarrow> 'd \<Rightarrow> (decode_pins \<times> 'd) res" where
  "decode_loop dut arr now time p d =
     (if now < 440 then
        if time < length arr then
          let p1 = p\<lparr>dc_instruction_in := arr ! time, dc_clk := 1\<rparr>;
              p2 = p1\<lparr>dc_clk := 0\<rparr>
          in decode_loop dut arr (now + 5 + 5) (time + 1) p2 (dut p2 (dut p1 d))
        else Inl (Undefined ''instruction_array'')
      else Inr (p, d))"
  by pat_completeness auto
termination
  by (relation "measure (\<lambda>(_, _, now, _). 440 - now)") auto

declare decode_loop.simps [simp del]

definition decode_main :: "(decode_pins \<Rightarrow> 'd \<Rightarrow> 'd) \<Rightarrow> char \<Rightarrow> string \<Rightarrow> 'd \<Rightarrow> (decode_pins \<times> 'd) res" where
  "decode_main dut c file d =
     (let p = \<lparr>dc_clk = 0, dc_instruction_in = 0\<rparr>
      in decode_loop dut (instruction_array c file) 5 0 p (dut p d))"

section \<open>The file of instructions\<close>

text \<open>Eight lower-case hexadecimal digits.\<close>

fun hex_low :: "nat \<Rightarrow> nat \<Rightarrow> string" where
  "hex_low 0 x = []"
| "hex_low (Suc k) x = hex_low k (x div 16) @ [hex_digit (x mod 16)]"

definition hex8 :: "u32 \<Rightarrow> string" where
  "hex8 w = hex_low 8 (unat w)"

lemma hex_digit_props:
  assumes "n < 16"
  shows "\<not> is_space (hex_digit n)" and "digit_of (hex_digit n) = of_nat n"
proof -
  have "\<forall>n\<in>set [0..<16]. \<not> is_space (hex_digit n) \<and> digit_of (hex_digit n) = of_nat n"
    by code_simp
  then show "\<not> is_space (hex_digit n)" and "digit_of (hex_digit n) = of_nat n"
    using assms by simp_all
qed

lemma get_char_skip:
  "list_all is_space sp \<Longrightarrow> get_char (c, sp @ rest) = get_char (c, rest)"
  by (simp add: get_char_def list_all_iff dropWhile_append2)

lemma get_char_digit: "n < 16 \<Longrightarrow> get_char (c, hex_digit n # rest) = (hex_digit n, rest)"
  by (simp add: get_char_def hex_digit_props)

lemma read_word_append:
  "read_word (m + n) w f = (case read_word m w f of (w', f') \<Rightarrow> read_word n w' f')"
  by (induction m arbitrary: w f) (simp_all add: Let_def)

text \<open>Reading the digits of a number gives the number.\<close>

lemma read_word_hex_low:
  assumes "x < 16 ^ k"
  shows "\<exists>c'. read_word k w (c, hex_low k x @ rest) = (w * 16 ^ k + of_nat x, c', rest)"
  using assms
proof (induction k arbitrary: x rest)
  case (Suc k)
  then have "x div 16 < 16 ^ k"
    by (simp add: less_mult_imp_div_less mult.commute)
  then obtain c' where "read_word k w (c, hex_low k (x div 16) @ hex_digit (x mod 16) # rest) =
      (w * 16 ^ k + of_nat (x div 16), c', hex_digit (x mod 16) # rest)"
    using Suc.IH by blast
  moreover have "(w * 16 ^ k + of_nat (x div 16)) * 16 + of_nat (x mod 16) = w * 16 ^ Suc k + of_nat x"
  proof -
    have "of_nat x = (of_nat (x div 16 * 16 + x mod 16) :: u32)"
      by simp
    then show ?thesis
      by (simp only: of_nat_add of_nat_mult) (simp add: algebra_simps)
  qed
  ultimately show ?case
    using read_word_append [of k 1 w "(c, hex_low (Suc k) x @ rest)"]
    by (simp add: get_char_digit hex_digit_props)
qed simp

text \<open>White space before a word does not matter.\<close>

lemma read_word_skip: "list_all is_space sp \<Longrightarrow> read_word (Suc n) w (c, sp @ rest) = read_word (Suc n) w (c, rest)"
  by (simp add: get_char_skip)

lemma read_word_hex8:
  assumes "list_all is_space sp"
  shows "\<exists>c'. read_word 8 0 (c, sp @ hex8 w @ rest) = (w, c', rest)"
proof -
  have "unat w < 16 ^ 8"
    using unsigned_less [of w] by simp
  then obtain c' where word: "read_word 8 0 (c, hex8 w @ rest) = (w, c', rest)"
    using read_word_hex_low [of "unat w" 8 0 c rest] by (auto simp: hex8_def)
  have eight: "Suc 7 = 8" by simp
  have "read_word 8 0 (c, sp @ hex8 w @ rest) = read_word 8 0 (c, hex8 w @ rest)"
    using read_word_skip [OF assms, of 7 0 c "hex8 w @ rest"] by (simp only: eight)
  with word show ?thesis
    by simp
qed

lemma read_words_hex8:
  assumes "list_all (\<lambda>l. list_all is_space (fst l)) ls"
  shows "\<exists>c'. read_words (length ls) (c, concat (map (\<lambda>(sp, w). sp @ hex8 w) ls) @ rest) = (map snd ls, c', rest)"
  using assms
proof (induction ls arbitrary: c)
  case (Cons l ls)
  obtain sp w where l: "l = (sp, w)" by force
  obtain c1 where word: "read_word 8 0 (c, sp @ hex8 w @ concat (map (\<lambda>(sp, w). sp @ hex8 w) ls) @ rest) =
      (w, c1, concat (map (\<lambda>(sp, w). sp @ hex8 w) ls) @ rest)"
    using read_word_hex8 [of sp] Cons.prems l by fastforce
  obtain c2 where "read_words (length ls) (c1, concat (map (\<lambda>(sp, w). sp @ hex8 w) ls) @ rest) = (map snd ls, c2, rest)"
    using Cons by auto
  with word show ?case
    by (simp add: l)
qed simp

section \<open>What the unit sees\<close>

text \<open>The loop makes 44 rounds: the cycles start at the times \<open>5, 15, \<dots>, 435\<close>.\<close>

lemma decode_loop_edges:
  assumes "time + n \<le> length arr" "now + 10 * n = 445" "dc_clk p = 0"
  shows "\<exists>p'. decode_loop (sync_unit (\<lambda>p. dc_clk p \<noteq> 0) step) arr now time p (p, s) =
    Inr (p', p', fold step (map (\<lambda>w. \<lparr>dc_clk = 1, dc_instruction_in = w\<rparr>) (take n (drop time arr))) s)"
  using assms
proof (induction n arbitrary: now time p s)
  case 0
  then show ?case by (simp add: decode_loop.simps)
next
  case (Suc n)
  then have "now < 440" "time < length arr" by simp_all
  let ?p1 = "\<lparr>dc_clk = 1, dc_instruction_in = arr ! time\<rparr>" and ?p2 = "\<lparr>dc_clk = 0, dc_instruction_in = arr ! time\<rparr>"
  have p1: "p\<lparr>dc_instruction_in := arr ! time, dc_clk := 1\<rparr> = ?p1"
    by (cases p) simp
  have unit: "sync_unit (\<lambda>p. dc_clk p \<noteq> 0) step ?p2 (sync_unit (\<lambda>p. dc_clk p \<noteq> 0) step ?p1 (p, s)) = (?p2, step ?p1 s)"
    using Suc.prems(3) by (simp add: sync_unit_def)
  have "decode_loop (sync_unit (\<lambda>p. dc_clk p \<noteq> 0) step) arr now time p (p, s) =
      decode_loop (sync_unit (\<lambda>p. dc_clk p \<noteq> 0) step) arr (now + 5 + 5) (time + 1) ?p2 (?p2, step ?p1 s)"
    using \<open>now < 440\<close> \<open>time < length arr\<close> unit by (subst decode_loop.simps) (simp add: Let_def p1)
  moreover have "take (Suc n) (drop time arr) = arr ! time # take n (drop (time + 1) arr)"
    using \<open>time < length arr\<close> by (simp add: Cons_nth_drop_Suc [symmetric])
  moreover have "time + 1 + n \<le> length arr" "now + 5 + 5 + 10 * n = 445"
    using Suc.prems(1,2) by simp_all
  ultimately show ?case
    using Suc.IH [of "time + 1" "now + 5 + 5" ?p2 "step ?p1 s"] by simp
qed

text \<open>
  C24. A file of 43 instructions, each of eight digits, with any white space between them and any text
  after them, reaches the registers of the unit instruction by instruction; the bench then drives one
  cycle with the instruction 0. It never reads outside the array.
\<close>

theorem decode_roundtrip:
  assumes "length ls = 43" "list_all (\<lambda>l. list_all is_space (fst l)) ls"
  shows "\<exists>p. decode_main (sync_unit (\<lambda>p. dc_clk p \<noteq> 0) step) c
        (concat (map (\<lambda>(sp, w). sp @ hex8 w) ls) @ rest) (\<lparr>dc_clk = 0, dc_instruction_in = 0\<rparr>, s) =
      Inr (p, p, fold step (map (\<lambda>w. \<lparr>dc_clk = 1, dc_instruction_in = w\<rparr>) (map snd ls @ [0])) s)"
proof -
  let ?arr = "instruction_array c (concat (map (\<lambda>(sp, w). sp @ hex8 w) ls) @ rest)"
  have arr: "?arr = map snd ls @ replicate 57 0"
    using read_words_hex8 [OF assms(2), of c rest] assms(1) by (auto simp: instruction_array_def)
  have "take 44 ?arr = map snd ls @ [0]"
    using assms(1) by (simp add: arr take_Cons')
  moreover have "length ?arr = 100"
    using assms(1) by (simp add: arr)
  ultimately show ?thesis
    using decode_loop_edges [of 0 44 ?arr 5 "\<lparr>dc_clk = 0, dc_instruction_in = 0\<rparr>" step s]
    unfolding decode_main_def by (simp add: sync_unit_def Let_def)
qed

theorem decode_roundtrip_witness:
  "length (replicate 43 ([newline], 0x13 :: u32)) = 43 \<and>
   list_all (\<lambda>l. list_all is_space (fst l)) (replicate 43 ([newline], 0x13 :: u32)) \<and>
   (\<exists>p. decode_main (sync_unit (\<lambda>p. dc_clk p \<noteq> 0) (\<lambda>p ws. ws @ [dc_instruction_in p])) newline
        (concat (map (\<lambda>(sp, w). sp @ hex8 w) (replicate 43 ([newline], 0x13))) @ []) (\<lparr>dc_clk = 0, dc_instruction_in = 0\<rparr>, []) =
      Inr (p, p, fold (\<lambda>p ws. ws @ [dc_instruction_in p])
        (map (\<lambda>w. \<lparr>dc_clk = 1, dc_instruction_in = w\<rparr>) (map snd (replicate 43 ([newline], 0x13)) @ [0])) []))"
proof -
  have "length (replicate 43 ([newline], 0x13 :: u32)) = 43"
    and "list_all (\<lambda>l. list_all is_space (fst l)) (replicate 43 ([newline], 0x13 :: u32))"
    by (simp_all add: list_all_iff is_space_def newline_def)
  with decode_roundtrip [OF this, of "\<lambda>p ws. ws @ [dc_instruction_in p]" newline "[]" "[]"] show ?thesis by simp
qed

end
