(* ===== verification/Program_Load.thy ===== *)
theory Program_Load
  imports Magic_Memory
begin

unbundle bit_operations_syntax

text \<open>
  The loader, the memory handlers and the instruction bus of \<open>sim/memory.cpp\<close> together: the words of
  an ELF file are what the core fetches. The memory is set up as the simulator does it.
\<close>

section \<open>Programs\<close>

text \<open>
  A program header that is loaded as a whole: its file chunk is a whole number of words \<open>raw\<close>, at
  word \<open>off\<close> of a region of \<open>words\<close> words.
\<close>

definition segment_at :: "elf_file \<Rightarrow> u32 \<Rightarrow> nat \<Rightarrow> elf_phdr \<Rightarrow> nat \<Rightarrow> u32 list \<Rightarrow> bool" where
  "segment_at f start words ph off raw \<longleftrightarrow>
     ef_rawchunk f (p_offset ph) (p_filesz ph) = Some raw \<and> raw \<noteq> [] \<and>
     unat (p_paddr ph) = unat start + 4 * off \<and> unat (p_filesz ph) = 4 * length raw \<and> off + length raw \<le> words"

text \<open>An executable of \<open>n\<close> program headers \<open>ph\<close>, those to be loaded at \<open>seg\<close>.\<close>

definition program :: "elf_file \<Rightarrow> u32 \<Rightarrow> nat \<Rightarrow> nat \<Rightarrow> (nat \<Rightarrow> elf_phdr) \<Rightarrow> (nat \<Rightarrow> nat \<times> u32 list) \<Rightarrow> bool" where
  "program f start words n ph seg \<longleftrightarrow>
     ef_open f \<and> ef_version f \<and> ef_begin f \<and> ef_kind_elf f \<and> ef_ehdr f = Some (True, True, True) \<and>
     ef_phnum f = Some n \<and>
     (\<forall>i<n. ef_phdr f i = Some (ph i) \<and>
        (p_load (ph i) \<longrightarrow> segment_at f start words (ph i) (fst (seg i)) (snd (seg i))))"

definition covers :: "nat \<times> u32 list \<Rightarrow> nat \<Rightarrow> bool" where
  "covers s k \<longleftrightarrow> fst s \<le> k \<and> k < fst s + length (snd s)"

definition place :: "(nat \<Rightarrow> elf_phdr) \<Rightarrow> (nat \<Rightarrow> nat \<times> u32 list) \<Rightarrow> nat \<Rightarrow> u32 list \<Rightarrow> u32 list" where
  "place ph seg i data = (if p_load (ph i) then or_words (fst (seg i)) (snd (seg i)) data else data)"

section \<open>Loading\<close>

lemma length_or_words [simp]: "length (or_words off raw data) = length data"
  by (simp add: or_words_def)

lemma length_place [simp]: "length (place ph seg i data) = length data"
  by (simp add: place_def)

lemma nth_place:
  "k < length data \<Longrightarrow> place ph seg i data ! k =
     (if p_load (ph i) \<and> covers (seg i) k then data ! k OR snd (seg i) ! (k - fst (seg i)) else data ! k)"
  by (simp add: place_def or_words_def covers_def)

lemma load_phdrs_places:
  assumes "\<forall>i\<in>set is. ef_phdr f i = Some (ph i) \<and>
      (p_load (ph i) \<longrightarrow> segment_at f start (length data) (ph i) (fst (seg i)) (snd (seg i)))"
    and "4 * length data \<le> unat len" and "unat start + unat len < 2 ^ 32"
  shows "load_phdrs f start len is data = Inr (Some (fold (place ph seg) is data))"
  using assms
proof (induction "is" arbitrary: data)
  case (Cons i "is")
  have "load_segment f start len (ph i) data = Inr (place ph seg i data)"
  proof (cases "p_load (ph i)")
    case True
    with Cons.prems(1) have "segment_at f start (length data) (ph i) (fst (seg i)) (snd (seg i))"
      by simp
    with True Cons.prems(2,3) show ?thesis
      unfolding segment_at_def place_def by (simp add: load_segment_words)
  next
    case False
    then show ?thesis by (simp add: load_segment_def place_def Let_def)
  qed
  moreover have "load_phdrs f start len is (place ph seg i data) = Inr (Some (fold (place ph seg) is (place ph seg i data)))"
    using Cons by simp
  ultimately show ?case
    using Cons.prems(1) by simp
qed simp

text \<open>A word that no header covers keeps its value; one that a single header covers gets its word or-ed in.\<close>

lemma fold_place_nth_other:
  assumes "k < length data" and "\<forall>i\<in>set is. p_load (ph i) \<longrightarrow> \<not> covers (seg i) k"
  shows "fold (place ph seg) is data ! k = data ! k"
  using assms
proof (induction "is" arbitrary: data)
  case (Cons i "is")
  then have "fold (place ph seg) is (place ph seg i data) ! k = place ph seg i data ! k"
    by simp
  with Cons.prems show ?case by (auto simp: nth_place)
qed simp

lemma fold_place_nth:
  assumes "k < length data" and "distinct is" and "i0 \<in> set is" and "p_load (ph i0)" and "covers (seg i0) k"
    and "\<forall>i\<in>set is. i \<noteq> i0 \<longrightarrow> p_load (ph i) \<longrightarrow> \<not> covers (seg i) k"
  shows "fold (place ph seg) is data ! k = data ! k OR snd (seg i0) ! (k - fst (seg i0))"
  using assms
proof (induction "is" arbitrary: data)
  case (Cons i "is")
  show ?case
  proof (cases "i = i0")
    case True
    have "fold (place ph seg) is (place ph seg i0 data) ! k = place ph seg i0 data ! k"
      using Cons.prems True by (intro fold_place_nth_other) auto
    with True Cons.prems show ?thesis by (simp add: nth_place)
  next
    case False
    then have "fold (place ph seg) is (place ph seg i data) ! k = place ph seg i data ! k OR snd (seg i0) ! (k - fst (seg i0))"
      using Cons by simp
    moreover have "place ph seg i data ! k = data ! k"
      using Cons.prems False by (auto simp: nth_place)
    ultimately show ?thesis by simp
  qed
qed simp

section \<open>Fetching\<close>

text \<open>The memory of the simulator with the array \<open>data\<close> in its region.\<close>

definition loaded :: "u32 \<Rightarrow> (nat \<Rightarrow> u32) \<Rightarrow> rng \<Rightarrow> u32 list \<Rightarrow> magic_memory" where
  "loaded len junk r data =
     (mm_start len junk r)\<lparr>mm_world := (mm_world (mm_start len junk r))\<lparr>wd_heap := [data]\<rparr>\<rparr>"

lemma fetch_word:
  assumes "length data = words" and "unat len = 4 * words" and "unat (0x80000000 :: u32) + unat len < 2 ^ 32"
    and "k < words" and "unat (wb_adr_o q) div 4 = unat (0x80000000 :: u32) div 4 + k"
    and "wb_cyc_o q" and "\<not> wb_we_o q"
  shows "\<exists>mm. I_request q (loaded len junk r data) p = Inr (mm, p\<lparr>wb_ack_i := False, wb_dat_i := data ! k\<rparr>) \<and>
    mm_i_finish mm \<and> mm_i_wait mm = 0 \<and> mm_world mm = mm_world (loaded len junk r data)"
proof -
  let ?h = "ram_handler 0 0x80000000 len"
  have adr: "unat (0x80000000 :: u32) \<le> unat (wb_adr_o q)" "unat (wb_adr_o q) < unat (0x80000000 :: u32) + unat len"
    using assms(2,4,5) by simp_all
  have "unat (0x80000000 + len) = unat (0x80000000 :: u32) + unat len"
    using assms(3) by (simp add: unat_word_ariths)
  then have "in_range (wb_adr_o q) ?h"
    using adr by (simp add: in_range_def ram_handler_def word_le_nat_alt word_less_nat_alt)
  then have find: "find (in_range (wb_adr_o q)) [?h, console] = Some ?h"
    by simp
  have "unat (wb_adr_o q - 0x80000000) = unat (wb_adr_o q) - unat (0x80000000 :: u32)"
    using adr by (simp add: unat_sub_if')
  then have "unat (wb_adr_o q - 0x80000000) div 4 = k"
    using assms(5) adr by simp
  then have "h_read ?h (wb_adr_o q - h_start ?h) (mm_world (loaded len junk r data)) = Inr (data ! k)"
    using assms(1,4) by (simp add: ram_handler_def ram_read_def loaded_def)
  then show ?thesis
    using find assms(6,7)
    by (simp add: I_request_def loaded_def mm_start_def addHandler_def addRamHandler_def latency_zero Let_def)
qed

lemma or_keeps: "a OR w = w \<longleftrightarrow> a AND NOT w = 0" for a w :: u32
  by (auto simp: bit_eq_iff bit_simps)

section \<open>Properties\<close>

text \<open>
  C8. What is loaded is what is fetched, up to the memory it was or-ed into. Take an executable whose loadable
  headers hold whole words inside the region, and a word \<open>j\<close> of one of them that no other header covers. The file loads, and the core
  that asks for the address of this word on the instruction bus is acknowledged in the second call
  with that word or-ed with what the uninitialised array contained there; it is the word of the file exactly when every bit the
  array had set there is set in the word, in particular when the array was zero.
\<close>

theorem program_is_fetched:
  assumes "program f 0x80000000 words n ph seg" and "unat len = 4 * words" and "unat (0x80000000 :: u32) + unat len < 2 ^ 32"
    and "i < n" and "p_load (ph i)" and "j < length (snd (seg i))"
    and "\<forall>i'<n. i' \<noteq> i \<longrightarrow> p_load (ph i') \<longrightarrow> \<not> covers (seg i') (fst (seg i) + j)"
    and "unat (wb_adr_o q) = unat (p_paddr (ph i)) + 4 * j" and "wb_cyc_o q" and "\<not> wb_we_o q" and "wb_cyc_o q2"
  shows "\<exists>data mm mm2 p2. loadFromElfFile f (map junk [0..<unat len div 4]) 0x80000000 len = Inr (Some data) \<and>
    I_request q (loaded len junk r data) p = Inr (mm, p2\<lparr>wb_ack_i := False\<rparr>) \<and> I_request q2 mm (p2\<lparr>wb_ack_i := False\<rparr>) = Inr (mm2, p2) \<and>
    wb_ack_i p2 \<and> wb_dat_i p2 = junk (fst (seg i) + j) OR snd (seg i) ! j \<and>
    (wb_dat_i p2 = snd (seg i) ! j \<longleftrightarrow> junk (fst (seg i) + j) AND NOT (snd (seg i) ! j) = 0)"
proof -
  let ?k = "fst (seg i) + j" and ?junk = "map junk [0..<words]"
  let ?data = "fold (place ph seg) [0..<n] ?junk"
  have load: "loadFromElfFile f ?junk 0x80000000 len = Inr (Some ?data)"
    using assms(1-3) load_phdrs_places [of "[0..<n]" f ph "0x80000000" ?junk seg len]
    by (simp add: loadFromElfFile_def program_def)
  have seg: "segment_at f 0x80000000 words (ph i) (fst (seg i)) (snd (seg i))"
    using assms(1,4,5) by (simp add: program_def)
  then have k: "?k < words" and cov: "covers (seg i) ?k"
    using assms(6) by (simp_all add: segment_at_def covers_def)
  have word: "?data ! ?k = junk ?k OR snd (seg i) ! j"
    using fold_place_nth [of ?k ?junk "[0..<n]" i ph seg] k cov assms(4,5,7) by simp
  have "length (fold (place ph seg) is d) = length d" for "is" d
    by (induction "is" arbitrary: d) simp_all
  then have len: "length ?data = words" by simp
  have "unat (wb_adr_o q) div 4 = unat (0x80000000 :: u32) div 4 + ?k"
    using assms(8) seg by (simp add: segment_at_def)
  from fetch_word [OF len assms(2,3) k this assms(9,10), of junk r p]
  obtain mm where mm: "I_request q (loaded len junk r ?data) p = Inr (mm, p\<lparr>wb_ack_i := False, wb_dat_i := ?data ! ?k\<rparr>)"
      "mm_i_finish mm" "mm_i_wait mm = 0" by blast
  let ?p2 = "p\<lparr>wb_ack_i := True, wb_dat_i := ?data ! ?k\<rparr>"
  have "I_request q2 mm (?p2\<lparr>wb_ack_i := False\<rparr>) = Inr (mm\<lparr>mm_i_finish := False\<rparr>, ?p2)"
    using mm(2,3) assms(11) by (simp add: I_request_def Let_def)
  then show ?thesis
    using load mm(1) word assms(2) or_keeps [of "junk ?k" "snd (seg i) ! j"]
    by (intro exI [of _ ?data] exI [of _ mm] exI [of _ "mm\<lparr>mm_i_finish := False\<rparr>"] exI [of _ ?p2]) simp
qed

definition two_segments :: elf_file where
  "two_segments =
     \<lparr>ef_open = True, ef_version = True, ef_begin = True, ef_kind_elf = True, ef_ehdr = Some (True, True, True),
      ef_phnum = Some 2,
      ef_phdr = (\<lambda>i. Some \<lparr>p_load = True, p_offset = 0, p_paddr = 0x80000000 + 8 * of_nat i, p_filesz = 8\<rparr>),
      ef_rawchunk = (\<lambda>_ _. Some [0x13, 0x6f])\<rparr>"

theorem program_is_fetched_witness:
  "\<exists>data mm mm2 p2. loadFromElfFile two_segments (map (\<lambda>_. 0) [0..<unat (16 :: u32) div 4]) 0x80000000 16 = Inr (Some data) \<and>
    I_request \<lparr>wb_cyc_o = True, wb_adr_o = 0x8000000c, wb_we_o = False, wb_dat_o = 0, wb_sel_o = 15\<rparr>
      (loaded 16 (\<lambda>_. 0) (\<lambda>_. 0) data) \<lparr>wb_ack_i = False, wb_dat_i = 0\<rparr> = Inr (mm, p2\<lparr>wb_ack_i := False\<rparr>) \<and>
    I_request \<lparr>wb_cyc_o = True, wb_adr_o = 0x8000000c, wb_we_o = False, wb_dat_o = 0, wb_sel_o = 15\<rparr>
      mm (p2\<lparr>wb_ack_i := False\<rparr>) = Inr (mm2, p2) \<and> wb_ack_i p2 \<and> wb_dat_i p2 = 0x6f"
proof -
  let ?ph = "\<lambda>i. \<lparr>p_load = True, p_offset = 0, p_paddr = 0x80000000 + 8 * of_nat i, p_filesz = 8\<rparr>"
  let ?seg = "\<lambda>i::nat. (2 * i, [0x13, 0x6f :: u32])"
  let ?q = "\<lparr>wb_cyc_o = True, wb_adr_o = 0x8000000c, wb_we_o = False, wb_dat_o = 0, wb_sel_o = 15\<rparr>"
  have "i < 2 \<longleftrightarrow> i = 0 \<or> i = Suc 0" for i :: nat by auto
  then have "program two_segments 0x80000000 4 2 ?ph ?seg"
    by (auto simp: program_def two_segments_def segment_at_def)
  from program_is_fetched [OF this, of 16 1 1 ?q ?q "\<lambda>_. 0" "\<lambda>_. 0" "\<lparr>wb_ack_i = False, wb_dat_i = 0\<rparr>"]
  show ?thesis
    by (simp add: covers_def)
qed

end
