(* ===== verification/Spec2Isabelle.thy ===== *)
theory Spec2Isabelle
  imports Lsu_Bench L1d_Bench Dcache_Bench Nblsu_Bench Fake_Dcache_Bench Simulator Core_Wave
    Backend_Bench Encodings Mmu_Benches Unit_Benches Predictor_Benches Fu_Benches Decode_Bench Program_Load
begin

text \<open>
  Verification of the C++ code of GreenRio 2, a RISC-V core: the test benches of its load/store path,
  the whole-core simulator with its co-simulation trace, the bench of the backend, and the directed
  self-checks of single units. The core is
  Verilog; the C++ code drives it through the classes Verilator generates. These classes are arguments
  of the model everywhere (a state, a function that evaluates it for the values on its input pins, a
  function that reads its outputs), so every theorem about a bench holds for any unit under test, a
  broken one included.

  \<^bold>\<open>Conventions.\<close> \<open>Prelude\<close> has the fixed-width integers, the result type \<open>fault + 'a\<close> (exceptions,
  undefined behaviour and endless loops are values), the numbers \<open>rand()\<close> returns as an argument, and
  runs of fallible steps. \<open>Bench_Loop\<close> has the main loop of the benches as a locale: a step, a condition and a time limit;
  invariants, faults and the reached states of a run are derived there once, and the five benches with random requests
  interpret it. Arrays are functions or lists with their bounds written out. Log lines are left out, and so are waveforms outside the simulated core and printing outside the trace and the directed self-checks, whose text is modelled.

  \<^bold>\<open>Load/store bench\<close> (\<open>sim/lsu_ut\<close>) and \<^bold>\<open>L1D bench\<close> (\<open>sim/l1d\<close>). A \<open>Monitor\<close> draws random requests,
  hands them to a \<open>FakeRCU\<close> that keeps them in order and issues them to the unit, and replays each
  committed one on a reference memory. The unit works on fake memories, a TLB, a bus and a cache.
  \<^item> \<open>Byte_Store\<close>: the little-endian byte memory that is the specification of all memories, and the
    locale \<open>byte_store\<close> of what the memories promise.
  \<^item> \<open>Params\<close>, \<open>Encodings\<close>: constants, the layout of a load/store queue entry and the operation codes (\<open>params.hpp\<close>,
    \<open>util.hpp\<close>). The sizes agree; the locale \<open>code_table\<close> shows that a code put in a field of its declared width is read back, and
    which store unit operations the opcode field of a queue entry, one bit short, confuses.
  \<^item> \<open>Lsu_Mem\<close>: \<open>FakeMemory\<close> of the load/store bench; loads and stores of all sizes implement the byte memory.
  \<^item> \<open>Fifo_Station\<close>, \<open>Rcu\<close>: the interface of an in-order buffer, and both versions of \<open>FakeRCU\<close>: they are FIFOs;
    when their indices are distinct.
  \<^item> \<open>Monitor\<close>, \<open>Lsu_Monitor\<close>, \<open>L1d_Monitor\<close>: the generator and checker; its checks are exactly the sequential
    specification; the fence order check.
  \<^item> \<open>L1d_Mem\<close>: the AXI memory of the L1D bench: in-order answers, burst round trip, no endless loop.
  \<^item> \<open>Fake_Tlb\<close>, \<open>Fake_Bus\<close>, \<open>Fake_Cache\<close>: latencies; the faults of the cache: a misaligned access, and two answers in one cycle,
    which needs a request outside the memory window of the bench (inside it the delays stay distinct; outside it a run with two answers is given).
  \<^item> \<open>Lockstep\<close>, \<open>Lsu_Bench\<close>, \<open>L1d_Bench\<close>: the main loops. A run that ends without a fault is a sequential
    execution, shown on a run of the load/store bench that issues, answers and checks a load; the fault that ends a run of the load/store bench has one of the causes
    of \<open>lsu_cause\<close> in a state the run passed through, and none of them is the bookkeeping of the monitor.

  \<^bold>\<open>Self-check benches\<close> (\<open>sim/selfcheck\<close>, \<open>sim/perfect_mem.hpp\<close>).
  \<^item> \<open>Perfect_Mem\<close>: the delayed memory \<open>PerfectMem\<close>: a byte memory with fixed answer times and, against the
    intention of its queue, one outstanding read.
  \<^item> \<open>Replay\<close>: requests, queues and the replay shared by the benches, with the locale \<open>replay_bench\<close> that
    turns a property of one step into one of a run.
  \<^item> \<open>Dcache_Bench\<close>, \<open>Nblsu_Bench\<close>: \<open>lsu_dcache.cpp\<close> and \<open>nblsu.cpp\<close> (its random test; the directed tests
    are commented out in the source): in passing runs the data on the unit's port at each report is that of a sequential execution of the
    requests (\<open>dc_trace\<close>, \<open>nb_trace\<close>), and each fault of a bench
    is the fault of the unit in a state the run passed through.
  \<^item> \<open>Fake_Dcache_Bench\<close>: \<open>lsu_fake_dcache.cpp\<close>, in the build without assertions, the only one that compiles: its exact verdict,
    which depends on no data.

  \<^bold>\<open>Directed self-checks\<close> (\<open>sim/selfcheck\<close>, \<open>src/fu/selftest\<close>, \<open>src/fetch/selfcheck\<close>): loops that drive fixed
  pin values round by round and assert or print the outputs of one unit.
  \<^item> \<open>Directed\<close>: the loop they share, its closed form, and what a unit that reacts to rising clock edges sees. The
    pins of a bench are a record, its tests a list of timed updates. The locale \<open>schedule\<close> gives the pins at
    every time for benches whose clock and reset no test touches; \<open>fast_bench\<close> gives the edges of benches with a
    clock of two rounds whose pins at edge \<open>k\<close> have a formula. Both are interpreted on the benches below.
  \<^item> \<open>Mmu_Benches\<close> (\<open>rvh_mmu.cpp\<close>, \<open>rvh_monolithic_mmu.cpp\<close>), \<open>Unit_Benches\<close> (\<open>lsu.cpp\<close>, \<open>src/fetch/selfcheck/fetch.cpp\<close>,
    \<open>new_fu.cpp\<close>, \<open>selfcheck/backend.cpp\<close>), \<open>Predictor_Benches\<close> (\<open>gshare.cpp\<close>, \<open>btb.cpp\<close>, \<open>selfcheck/fetch.cpp\<close>), \<open>Fu_Benches\<close>
    (\<open>alu.cpp\<close>, \<open>md.cpp\<close>, \<open>fu.cpp\<close> of \<open>src/fu/selftest\<close>): which units each bench accepts, as a condition on the
    unit after the sequence of pins it has seen at its edges; what the units are offered, which is not always what the comments say.
  \<^item> \<open>Decode_Bench\<close> (\<open>decode.cpp\<close>): the reader of hexadecimal instructions, which undoes printing, and the loop that drives them.

  \<^bold>\<open>Whole-core simulator\<close> (\<open>sim/simulator.cpp\<close>, \<open>core.cpp\<close>, \<open>memory.cpp\<close>, \<open>tracelog.cpp\<close>) and \<open>src/dpi_file/co_sim.cpp\<close>.
  \<^item> \<open>Magic_Memory\<close>: address ranges with handlers over a heap of arrays, the two-phase bus handshake and
    the ELF loader; libelf is an argument. Well-formed memories never fault, each started access is
    acknowledged once, the loader ors segments at their place.
  \<^item> \<open>Program_Load\<close>: loader, memory and bus together: the core fetches the words of the executable at their addresses,
    or-ed with what the uninitialised array held there.
  \<^item> \<open>Text_Format\<close>, \<open>Trace_Log\<close>: the lines of the trace with their text, and the DPI functions that write
    them, in both versions, with the locale \<open>reg_mirror\<close> of a mirrored register file. No faults, registers mirrored, text readable,
    CSR writes logged in the first version and never in the second.
  \<^item> \<open>Core_Sim\<close>: \<open>Core\<close>, its counters (floating-point numbers that stop at their significand; cycles, commits, branches and hits
    are counted exactly up to it) and the calls
    the core makes; a call may end the program, so results are a fault, an exit or a state, with a rule
    of consequence and of composition for them.
  \<^item> \<open>Core_Wave\<close>: the build of \<open>Core\<close> that writes a waveform: the same behaviour, with samples at increasing times.
  \<^item> \<open>Simulator\<close>: arguments, set-up, main loop and exit code. The command line round trip; the exit code is
    the verdict of the core's writes to \<open>tohost\<close>.

  \<^bold>\<open>Backend bench\<close> (\<open>ut/backend.cpp\<close>), \<open>Backend_Bench\<close>: the CSV reader, the number conversions of the C++
  library and the memory responses, with the exact value of a response.

  \<^bold>\<open>Loops and bounds.\<close> The main loops of the benches are total: they stop at the \<open>MAX_TIME\<close> of the source.
  The simulator's loop is total because its \<open>int\<close> counter overflows, which is a fault of the model; with a
  cycle limit it is proved not to happen. Loops that can run forever (the redraw of an opcode, the
  search for a free delay, the handling of a memory request) are partial functions with values in an
  option type or give the fault \<open>Spins\<close>; that they return is proved.

  \<^bold>\<open>Not modelled.\<close> The hardware (Verilog) and what is generated from it. Files that do not compile as they
  are: \<open>sim/uncore\<close>, a copy of the load/store bench with half of its types renamed (its \<open>fake_mem.cpp\<close> is the
  modelled one, its two \<open>main\<close> functions evaluate nothing); \<open>sim/selfcheck/fu.cpp\<close> and \<open>rcu.cpp\<close>, which switch on an undeclared name;
  \<open>src/fu/selftest/mul.cpp\<close>, which has no \<open>main\<close>. Stale sources no build file compiles (\<open>perfect_mem.cpp\<close>,
  \<open>perfect_mem_test.cpp\<close>, \<open>core_empty.cpp\<close>, \<open>src/rcu/c_file/test.c\<close>). The statistics \<open>Core::close\<close> prints. The RISC-V test programs under \<open>test\<close>.
\<close>

end
